(* ===== verification/Prelude.thy ===== *)
theory Prelude
  imports Main "HOL-Library.Word"
begin

text \<open>
  Shared vocabulary of the development: machine words, byte strings, the ways a Go
  call can end, the part of the Go standard library that the framework calls
  (\<open>fmt.Sprintf\<close>, \<open>strings.ReplaceAll\<close>, \<open>encoding/binary\<close> for
  little-endian 16-bit values, \<open>hash/crc32\<close>), and the generic lemmas the
  component theories use.
\<close>

unbundle bit_operations_syntax

declare Let_def [simp]

section \<open>Types\<close>

type_synonym byte = "8 word"
type_synonym u16 = "16 word"
type_synonym u32 = "32 word"
type_synonym u64 = "64 word"
type_synonym bytes = "byte list"

text \<open>
  A Go call returns, panics, or ends the process (\<open>log.Fatal\<close> calls
  \<open>os.Exit\<close>). Calls that change state return the state beside the outcome, because
  what was written before a panic stays written.
\<close>

datatype 'a outcome = Ret 'a | Panic string | Exit string

type_synonym ('s, 'a) proc = "'s \<Rightarrow> 's \<times> 'a outcome"

fun seq_proc :: "('s, 'a) proc \<Rightarrow> ('a \<Rightarrow> ('s, 'b) proc) \<Rightarrow> ('s, 'b) proc" where
  "seq_proc p k s =
     (case p s of
        (s', Ret a) \<Rightarrow> k a s'
      | (s', Panic m) \<Rightarrow> (s', Panic m)
      | (s', Exit m) \<Rightarrow> (s', Exit m))"

named_theorems frame_simps "how the operations act on the observers of a state"
named_theorems inv_intros "operations keep their component's invariant"

section \<open>fmt.Sprintf\<close>

text \<open>
  The verbs the source uses are \<open>%s\<close>, \<open>%d\<close> and \<open>%v\<close>, without flags or width,
  on strings and integers. Missing and surplus operands print as the fmt package documents.
\<close>

datatype fmt_arg = ArgS string | ArgD int

fun digit_char :: "nat \<Rightarrow> char" where
  "digit_char d = char_of (48 + d)"

fun show_nat :: "nat \<Rightarrow> string" where
  "show_nat n = (if n < 10 then [digit_char n] else show_nat (n div 10) @ [digit_char (n mod 10)])"

declare show_nat.simps [simp del]

definition show_int :: "int \<Rightarrow> string" where
  "show_int i = (if i < 0 then CHR ''-'' # show_nat (nat (- i)) else show_nat (nat i))"

fun fmt_value :: "fmt_arg \<Rightarrow> string" where
  "fmt_value (ArgS s) = s"
| "fmt_value (ArgD i) = show_int i"

fun fmt_type :: "fmt_arg \<Rightarrow> string" where
  "fmt_type (ArgS s) = ''string''"
| "fmt_type (ArgD i) = ''int''"

fun fmt_verb_ok :: "char \<Rightarrow> fmt_arg \<Rightarrow> bool" where
  "fmt_verb_ok v (ArgS s) = (v = CHR ''s'' \<or> v = CHR ''v'')"
| "fmt_verb_ok v (ArgD i) = (v = CHR ''d'' \<or> v = CHR ''v'')"

definition fmt_verb :: "char \<Rightarrow> fmt_arg \<Rightarrow> string" where
  "fmt_verb v a =
     (if fmt_verb_ok v a then fmt_value a
      else ''%!'' @ [v] @ ''('' @ fmt_type a @ ''='' @ fmt_value a @ '')'')"

fun fmt_extra :: "fmt_arg list \<Rightarrow> string" where
  "fmt_extra [] = []"
| "fmt_extra [a] = fmt_type a @ ''='' @ fmt_value a"
| "fmt_extra (a # b # as) = fmt_type a @ ''='' @ fmt_value a @ '', '' @ fmt_extra (b # as)"

fun sprintf :: "string \<Rightarrow> fmt_arg list \<Rightarrow> string" where
  "sprintf [] as = (if as = [] then [] else ''%!(EXTRA '' @ fmt_extra as @ '')'')"
| "sprintf [c] as =
     (if c = CHR ''%'' then ''%!(NOVERB)'' @ sprintf [] as else c # sprintf [] as)"
| "sprintf (c # v # cs) as =
     (if c \<noteq> CHR ''%'' then c # sprintf (v # cs) as
      else if v = CHR ''%'' then CHR ''%'' # sprintf cs as
      else case as of
             [] \<Rightarrow> ''%!'' @ [v] @ ''(MISSING)'' @ sprintf cs []
           | a # as' \<Rightarrow> fmt_verb v a @ sprintf cs as')"

lemma sprintf_Cons_plain: "c \<noteq> CHR ''%'' \<Longrightarrow> sprintf (c # cs) as = c # sprintf cs as"
  by (cases cs) auto

text \<open>A format that starts with text free of \<open>%\<close> prints that text first.\<close>

lemma sprintf_append_plain: "CHR ''%'' \<notin> set p \<Longrightarrow> sprintf (p @ cs) as = p @ sprintf cs as"
  by (induction p) (auto simp: sprintf_Cons_plain)

section \<open>strings.ReplaceAll with an empty replacement\<close>

fun strip_prefix :: "string \<Rightarrow> string \<Rightarrow> string option" where
  "strip_prefix [] s = Some s"
| "strip_prefix (p # ps) [] = None"
| "strip_prefix (p # ps) (c # s) = (if p = c then strip_prefix ps s else None)"

lemma strip_prefix_Some: "strip_prefix p s = Some r \<longleftrightarrow> s = p @ r"
  by (induction p s rule: strip_prefix.induct) auto

lemma strip_prefix_append [simp]: "strip_prefix p (p @ r) = Some r"
  by (simp add: strip_prefix_Some)

text \<open>
  \<open>strings.ReplaceAll(s, old, "")\<close>: the non-overlapping occurrences of \<open>old\<close>, found
  from the left, are dropped. For an empty \<open>old\<close> the result is \<open>s\<close>.
\<close>

function remove_all :: "string \<Rightarrow> string \<Rightarrow> string" where
  "remove_all old [] = []"
| "remove_all old (c # s) =
     (if old = [] then c # s
      else case strip_prefix old (c # s) of
             Some r \<Rightarrow> remove_all old r
           | None \<Rightarrow> c # remove_all old s)"
  by pat_completeness auto
termination
  by (relation "measure (\<lambda>(old, s). length s)")
     (auto simp: strip_prefix_Some neq_Nil_conv dest!: arg_cong [where f = length])

definition occurs_in :: "string \<Rightarrow> string \<Rightarrow> bool" where
  "occurs_in old s \<longleftrightarrow> (\<exists>a b. s = a @ old @ b)"

lemma occurs_in_tl: "occurs_in old s \<Longrightarrow> occurs_in old (c # s)"
  unfolding occurs_in_def by (metis append_Cons)

lemma remove_all_absent: "\<not> occurs_in old s \<Longrightarrow> remove_all old s = s"
proof (induction s)
  case Nil
  then show ?case by simp
next
  case (Cons c s)
  have "strip_prefix old (c # s) \<noteq> Some r" for r
    using Cons.prems by (metis occurs_in_def strip_prefix_Some append_Nil)
  then have "strip_prefix old (c # s) = None" by (cases "strip_prefix old (c # s)") auto
  moreover from Cons.prems have "\<not> occurs_in old s"
    by (blast dest: occurs_in_tl)
  ultimately show ?case using Cons.IH by simp
qed

lemma remove_all_prefix:
  assumes "old \<noteq> []"
  shows "remove_all old (old @ s) = remove_all old s"
proof (cases old)
  case (Cons a as)
  then show ?thesis using strip_prefix_append [of old s] by simp
qed (use assms in simp)

section \<open>encoding/binary, little endian, 16 bits\<close>

definition put_le16 :: "u16 \<Rightarrow> bytes" where
  "put_le16 w = [ucast w, ucast (drop_bit 8 w)]"

definition get_le16 :: "byte \<Rightarrow> byte \<Rightarrow> u16" where
  "get_le16 a b = ucast a OR push_bit 8 (ucast b)"

lemma length_put_le16 [simp]: "length (put_le16 w) = 2"
  by (simp add: put_le16_def)

lemma get_put_le16: "get_le16 (ucast w) (ucast (drop_bit 8 w)) = w"
  unfolding get_le16_def
  by (rule bit_word_eqI)
     (auto simp: bit_or_iff bit_push_bit_iff bit_ucast_iff bit_drop_bit_eq)

lemma unat_of_nat_u16: "n < 65536 \<Longrightarrow> unat (of_nat n :: u16) = n"
  by (simp add: unat_of_nat take_bit_eq_mod)

lemma unat_of_nat_u16_mod: "unat (of_nat n :: u16) = n mod 65536"
  by (simp add: unat_of_nat take_bit_eq_mod)

lemma of_nat_u32_inj:
  assumes "i < 2 ^ 32" "j < 2 ^ 32" "(of_nat i :: u32) = of_nat j"
  shows "i = j"
proof -
  have "unat (of_nat i :: u32) = i" "unat (of_nat j :: u32) = j"
    using assms(1,2) by (simp_all add: unat_of_nat take_bit_eq_mod)
  with assms(3) show ?thesis by metis
qed

lemma of_nat_2_32: "(of_nat (2 ^ 32) :: u32) = 0"
  by (simp add: word_eq_iff_unsigned unsigned_of_nat take_bit_eq_mod)

end
