(* ===== verification/Crc32.thy ===== *)
theory Crc32
  imports Prelude
begin

text \<open>
  \<open>crc32.ChecksumIEEE\<close> of the Go standard library, which turns a message's full name
  into its 32-bit route: the reflected polynomial \<open>0xEDB88320\<close>, all bits set before and
  inverted after. The second half gives the same checksum on lists of bits, on which the
  kernel evaluates the names of the repository's messages.
\<close>

section \<open>The checksum\<close>

definition crc_bit :: "u32 \<Rightarrow> u32" where
  "crc_bit c = (if bit c 0 then drop_bit 1 c XOR 0xEDB88320 else drop_bit 1 c)"

definition crc_byte :: "u32 \<Rightarrow> byte \<Rightarrow> u32" where
  "crc_byte c b = (crc_bit ^^ 8) (c XOR ucast b)"

definition crc32 :: "bytes \<Rightarrow> u32" where
  "crc32 bs = NOT (foldl crc_byte (NOT 0) bs)"

text \<open>The conversion \<open>[]byte(s)\<close>.\<close>

definition bytes_of :: "string \<Rightarrow> bytes" where
  "bytes_of s = map of_char s"

section \<open>The same checksum on lists of bits\<close>

text \<open>Registers are lists of 32 bits, the least significant first.\<close>

definition word_of_bits :: "bool list \<Rightarrow> 'a::len word" where
  "word_of_bits bs = horner_sum of_bool 2 bs"

definition xor_bits :: "bool list \<Rightarrow> bool list \<Rightarrow> bool list" where
  "xor_bits as bs = map2 (\<noteq>) as bs"

definition poly_bits :: "bool list" where
  "poly_bits =
     [False, False, False, False, False, True, False, False,
      True, True, False, False, False, False, False, True,
      False, False, False, True, True, True, False, True,
      True, False, True, True, False, True, True, True]"

fun bits_step :: "bool list \<Rightarrow> bool list" where
  "bits_step [] = []"
| "bits_step (b # r) =
     (if b then xor_bits (r @ [False]) poly_bits else r @ [False])"

fun bits_char :: "bool list \<Rightarrow> char \<Rightarrow> bool list" where
  "bits_char r (Char b0 b1 b2 b3 b4 b5 b6 b7) =
     (bits_step ^^ 8) (xor_bits r ([b0, b1, b2, b3, b4, b5, b6, b7] @ replicate 24 False))"

definition bits_crc :: "string \<Rightarrow> bool list" where
  "bits_crc s = map Not (foldl bits_char (replicate 32 True) s)"

lemma length_xor_bits [simp]: "length (xor_bits as bs) = min (length as) (length bs)"
  by (simp add: xor_bits_def)

lemma length_poly_bits [simp]: "length poly_bits = 32"
  by (simp add: poly_bits_def)

lemma length_bits_step [simp]: "length r = 32 \<Longrightarrow> length (bits_step r) = 32"
  by (cases r) auto

lemma length_bits_steps [simp]: "length r = 32 \<Longrightarrow> length ((bits_step ^^ n) r) = 32"
  by (induction n) auto

lemma length_bits_char [simp]: "length r = 32 \<Longrightarrow> length (bits_char r c) = 32"
  by (cases c) (simp del: funpow.simps)

lemma length_bits_fold [simp]: "length r = 32 \<Longrightarrow> length (foldl bits_char r s) = 32"
  by (induction s arbitrary: r) auto

lemma bit_word_of_bits:
  "bit (word_of_bits bs :: 'a::len word) n \<longleftrightarrow> n < LENGTH('a) \<and> n < length bs \<and> bs ! n"
  by (auto simp: word_of_bits_def bit_horner_sum_bit_word_iff)

lemma word_of_xor_bits:
  "length as = length bs \<Longrightarrow>
   (word_of_bits (xor_bits as bs) :: 'a::len word) = word_of_bits as XOR word_of_bits bs"
  by (rule bit_word_eqI) (auto simp: bit_word_of_bits bit_xor_iff xor_bits_def)

lemma word_of_poly_bits: "word_of_bits poly_bits = (0xEDB88320 :: u32)"
  by (simp add: word_of_bits_def poly_bits_def)

lemma word_of_shift:
  "length r = 31 \<Longrightarrow> (word_of_bits (r @ [False]) :: u32) = drop_bit 1 (word_of_bits (b # r))"
  by (rule bit_word_eqI) (auto simp: bit_word_of_bits bit_drop_bit_eq nth_append)

lemma word_of_bits_step:
  assumes "length r = 32"
  shows "crc_bit (word_of_bits r) = word_of_bits (bits_step r)"
proof (cases r)
  case (Cons b r')
  then have "length r' = 31" using assms by simp
  moreover have "bit (word_of_bits (b # r') :: u32) 0 = b"
    using bit_word_of_bits [where 'a = 32 and bs = "b # r'" and n = 0] by simp
  ultimately show ?thesis
    unfolding crc_bit_def using word_of_shift [of r' b]
    by (auto simp: Cons word_of_xor_bits word_of_poly_bits)
qed (use assms in simp)

lemma word_of_bits_steps:
  "length r = 32 \<Longrightarrow> (crc_bit ^^ n) (word_of_bits r) = word_of_bits ((bits_step ^^ n) r)"
  by (induction n) (auto simp: word_of_bits_step)

lemma ucast_of_char:
  "ucast (of_char (Char b0 b1 b2 b3 b4 b5 b6 b7) :: byte)
   = (word_of_bits ([b0, b1, b2, b3, b4, b5, b6, b7] @ replicate 24 False) :: u32)"
proof -
  have "(of_char (Char b0 b1 b2 b3 b4 b5 b6 b7) :: byte)
      = word_of_bits [b0, b1, b2, b3, b4, b5, b6, b7]"
    by (simp add: word_of_bits_def)
  then show ?thesis
    by (simp only:, intro bit_word_eqI)
       (auto simp: bit_word_of_bits bit_ucast_iff nth_append simp del: append_Cons)
qed

lemma word_of_bits_char:
  "length r = 32 \<Longrightarrow> crc_byte (word_of_bits r) (of_char c) = word_of_bits (bits_char r c)"
  by (cases c)
     (simp add: crc_byte_def ucast_of_char word_of_xor_bits [symmetric] word_of_bits_steps
        del: funpow.simps of_char_Char append_Cons)

lemma word_of_bits_fold:
  "length r = 32 \<Longrightarrow>
   foldl crc_byte (word_of_bits r) (map of_char s) = word_of_bits (foldl bits_char r s)"
  by (induction s arbitrary: r) (auto simp: word_of_bits_char)

lemma word_of_bits_ones: "(word_of_bits (replicate 32 True) :: u32) = NOT 0"
  by (rule bit_word_eqI) (auto simp: bit_word_of_bits bit_not_iff)

lemma word_of_bits_Not:
  "length r = 32 \<Longrightarrow> (word_of_bits (map Not r) :: u32) = NOT (word_of_bits r)"
  by (rule bit_word_eqI) (auto simp: bit_word_of_bits bit_not_iff)

lemma crc32_bits: "crc32 (bytes_of s) = word_of_bits (bits_crc s)"
  unfolding crc32_def bytes_of_def bits_crc_def
  by (simp only: word_of_bits_ones [symmetric] word_of_bits_fold word_of_bits_Not
      length_replicate length_bits_fold)

lemma length_bits_crc [simp]: "length (bits_crc s) = 32"
  by (simp add: bits_crc_def)

lemma word_of_bits_inj:
  assumes "length as = 32" "length bs = 32"
    and "(word_of_bits as :: u32) = word_of_bits bs"
  shows "as = bs"
proof (rule nth_equalityI)
  fix i assume "i < length as"
  then show "as ! i = bs ! i"
    using assms bit_word_of_bits [where 'a = 32 and n = i and bs = as]
      bit_word_of_bits [where 'a = 32 and n = i and bs = bs] by simp
qed (use assms in simp)

lemma crc32_eq_iff: "crc32 (bytes_of s) = crc32 (bytes_of t) \<longleftrightarrow> bits_crc s = bits_crc t"
  by (auto simp: crc32_bits intro: word_of_bits_inj [OF length_bits_crc length_bits_crc])

text \<open>The check value that the algorithm's definition publishes for \<open>123456789\<close>.\<close>

lemma crc32_check: "crc32 (bytes_of ''123456789'') = 0xCBF43926"
proof -
  have "bits_crc ''123456789'' =
    [False, True, True, False, False, True, False, False,
     True, False, False, True, True, True, False, False,
     False, False, True, False, True, True, True, True,
     True, True, False, True, False, False, True, True]"
    by code_simp
  then show ?thesis by (simp add: crc32_bits word_of_bits_def)
qed

end
