(* ===== verification/Errors.thy ===== *)
theory Errors
  imports Prelude
begin

text \<open>
  \<^verbatim>\<open>framework/error/error.go\<close>: errors are values made from a text. The framework
  tests errors against \<open>nil\<close> only, so an error is its text; a result \<open>(v, err)\<close> of
  the source is \<open>Inl err\<close> or \<open>Inr v\<close>.
\<close>

datatype error = Err (err_text: string)

type_synonym 'a result = "error + 'a"

definition Error :: "string \<Rightarrow> error" where
  "Error text = Err text"

definition Errorf :: "string \<Rightarrow> fmt_arg list \<Rightarrow> error" where
  "Errorf format a = Err (sprintf format a)"

definition Wrap :: "error \<Rightarrow> string \<Rightarrow> error" where
  "Wrap err text = Errorf ''err:%v, text:%s'' [ArgS (err_text err), ArgS text]"

definition Wrapf :: "error \<Rightarrow> string \<Rightarrow> fmt_arg list \<Rightarrow> error" where
  "Wrapf err format a = Wrap err (sprintf format a)"

section \<open>The sentinel errors the framework returns\<close>

definition PacketSizeExceed :: error where
  "PacketSizeExceed = Error ''codec: packet size exceed''"

definition PacketConnectClosed :: error where
  "PacketConnectClosed = Error ''client connection closed''"

definition PacketInvalidHeader :: error where
  "PacketInvalidHeader = Error ''invalid header''"

definition ClusterRPCClientIsStop :: error where
  "ClusterRPCClientIsStop = Error ''rpc client is stop''"

text \<open>The whole table of sentinels, in the order of the file.\<close>

definition sentinel_texts :: "(string \<times> string) list" where
  "sentinel_texts =
     [(''SessionMemberNotFound'', ''member not found in the group''),
      (''SessionClosedGroup'', ''group is closed''),
      (''SessionDuplication'', ''session has existed in the current group''),
      (''SessionNotFoundInContext'', ''session not found in context''),
      (''RouteFieldCantEmpty'', ''route field can not be empty''),
      (''RouteInvalid'', ''invalid route''),
      (''PacketWrongType'', ''wrong packet type''),
      (''PacketSizeExceed'', ''codec: packet size exceed''),
      (''PacketConnectClosed'', ''client connection closed''),
      (''PacketInvalidHeader'', ''invalid header''),
      (''PacketMsgSmallerThanExpected'', ''received less data than expected, EOF?''),
      (''PacketHeadFuncNoSet'', ''head func no set''),
      (''MessageWrongType'', ''wrong message type''),
      (''MessageInvalid'', ''invalid message''),
      (''MessageRouteNotFound'', ''route info not found in dictionary''),
      (''ProtobufWrongValueType'', ''convert on wrong type value''),
      (''DiscoveryMemberListIsEmpty'', ''get member list is empty.''),
      (''DiscoveryMemberNotFound'', ''get member not found''),
      (''ClusterRPCClientIsStop'', ''rpc client is stop''),
      (''ClusterNoImplement'', ''no implement''),
      (''NodeTypeIsNil'', ''node type is nil.''),
      (''FuncIsNil'', ''function is nil''),
      (''FuncTypeError'', ''Is not func type'')]"

definition sentinel :: "string \<Rightarrow> error option" where
  "sentinel name = map_option Error (map_of sentinel_texts name)"

lemma packet_sentinels_distinct [simp]:
  "PacketSizeExceed \<noteq> PacketConnectClosed" "PacketSizeExceed \<noteq> PacketInvalidHeader"
  "PacketConnectClosed \<noteq> PacketInvalidHeader" "PacketInvalidHeader \<noteq> PacketConnectClosed"
  by (simp_all add: PacketSizeExceed_def PacketConnectClosed_def PacketInvalidHeader_def
      Error_def)

text \<open>Different sentinels have different texts, so the text tells them apart.\<close>

lemma sentinel_inj:
  assumes "sentinel m = Some e" and "sentinel n = Some e"
  shows "m = n"
proof -
  have "distinct (map snd sentinel_texts)" "distinct (map fst sentinel_texts)"
    by code_simp+
  moreover obtain x where "map_of sentinel_texts m = Some x" "map_of sentinel_texts n = Some x"
    using assms by (auto simp: sentinel_def Error_def)
  ultimately show ?thesis
    by (metis eq_key_imp_eq_value map_of_SomeD distinct_map inj_on_contraD prod.inject snd_conv)
qed

lemma Wrap_text: "err_text (Wrap e t) = ''err:'' @ err_text e @ '', text:'' @ t"
  by (simp add: Wrap_def Errorf_def fmt_verb_def)

end
