(* ===== verification/Pb.thy ===== *)
theory Pb
  imports Crc32 Errors
begin

text \<open>
  The message types that \<^verbatim>\<open>pb/*.pb.go\<close> declares, as far as the framework and the
  services read them: the structs with their nil-safe getters, the names under which the
  types are registered, and the checksum of each name. What the protobuf runtime does with
  the messages (reflection and the wire format) is not code of the repository; it is the
  parameter \<open>protolib\<close> of the theories that use it.
\<close>

section \<open>Structs and getters\<close>

type_synonym ErrCode = "u32"

definition ErrCode_OK :: ErrCode where "ErrCode_OK = 0"

definition ErrCode_ErrSystem :: ErrCode where "ErrCode_ErrSystem = 1"

record Session =
  Sid :: string
  Uid :: u64
  Ip :: string

definition Session_Reset :: Session where
  "Session_Reset = \<lparr>Sid = [], Uid = 0, Ip = []\<rparr>"

definition Session_GetSid :: "Session option \<Rightarrow> string" where
  "Session_GetSid x = (case x of Some m \<Rightarrow> Sid m | None \<Rightarrow> [])"

definition Session_GetUid :: "Session option \<Rightarrow> u64" where
  "Session_GetUid x = (case x of Some m \<Rightarrow> Uid m | None \<Rightarrow> 0)"

definition Session_GetIp :: "Session option \<Rightarrow> string" where
  "Session_GetIp x = (case x of Some m \<Rightarrow> Ip m | None \<Rightarrow> [])"

record MsgCommon =
  SourceId :: string
  TargetId :: string
  Mid :: u32
  McSid :: string
  McUid :: u64
  Route :: u32

definition MsgCommon_Reset :: MsgCommon where
  "MsgCommon_Reset =
     \<lparr>SourceId = [], TargetId = [], Mid = 0, McSid = [], McUid = 0, Route = 0\<rparr>"

definition MsgCommon_GetSourceId :: "MsgCommon option \<Rightarrow> string" where
  "MsgCommon_GetSourceId x = (case x of Some m \<Rightarrow> SourceId m | None \<Rightarrow> [])"

definition MsgCommon_GetTargetId :: "MsgCommon option \<Rightarrow> string" where
  "MsgCommon_GetTargetId x = (case x of Some m \<Rightarrow> TargetId m | None \<Rightarrow> [])"

definition MsgCommon_GetMid :: "MsgCommon option \<Rightarrow> u32" where
  "MsgCommon_GetMid x = (case x of Some m \<Rightarrow> Mid m | None \<Rightarrow> 0)"

definition MsgCommon_GetSid :: "MsgCommon option \<Rightarrow> string" where
  "MsgCommon_GetSid x = (case x of Some m \<Rightarrow> McSid m | None \<Rightarrow> [])"

definition MsgCommon_GetUid :: "MsgCommon option \<Rightarrow> u64" where
  "MsgCommon_GetUid x = (case x of Some m \<Rightarrow> McUid m | None \<Rightarrow> 0)"

definition MsgCommon_GetRoute :: "MsgCommon option \<Rightarrow> u32" where
  "MsgCommon_GetRoute x = (case x of Some m \<Rightarrow> Route m | None \<Rightarrow> 0)"

record Member =
  NodeId :: string
  NodeType :: string
  Address :: string

definition Member_Reset :: Member where
  "Member_Reset = \<lparr>NodeId = [], NodeType = [], Address = []\<rparr>"

definition Member_GetNodeId :: "Member option \<Rightarrow> string" where
  "Member_GetNodeId x = (case x of Some m \<Rightarrow> NodeId m | None \<Rightarrow> [])"

definition Member_GetNodeType :: "Member option \<Rightarrow> string" where
  "Member_GetNodeType x = (case x of Some m \<Rightarrow> NodeType m | None \<Rightarrow> [])"

record CReqLogin =
  CReqLogin_Account :: string

record SRespLogin =
  SRespLogin_Code :: ErrCode
  SRespLogin_Uid :: u64

record ReqAuth =
  ReqAuth_Account :: string

record RespAuth =
  RespAuth_Code :: ErrCode

record GtGaReqAB =
  GtGaReqAB_A :: u32
  GtGaReqAB_B :: u32

record GtGaRspAB =
  GtGaRspAB_A :: u32
  GtGaRspAB_B :: u32
  GtGaRspAB_Sum :: u32

text \<open>The messages that the services exchange.\<close>

datatype pb_msg =
    MCReqLogin CReqLogin | MSRespLogin SRespLogin
  | MReqAuth ReqAuth | MRespAuth RespAuth
  | MGtGaReqAB GtGaReqAB | MGtGaRspAB GtGaRspAB
  | MSession Session | MMsgCommon MsgCommon | MMember Member

section \<open>Message types and their full names\<close>

datatype pb_type =
    TNone | TBool | TInt32 | TInt64 | TDouble | TString
  | TInt64Int32 | TInt64Int64 | TInt32Int32 | TInt32Int64
  | TInt32List | TInt64List | TInt32Map | TInt32Int64Map | TStringKeyValue
  | TSession | TMsgCommon | TMember
  | TCReqLogin | TSRespLogin
  | TReqAuth | TRespAuth | TGtGaReqAB | TGtGaRspAB

fun full_name :: "pb_type \<Rightarrow> string" where
  "full_name TNone = ''def.None''"
| "full_name TBool = ''def.Bool''"
| "full_name TInt32 = ''def.Int32''"
| "full_name TInt64 = ''def.Int64''"
| "full_name TDouble = ''def.Double''"
| "full_name TString = ''def.String''"
| "full_name TInt64Int32 = ''def.Int64Int32''"
| "full_name TInt64Int64 = ''def.Int64Int64''"
| "full_name TInt32Int32 = ''def.Int32Int32''"
| "full_name TInt32Int64 = ''def.Int32Int64''"
| "full_name TInt32List = ''def.Int32List''"
| "full_name TInt64List = ''def.Int64List''"
| "full_name TInt32Map = ''def.Int32Map''"
| "full_name TInt32Int64Map = ''def.Int32Int64Map''"
| "full_name TStringKeyValue = ''def.StringKeyValue''"
| "full_name TSession = ''def.Session''"
| "full_name TMsgCommon = ''def.MsgCommon''"
| "full_name TMember = ''def.Member''"
| "full_name TCReqLogin = ''climsg.CReqLogin''"
| "full_name TSRespLogin = ''climsg.SRespLogin''"
| "full_name TReqAuth = ''svrmsg.ReqAuth''"
| "full_name TRespAuth = ''svrmsg.RespAuth''"
| "full_name TGtGaReqAB = ''svrmsg.GtGaReqAB''"
| "full_name TGtGaRspAB = ''svrmsg.GtGaRspAB''"

fun pb_msg_type :: "pb_msg \<Rightarrow> pb_type" where
  "pb_msg_type (MCReqLogin _) = TCReqLogin"
| "pb_msg_type (MSRespLogin _) = TSRespLogin"
| "pb_msg_type (MReqAuth _) = TReqAuth"
| "pb_msg_type (MRespAuth _) = TRespAuth"
| "pb_msg_type (MGtGaReqAB _) = TGtGaReqAB"
| "pb_msg_type (MGtGaRspAB _) = TGtGaRspAB"
| "pb_msg_type (MSession _) = TSession"
| "pb_msg_type (MMsgCommon _) = TMsgCommon"
| "pb_msg_type (MMember _) = TMember"

definition all_types :: "pb_type list" where
  "all_types =
     [TNone, TBool, TInt32, TInt64, TDouble, TString, TInt64Int32, TInt64Int64, TInt32Int32,
      TInt32Int64, TInt32List, TInt64List, TInt32Map, TInt32Int64Map, TStringKeyValue,
      TSession, TMsgCommon, TMember, TCReqLogin, TSRespLogin, TReqAuth, TRespAuth,
      TGtGaReqAB, TGtGaRspAB]"

lemma in_all_types: "t \<in> set all_types"
  by (cases t) (simp_all add: all_types_def)

text \<open>The checksums of the names are pairwise different.\<close>

lemma distinct_name_bits: "distinct (map (bits_crc \<circ> full_name) all_types)"
  by code_simp

lemma crc32_full_name_inj:
  assumes "crc32 (bytes_of (full_name s)) = crc32 (bytes_of (full_name t))"
  shows "s = t"
proof -
  have "inj_on (bits_crc \<circ> full_name) (set all_types)"
    using distinct_name_bits by (simp add: distinct_map)
  then show ?thesis using assms
    by (metis inj_onD in_all_types comp_apply crc32_eq_iff)
qed

end
