(* ===== verification/Registry.thy ===== *)
theory Registry
  imports Pb
begin

text \<open>
  \<^verbatim>\<open>framework/pkg/packet/hash.go\<close>: the process-wide registry that ties message types to
  the checksum of their full names, and the two codecs that go through it. Every function of
  the file holds \<open>rwMutex\<close> for its whole access to the three maps, so the model takes
  each as one step on the state \<open>registry\<close>.

  The protobuf runtime is the parameter \<open>protolib\<close>; \<open>'t\<close> stands for
  \<open>protoreflect.MessageType\<close> and \<open>'m\<close> for \<open>proto.Message\<close> (a message
  that is not the nil interface; only \<open>RegisterMessage\<close> tests for nil).
\<close>

section \<open>The protobuf runtime as a parameter\<close>

record ('t, 'm) protolib =
  fname :: "'t \<Rightarrow> string"
  mtype :: "'m \<Rightarrow> 't"
  Marshal :: "'m \<Rightarrow> bytes result"
  Unmarshal :: "'t \<Rightarrow> bytes \<Rightarrow> 'm result"
  MarshalCommon :: "MsgCommon \<Rightarrow> bytes result"
  UnmarshalCommon :: "bytes \<Rightarrow> MsgCommon result"

text \<open>
  What the framework relies on: \<open>Unmarshal\<close> into a new message of the same type gives
  back what \<open>Marshal\<close> wrote, and gives a message of the type asked for.
\<close>

definition proto_ok :: "('t, 'm) protolib \<Rightarrow> bool" where
  "proto_ok P \<longleftrightarrow>
     (\<forall>m bs. Marshal P m = Inr bs \<longrightarrow> Unmarshal P (mtype P m) bs = Inr m) \<and>
     (\<forall>c bs. MarshalCommon P c = Inr bs \<longrightarrow> UnmarshalCommon P bs = Inr c) \<and>
     (\<forall>t bs m. Unmarshal P t bs = Inr m \<longrightarrow> mtype P m = t)"

lemma proto_okD:
  assumes "proto_ok P"
  shows "Marshal P m = Inr bs \<Longrightarrow> Unmarshal P (mtype P m) bs = Inr m"
    and "MarshalCommon P c = Inr cs \<Longrightarrow> UnmarshalCommon P cs = Inr c"
    and "Unmarshal P t bs' = Inr m' \<Longrightarrow> mtype P m' = t"
  using assms by (auto simp: proto_ok_def)

section \<open>State and operations\<close>

record 't registry =
  id2type :: "u32 \<Rightarrow> 't option"
  type2id :: "'t \<Rightarrow> u32 option"
  id2name :: "u32 \<Rightarrow> string option"

definition empty_registry :: "'t registry" where
  "empty_registry = \<lparr>id2type = Map.empty, type2id = Map.empty, id2name = Map.empty\<rparr>"

lemma empty_registry_simps [simp]:
  "id2type empty_registry = Map.empty" "type2id empty_registry = Map.empty"
  by (simp_all add: empty_registry_def)

abbreviation name_id :: "string \<Rightarrow> u32" where
  "name_id n \<equiv> crc32 (bytes_of n)"

text \<open>The text before the two names in the panic of a collision, in UTF-8.\<close>

definition conflict_text :: string where
  "conflict_text = map char_of
     [0xE5, 0x93, 0x88, 0xE5, 0xB8, 0x8C, 0xE5, 0x86, 0xB2, 0xE7, 0xAA, 0x81, 0x20 :: nat]"

definition RegisterMessage ::
    "('t, 'm) protolib \<Rightarrow> 't option \<Rightarrow> ('t registry, u32 result) proc" where
  "RegisterMessage P msg r =
     (case msg of
        None \<Rightarrow> (r, Ret (Inl (Errorf ''msg is nil'' [])))
      | Some msgType \<Rightarrow>
          let msgName = fname P msgType; i = name_id msgName
          in case id2type r i of
               Some oldMsgTyp \<Rightarrow>
                 if oldMsgTyp \<noteq> msgType
                 then (r, Panic (conflict_text @ fname P oldMsgTyp @ '' '' @ msgName))
                 else (r, Ret (Inr i))
             | None \<Rightarrow>
                 (r\<lparr>id2type := (id2type r)(i \<mapsto> msgType),
                    type2id := (type2id r)(msgType \<mapsto> i),
                    id2name := (id2name r)(i \<mapsto> msgName)\<rparr>, Ret (Inr i)))"

definition MessageType :: "'t registry \<Rightarrow> u32 \<Rightarrow> 't option" where
  "MessageType r i = id2type r i"

definition MessageID :: "'t registry \<Rightarrow> 't \<Rightarrow> u32 option" where
  "MessageID r t = type2id r t"

definition MessageName :: "'t registry \<Rightarrow> u32 \<Rightarrow> string option" where
  "MessageName r i = id2name r i"

definition OnUnmarshal ::
    "('t, 'm) protolib \<Rightarrow> 't registry \<Rightarrow> u32 \<Rightarrow> bytes \<Rightarrow> 'm result" where
  "OnUnmarshal P r i data =
     (case MessageType r i of
        Some msgType \<Rightarrow> Unmarshal P msgType data
      | None \<Rightarrow> Inl (Errorf ''message %v not registered'' [ArgD (uint i)]))"

text \<open>
  \<open>OnMarshal\<close> returns the id beside a marshalling error: its caller stores that id
  before it looks at the error.
\<close>

definition OnMarshal ::
    "('t, 'm) protolib \<Rightarrow> 'm \<Rightarrow> ('t registry, u32 \<times> bytes result) proc" where
  "OnMarshal P msg r =
     (let msgType = mtype P msg
      in case MessageID r msgType of
           Some msgID \<Rightarrow> (r, Ret (msgID, Marshal P msg))
         | None \<Rightarrow>
             (case RegisterMessage P (Some msgType) r of
                (r', Ret (Inr msgID)) \<Rightarrow> (r', Ret (msgID, Marshal P msg))
              | (r', Ret (Inl e)) \<Rightarrow>
                  (r', Ret (0, Inl (Errorf ''message %v register failed'' [ArgS (fname P msgType)])))
              | (r', Panic m) \<Rightarrow> (r', Panic m)
              | (r', Exit m) \<Rightarrow> (r', Exit m)))"

fun register_all :: "('t, 'm) protolib \<Rightarrow> 't list \<Rightarrow> ('t registry, unit) proc" where
  "register_all P [] r = (r, Ret ())"
| "register_all P (t # ts) r =
     seq_proc (RegisterMessage P (Some t)) (\<lambda>_. register_all P ts) r"

section \<open>Invariant\<close>

text \<open>The maps are inverse to each other and agree with the checksum of the names.\<close>

definition reg_wf :: "('t, 'm) protolib \<Rightarrow> 't registry \<Rightarrow> bool" where
  "reg_wf P r \<longleftrightarrow>
     (\<forall>i t. id2type r i = Some t \<longleftrightarrow> type2id r t = Some i) \<and>
     (\<forall>t i. type2id r t = Some i \<longrightarrow> i = name_id (fname P t)) \<and>
     (\<forall>i. id2name r i = map_option (fname P) (id2type r i))"

lemma reg_wfD:
  assumes "reg_wf P r"
  shows "id2type r i = Some t \<longleftrightarrow> type2id r t = Some i"
    and "type2id r t = Some i \<Longrightarrow> i = name_id (fname P t)"
    and "id2name r i = map_option (fname P) (id2type r i)"
  using assms unfolding reg_wf_def by blast+

lemma reg_wf_empty [inv_intros]: "reg_wf P empty_registry"
  by (simp add: reg_wf_def empty_registry_def)

text \<open>
  The outcomes of \<open>RegisterMessage\<close> on a type, under the invariant: known already, new,
  or a collision of two names.
\<close>

lemma RegisterMessage_cases:
  assumes "reg_wf P r"
  obtains (known) "RegisterMessage P (Some t) r = (r, Ret (Inr (name_id (fname P t))))"
      "type2id r t = Some (name_id (fname P t))"
  | (new) "RegisterMessage P (Some t) r =
        (r\<lparr>id2type := (id2type r)(name_id (fname P t) \<mapsto> t),
           type2id := (type2id r)(t \<mapsto> name_id (fname P t)),
           id2name := (id2name r)(name_id (fname P t) \<mapsto> fname P t)\<rparr>,
         Ret (Inr (name_id (fname P t))))"
      "id2type r (name_id (fname P t)) = None" "type2id r t = None"
  | (conflict) u where "id2type r (name_id (fname P t)) = Some u" "u \<noteq> t"
      "name_id (fname P u) = name_id (fname P t)" "type2id r t = None"
      "RegisterMessage P (Some t) r = (r, Panic (conflict_text @ fname P u @ '' '' @ fname P t))"
proof (cases "id2type r (name_id (fname P t))")
  case None
  then have "type2id r t = None"
    using reg_wfD [OF assms] by (metis not_None_eq)
  with None show thesis by (intro new) (auto simp: RegisterMessage_def)
next
  case (Some u)
  show thesis
  proof (cases "u = t")
    case True
    with Some show thesis
      by (intro known) (auto simp: RegisterMessage_def Let_def reg_wfD(1) [OF assms, symmetric])
  next
    case False
    have "type2id r t = None"
      using reg_wfD [OF assms] Some False by (metis not_None_eq option.sel)
    moreover have "name_id (fname P u) = name_id (fname P t)"
      using reg_wfD [OF assms] Some by metis
    ultimately show thesis using Some False
      by (intro conflict [of u]) (auto simp: RegisterMessage_def)
  qed
qed

lemma RegisterMessage_wf [inv_intros]:
  assumes "reg_wf P r"
  shows "reg_wf P (fst (RegisterMessage P msg r))"
proof (cases msg)
  case None
  then show ?thesis using assms by (simp add: RegisterMessage_def)
next
  case (Some t)
  from assms show ?thesis
  proof (cases rule: RegisterMessage_cases [of P r t])
    case new
    have "type2id r u \<noteq> Some (name_id (fname P t))" for u
      using reg_wfD(1) [OF assms] new(2) by (metis option.distinct(1))
    with new show ?thesis using assms Some unfolding reg_wf_def
      by (auto simp: fun_upd_def split: if_splits)
  qed (use assms Some in auto)
qed

text \<open>Registered types stay registered, under the same id.\<close>

lemma RegisterMessage_keeps:
  assumes "reg_wf P r" and "type2id r t = Some i"
  shows "type2id (fst (RegisterMessage P msg r)) t = Some i"
proof (cases msg)
  case None
  then show ?thesis using assms by (simp add: RegisterMessage_def)
next
  case (Some u)
  from assms(1) show ?thesis
    by (cases rule: RegisterMessage_cases [of P r u]) (use assms Some in auto)
qed

lemma RegisterMessage_Ret:
  assumes "reg_wf P r" and "RegisterMessage P (Some t) r = (r', Ret x)"
  shows "x = Inr (name_id (fname P t)) \<and> type2id r' t = Some (name_id (fname P t))"
  using assms(1) by (cases rule: RegisterMessage_cases [of P r t]) (use assms(2) in auto)

lemma OnMarshal_Ret:
  assumes "reg_wf P r" and "OnMarshal P m r = (r', Ret (i, b))"
  shows "i = name_id (fname P (mtype P m)) \<and> b = Marshal P m
    \<and> type2id r' (mtype P m) = Some i \<and> reg_wf P r'"
proof (cases "type2id r (mtype P m)")
  case (Some j)
  then show ?thesis using assms reg_wfD(2) [OF assms(1) Some]
    by (auto simp: OnMarshal_def MessageID_def)
next
  case None
  from assms(1) show ?thesis
  proof (cases rule: RegisterMessage_cases [of P r "mtype P m"])
    case new
    then show ?thesis
      using assms None RegisterMessage_wf [OF assms(1), of "Some (mtype P m)"]
      by (auto simp: OnMarshal_def MessageID_def)
  qed (use assms(2) None in \<open>auto simp: OnMarshal_def MessageID_def\<close>)
qed

lemma OnMarshal_keeps:
  assumes "reg_wf P r" and "type2id r t = Some i"
  shows "type2id (fst (OnMarshal P m r)) t = Some i"
  using RegisterMessage_keeps [OF assms, of "Some (mtype P m)"] assms(2)
  by (auto simp: OnMarshal_def MessageID_def Let_def
      split: option.split prod.splits outcome.splits sum.splits)

lemma OnMarshal_wf [inv_intros]:
  assumes "reg_wf P r"
  shows "reg_wf P (fst (OnMarshal P m r))"
  using RegisterMessage_wf [OF assms, of "Some (mtype P m)"] assms
  by (auto simp: OnMarshal_def MessageID_def Let_def
      split: option.split prod.splits outcome.splits sum.splits)

text \<open>What the sender's registry marshals, a registry that knows the type reads back.\<close>

lemma OnUnmarshal_OnMarshal:
  assumes "proto_ok P" and "reg_wf P r" and "reg_wf P r2"
    and "OnMarshal P m r = (r', Ret (i, Inr bs))"
    and "type2id r2 (mtype P m) \<noteq> None"
  shows "OnUnmarshal P r2 i bs = Inr m"
proof -
  from OnMarshal_Ret [OF assms(2,4)] have i: "i = name_id (fname P (mtype P m))"
    and bs: "Marshal P m = Inr bs" by auto
  from assms(5) obtain j where "type2id r2 (mtype P m) = Some j" by auto
  with i reg_wfD [OF assms(3)] have "id2type r2 i = Some (mtype P m)" by metis
  then show ?thesis
    by (simp add: OnUnmarshal_def MessageType_def proto_okD(1) [OF assms(1) bs])
qed

section \<open>The registry as an interface\<close>

text \<open>
  What the packet codec and the message handlers use of the registry: ids and types are
  inverse, registering keeps what is there. \<open>reg\<close> returns the id, or nothing where
  the call panics.
\<close>

locale type_ids =
  fixes wf :: "'r \<Rightarrow> bool"
    and idof :: "'r \<Rightarrow> 't \<Rightarrow> u32 option"
    and typeof :: "'r \<Rightarrow> u32 \<Rightarrow> 't option"
    and reg :: "'t \<Rightarrow> 'r \<Rightarrow> 'r \<times> u32 option"
  assumes inverse: "wf r \<Longrightarrow> idof r t = Some i \<longleftrightarrow> typeof r i = Some t"
    and wf_reg: "wf r \<Longrightarrow> wf (fst (reg t r))"
    and reg_id: "wf r \<Longrightarrow> snd (reg t r) = Some i \<Longrightarrow> idof (fst (reg t r)) t = Some i"
    and reg_keeps: "wf r \<Longrightarrow> idof r u = Some i \<Longrightarrow> idof (fst (reg t r)) u = Some i"
begin

lemma wf_regs: "wf r \<Longrightarrow> wf (fold (\<lambda>t r. fst (reg t r)) ts r)"
  by (induction ts arbitrary: r) (auto simp: wf_reg)

lemma regs_keep:
  "wf r \<Longrightarrow> idof r u = Some i \<Longrightarrow> idof (fold (\<lambda>t r. fst (reg t r)) ts r) u = Some i"
  by (induction ts arbitrary: r) (auto simp: wf_reg reg_keeps)

lemma types_stay:
  assumes "wf r" "snd (reg t r) = Some i"
  shows "typeof (fold (\<lambda>t r. fst (reg t r)) ts (fst (reg t r))) i = Some t"
  using assms regs_keep [OF wf_reg reg_id] inverse [OF wf_regs [OF wf_reg]] by blast

lemma ids_injective:
  "wf r \<Longrightarrow> idof r t = Some i \<Longrightarrow> idof r u = Some i \<Longrightarrow> t = u"
  using inverse by (metis option.inject)

end

text \<open>\<open>RegisterMessage\<close> on a type, seen through that interface.\<close>

definition register_type ::
    "('t, 'm) protolib \<Rightarrow> 't \<Rightarrow> 't registry \<Rightarrow> 't registry \<times> u32 option" where
  "register_type P t r =
     (case RegisterMessage P (Some t) r of
        (r', Ret (Inr i)) \<Rightarrow> (r', Some i)
      | (r', _) \<Rightarrow> (r', None))"

lemma fst_register_type: "fst (register_type P t r) = fst (RegisterMessage P (Some t) r)"
  by (auto simp: register_type_def split: prod.splits outcome.splits sum.splits)

interpretation reg: type_ids "reg_wf P" MessageID MessageType "register_type P" for P
proof unfold_locales
  fix r t i
  assume "reg_wf P r"
  then show "MessageID r t = Some i \<longleftrightarrow> MessageType r i = Some t"
    by (simp add: MessageID_def MessageType_def reg_wfD(1))
next
  fix r t i
  assume wf: "reg_wf P r" and "snd (register_type P t r) = Some i"
  then show "MessageID (fst (register_type P t r)) t = Some i"
    using RegisterMessage_Ret [OF wf, of t] unfolding register_type_def MessageID_def
    by (auto split: prod.splits outcome.splits sum.splits)
qed (simp_all add: fst_register_type RegisterMessage_wf RegisterMessage_keeps MessageID_def)

section \<open>The messages of the repository\<close>

lemma RegisterMessage_repo:
  assumes "fname P = full_name" and "reg_wf P r"
  shows "\<exists>r'. RegisterMessage P (Some t) r = (r', Ret (Inr (name_id (full_name t)))) \<and> reg_wf P r'"
  using assms(2)
proof (cases rule: RegisterMessage_cases [of P r t])
  case (conflict u)
  then show ?thesis using crc32_full_name_inj [of u t] by (simp add: assms(1))
qed (use assms RegisterMessage_wf [OF assms(2), of "Some t"] in auto)

lemma RegisterMessage_repo_ids:
  assumes "fname P = full_name" and "reg_wf P r"
  shows "type2id (fst (RegisterMessage P (Some t) r)) = (type2id r)(t \<mapsto> name_id (full_name t))"
  using assms(2)
proof (cases rule: RegisterMessage_cases [of P r t])
  case (conflict u)
  then show ?thesis using crc32_full_name_inj [of u t] by (simp add: assms(1))
qed (use assms(1) in \<open>auto simp: fun_upd_idem\<close>)

lemma register_all_repo:
  assumes "fname P = full_name" and "reg_wf P r"
  shows "\<exists>g. register_all P ts r = (g, Ret ()) \<and> reg_wf P g \<and>
    type2id g = (\<lambda>t. if t \<in> set ts then Some (name_id (full_name t)) else type2id r t)"
  using assms(2)
proof (induction ts arbitrary: r)
  case (Cons t ts)
  obtain r' where r': "RegisterMessage P (Some t) r = (r', Ret (Inr (name_id (full_name t))))"
      "reg_wf P r'"
    using RegisterMessage_repo [OF assms(1) Cons.prems] by blast
  from Cons.IH [OF r'(2)] RegisterMessage_repo_ids [OF assms(1) Cons.prems, of t] r'
  show ?case by (auto simp: fun_eq_iff)
qed auto

section \<open>Properties\<close>

text \<open>
  Registering any of the repository's message types, in any order and any number of
  times, never panics: no two of their full names have the same checksum. Afterwards the
  registry knows exactly the types registered, each under the checksum of its name.
\<close>

theorem repo_registration_total:
  "\<exists>g. register_all (P\<lparr>fname := full_name\<rparr>) ts empty_registry = (g, Ret ()) \<and>
     reg_wf (P\<lparr>fname := full_name\<rparr>) g \<and>
     (\<forall>t. MessageID g t = (if t \<in> set ts then Some (name_id (full_name t)) else None)) \<and>
     (\<forall>t i. MessageType g i = Some t \<longleftrightarrow> t \<in> set ts \<and> i = name_id (full_name t))"
proof -
  let ?P = "P\<lparr>fname := full_name\<rparr>"
  have wf0: "reg_wf ?P empty_registry" by (rule reg_wf_empty)
  obtain g where g: "register_all ?P ts empty_registry = (g, Ret ())" "reg_wf ?P g"
    and ids: "type2id g t = (if t \<in> set ts then Some (name_id (full_name t)) else None)" for t
    using register_all_repo [OF _ wf0, of ts] by (auto simp: fun_eq_iff)
  have ty: "MessageType g i = Some t \<longleftrightarrow> t \<in> set ts \<and> i = name_id (full_name t)" for t i
    using reg.inverse [OF g(2), of t i] ids [of t] by (auto simp: MessageID_def split: if_splits)
  show ?thesis
    by (intro exI conjI, rule g(1), rule g(2)) (auto simp: ty MessageID_def ids)
qed

text \<open>
  C26: Ids are permanent. Once a message type has been registered, its id decodes to that
  type and to its name, and the type is marshalled under that id, whatever is registered
  afterwards and whether or not those registrations panic.
\<close>

theorem registered_ids_permanent:
  assumes "reg_wf P r" and "RegisterMessage P (Some t) r = (r1, Ret (Inr i))"
  shows "let g = fold (\<lambda>u r. fst (RegisterMessage P (Some u) r)) us r1
         in i = name_id (fname P t) \<and> MessageType g i = Some t \<and> MessageID g t = Some i \<and>
            MessageName g i = Some (fname P t)"
proof -
  let ?g = "fold (\<lambda>u r. fst (RegisterMessage P (Some u) r)) us r1"
  have r1: "reg_wf P r1" "MessageID r1 t = Some i" "i = name_id (fname P t)"
    using RegisterMessage_wf [OF assms(1), of "Some t"] RegisterMessage_Ret [OF assms] assms(2)
    by (auto simp: MessageID_def)
  have "reg_wf P ?g" "MessageID ?g t = Some i"
    using reg.wf_regs [OF r1(1), of us] reg.regs_keep [OF r1(1,2), of us]
    by (simp_all add: fst_register_type)
  then show ?thesis using r1(3) reg.inverse [of P ?g t i] reg_wfD(3) [of P ?g i]
    by (simp add: MessageName_def MessageType_def)
qed

theorem registered_ids_permanent_witness:
  "let P = \<lparr>fname = full_name, mtype = pb_msg_type, Marshal = (\<lambda>m. Inr []),
            Unmarshal = (\<lambda>t bs. Inl (Err [])), MarshalCommon = (\<lambda>c. Inr []),
            UnmarshalCommon = (\<lambda>bs. Inl (Err []))\<rparr>;
       r1 = fst (RegisterMessage P (Some TReqAuth) empty_registry);
       g = fold (\<lambda>u r. fst (RegisterMessage P (Some u) r)) [TRespAuth, TReqAuth] r1
   in MessageType g (name_id ''svrmsg.ReqAuth'') = Some TReqAuth \<and>
      MessageName g (name_id ''svrmsg.ReqAuth'') = Some ''svrmsg.ReqAuth''"
proof -
  let ?P = "\<lparr>fname = full_name, mtype = pb_msg_type, Marshal = (\<lambda>m. Inr []),
            Unmarshal = (\<lambda>t bs. Inl (Err [])), MarshalCommon = (\<lambda>c. Inr []),
            UnmarshalCommon = (\<lambda>bs. Inl (Err []))\<rparr>"
  obtain r1 where "RegisterMessage ?P (Some TReqAuth) empty_registry =
      (r1, Ret (Inr (name_id ''svrmsg.ReqAuth'')))"
    by (simp add: RegisterMessage_def)
  from registered_ids_permanent [OF reg_wf_empty this, of "[TRespAuth, TReqAuth]"] this
  show ?thesis by simp
qed

text \<open>
  How \<open>RegisterMessage\<close> ends. On nil it returns an error; it panics exactly when
  another type is registered under the same checksum; else it returns the checksum of the
  name. An error or a panic leaves the three maps as they were.
\<close>

theorem register_outcomes:
  "RegisterMessage P None r = (r, Ret (Inl (Err ''msg is nil''))) \<and>
   ((\<exists>m. snd (RegisterMessage P (Some t) r) = Panic m) \<longleftrightarrow>
      (\<exists>u. u \<noteq> t \<and> id2type r (name_id (fname P t)) = Some u)) \<and>
   (if \<exists>u. u \<noteq> t \<and> id2type r (name_id (fname P t)) = Some u
    then fst (RegisterMessage P (Some t) r) = r
    else snd (RegisterMessage P (Some t) r) = Ret (Inr (name_id (fname P t))))"
  by (auto simp: RegisterMessage_def Errorf_def split: option.split)

end
