(* ===== verification/Sample_Codec.thy ===== *)
theory Sample_Codec
  imports Registry
begin

text \<open>
  One concrete \<open>protolib\<close>, on which the examples of the development evaluate. It is not
  the protobuf wire format, which is not part of the repository: strings are written
  byte by byte behind a marker, words bit by bit. It satisfies the law \<open>proto_ok\<close>, so
  the law can hold.
\<close>

fun enc_str :: "string \<Rightarrow> bytes" where
  "enc_str [] = [0]"
| "enc_str (c # s) = 1 # of_char c # enc_str s"

definition byte_char :: "byte \<Rightarrow> char" where
  "byte_char b = char_of (unat b)"

lemma byte_char_of_char [simp]: "byte_char (of_char c) = c"
proof -
  have "(of_char c :: byte) = of_nat (of_char c)"
    by (rule of_nat_of_char [symmetric])
  then have "unat (of_char c :: byte) = of_char c mod 256"
    by (simp add: unat_of_nat take_bit_eq_mod)
  then show ?thesis by (simp add: byte_char_def)
qed

fun dec_str :: "bytes \<Rightarrow> (string \<times> bytes) option" where
  "dec_str (m # bs) =
     (if m = 0 then Some ([], bs)
      else case bs of
             [] \<Rightarrow> None
           | b # bs' \<Rightarrow> map_option (\<lambda>(s, r). (byte_char b # s, r)) (dec_str bs'))"
| "dec_str [] = None"

definition enc_word :: "'a::len word \<Rightarrow> bytes" where
  "enc_word w = map (\<lambda>i. if bit w i then 1 else 0) [0..<LENGTH('a)]"

definition dec_word :: "bytes \<Rightarrow> ('a::len word \<times> bytes) option" where
  "dec_word bs = Some (word_of_bits (map (\<lambda>b. b = 1) (take LENGTH('a) bs)), drop LENGTH('a) bs)"

lemma length_enc_str [simp]: "length (enc_str s) = 2 * length s + 1"
  by (induction s) auto

lemma length_enc_word [simp]: "length (enc_word (w :: 'a::len word)) = LENGTH('a)"
  by (simp add: enc_word_def)

lemma dec_enc_str [simp]: "dec_str (enc_str s @ r) = Some (s, r)"
  by (induction s) auto

lemma dec_enc_word [simp]: "dec_word (enc_word w @ r) = Some (w, r)"
proof -
  have "word_of_bits (map (\<lambda>b. b = 1) (enc_word w)) = w"
    by (rule bit_word_eqI) (auto simp: bit_word_of_bits enc_word_def)
  then show ?thesis by (simp add: dec_word_def)
qed

lemmas dec_enc_end [simp] =
  dec_enc_str [where r = "[]", simplified] dec_enc_word [where r = "[]", simplified]

definition enc_common :: "MsgCommon \<Rightarrow> bytes" where
  "enc_common c = enc_str (SourceId c) @ enc_str (TargetId c) @ enc_word (Mid c)
     @ enc_str (McSid c) @ enc_word (McUid c) @ enc_word (Route c)"

definition dec_common :: "bytes \<Rightarrow> MsgCommon option" where
  "dec_common bs0 =
     Option.bind (dec_str bs0) (\<lambda>(src, bs1).
     Option.bind (dec_str bs1) (\<lambda>(tgt, bs2).
     Option.bind (dec_word bs2) (\<lambda>(mid, bs3).
     Option.bind (dec_str bs3) (\<lambda>(sid, bs4).
     Option.bind (dec_word bs4) (\<lambda>(uid, bs5).
     Option.bind (dec_word bs5) (\<lambda>(route, bs6).
       Some \<lparr>SourceId = src, TargetId = tgt, Mid = mid, McSid = sid, McUid = uid, Route = route\<rparr>))))))"

fun enc_msg :: "pb_msg \<Rightarrow> bytes" where
  "enc_msg (MCReqLogin m) = enc_str (CReqLogin_Account m)"
| "enc_msg (MSRespLogin m) = enc_word (SRespLogin_Code m) @ enc_word (SRespLogin_Uid m)"
| "enc_msg (MReqAuth m) = enc_str (ReqAuth_Account m)"
| "enc_msg (MRespAuth m) = enc_word (RespAuth_Code m)"
| "enc_msg (MGtGaReqAB m) = enc_word (GtGaReqAB_A m) @ enc_word (GtGaReqAB_B m)"
| "enc_msg (MGtGaRspAB m) =
     enc_word (GtGaRspAB_A m) @ enc_word (GtGaRspAB_B m) @ enc_word (GtGaRspAB_Sum m)"
| "enc_msg (MSession m) = enc_str (Sid m) @ enc_word (Uid m) @ enc_str (Ip m)"
| "enc_msg (MMsgCommon m) = enc_common m"
| "enc_msg (MMember m) = enc_str (NodeId m) @ enc_str (NodeType m) @ enc_str (Address m)"

fun dec_msg :: "pb_type \<Rightarrow> bytes \<Rightarrow> pb_msg option" where
  "dec_msg TCReqLogin bs =
     map_option (\<lambda>(a, _). MCReqLogin \<lparr>CReqLogin_Account = a\<rparr>) (dec_str bs)"
| "dec_msg TSRespLogin bs =
     Option.bind (dec_word bs) (\<lambda>(c, bs1). map_option (\<lambda>(u, _).
       MSRespLogin \<lparr>SRespLogin_Code = c, SRespLogin_Uid = u\<rparr>) (dec_word bs1))"
| "dec_msg TReqAuth bs =
     map_option (\<lambda>(a, _). MReqAuth \<lparr>ReqAuth_Account = a\<rparr>) (dec_str bs)"
| "dec_msg TRespAuth bs =
     map_option (\<lambda>(c, _). MRespAuth \<lparr>RespAuth_Code = c\<rparr>) (dec_word bs)"
| "dec_msg TGtGaReqAB bs =
     Option.bind (dec_word bs) (\<lambda>(a, bs1). map_option (\<lambda>(b, _).
       MGtGaReqAB \<lparr>GtGaReqAB_A = a, GtGaReqAB_B = b\<rparr>) (dec_word bs1))"
| "dec_msg TGtGaRspAB bs =
     Option.bind (dec_word bs) (\<lambda>(a, bs1). Option.bind (dec_word bs1) (\<lambda>(b, bs2).
       map_option (\<lambda>(c, _). MGtGaRspAB \<lparr>GtGaRspAB_A = a, GtGaRspAB_B = b, GtGaRspAB_Sum = c\<rparr>)
         (dec_word bs2)))"
| "dec_msg TSession bs =
     Option.bind (dec_str bs) (\<lambda>(s, bs1). Option.bind (dec_word bs1) (\<lambda>(u, bs2).
       map_option (\<lambda>(i, _). MSession \<lparr>Sid = s, Uid = u, Ip = i\<rparr>) (dec_str bs2)))"
| "dec_msg TMsgCommon bs = map_option MMsgCommon (dec_common bs)"
| "dec_msg TMember bs =
     Option.bind (dec_str bs) (\<lambda>(n, bs1). Option.bind (dec_str bs1) (\<lambda>(t, bs2).
       map_option (\<lambda>(a, _). MMember \<lparr>NodeId = n, NodeType = t, Address = a\<rparr>) (dec_str bs2)))"
| "dec_msg _ bs = None"

definition or_error :: "'a option \<Rightarrow> 'a result" where
  "or_error x = (case x of Some a \<Rightarrow> Inr a | None \<Rightarrow> Inl (Err ''invalid wire-format data''))"

definition sample_lib :: "(pb_type, pb_msg) protolib" where
  "sample_lib =
     \<lparr>fname = full_name, mtype = pb_msg_type,
      Marshal = (\<lambda>m. Inr (enc_msg m)),
      Unmarshal = (\<lambda>t bs. or_error (dec_msg t bs)),
      MarshalCommon = (\<lambda>c. Inr (enc_common c)),
      UnmarshalCommon = (\<lambda>bs. or_error (dec_common bs))\<rparr>"

lemma sample_lib_simps [simp]:
  "fname sample_lib = full_name" "mtype sample_lib = pb_msg_type"
  "Marshal sample_lib m = Inr (enc_msg m)"
  "MarshalCommon sample_lib c = Inr (enc_common c)"
  by (simp_all add: sample_lib_def)

lemma dec_enc_common: "dec_common (enc_common c) = Some c"
  by (simp add: dec_common_def enc_common_def)

lemma dec_enc_msg: "dec_msg (pb_msg_type m) (enc_msg m) = Some m"
  by (cases m) (auto simp: dec_enc_common)

lemma dec_msg_type: "dec_msg t bs = Some m \<Longrightarrow> pb_msg_type m = t"
  by (cases t) (auto split: bind_splits)

lemma proto_ok_sample: "proto_ok sample_lib"
  by (auto simp: proto_ok_def sample_lib_def or_error_def dec_enc_common dec_enc_msg
      dest: dec_msg_type split: option.splits)

lemma length_enc_common:
  "length (enc_common c) =
     2 * length (SourceId c) + 2 * length (TargetId c) + 2 * length (McSid c) + 131"
  by (simp add: enc_common_def)

end
