(* ===== verification/Packet.thy ===== *)
theory Packet
  imports Sample_Codec
begin

text \<open>
  \<^verbatim>\<open>framework/pkg/packet/packet.go\<close>: the frame around a message, two little-endian
  16-bit lengths, the marshalled \<open>MsgCommon\<close> and the marshalled message.

  A reader is the bytes it will still deliver and what it reports after the last of
  them: \<open>None\<close> for \<open>io.EOF\<close>, \<open>Some e\<close> for another error.
\<close>

section \<open>Readers\<close>

type_synonym reader = "bytes \<times> error option"

text \<open>
  \<open>io.ReadAll(io.LimitReader(reader, n))\<close>: at most \<open>n\<close> bytes; the end of the input
  before that is not an error, another error of the reader is.
\<close>

fun ReadAll_Limit :: "nat \<Rightarrow> reader \<Rightarrow> bytes result \<times> reader" where
  "ReadAll_Limit n (data, tl_err) =
     (if n \<le> length data then (Inr (take n data), (drop n data, tl_err))
      else case tl_err of
             None \<Rightarrow> (Inr data, ([], None))
           | Some e \<Rightarrow> (Inl e, ([], Some e)))"

lemma ReadAll_Limit_append [simp]:
  "length a = n \<Longrightarrow> ReadAll_Limit n (a @ b, e) = (Inr a, (b, e))"
  by simp

section \<open>Constants\<close>

definition head1Len :: nat where "head1Len = 2"

definition head2Len :: nat where "head2Len = 2"

definition headLength :: nat where "headLength = head1Len + head2Len"

definition maxBody1Len :: nat where "maxBody1Len = 2 ^ (head1Len * 8) - 1"

definition maxBody2Len :: nat where "maxBody2Len = 2 ^ (head2Len * 8) - 1"

lemmas packet_consts = head1Len_def head2Len_def headLength_def maxBody1Len_def maxBody2Len_def

section \<open>Operations\<close>

text \<open>
  \<open>binary.Read\<close> of a \<open>uint16\<close>: two bytes or an error. The rest of the input is
  returned with the value.
\<close>

fun binary_Read_u16 :: "bytes \<Rightarrow> (u16 \<times> bytes) result" where
  "binary_Read_u16 (a # b # rest) = Inr (get_le16 a b, rest)"
| "binary_Read_u16 [a] = Inl (Err ''unexpected EOF'')"
| "binary_Read_u16 [] = Inl (Err ''EOF'')"

definition parseHead :: "bytes \<Rightarrow> (u16 \<times> u16) result" where
  "parseHead header =
     (if length header \<noteq> headLength then Inl PacketInvalidHeader
      else case binary_Read_u16 header of
             Inl e \<Rightarrow> Inl e
           | Inr (commonLen, rest) \<Rightarrow>
               if unat commonLen > maxBody1Len then Inl PacketSizeExceed
               else case binary_Read_u16 rest of
                      Inl e \<Rightarrow> Inl e
                    | Inr (msgLen, _) \<Rightarrow>
                        if unat msgLen > maxBody2Len then Inl PacketSizeExceed
                        else Inr (commonLen, msgLen))"

text \<open>
  \<open>ReadMessage\<close> reads the registry only; the reader it returns is where the next call
  starts.
\<close>

definition ReadMessage ::
    "('t, 'm) protolib \<Rightarrow> 't registry \<Rightarrow> reader \<Rightarrow> (MsgCommon \<times> 'm) result \<times> reader" where
  "ReadMessage P g r0 =
     (case ReadAll_Limit headLength r0 of
        (Inl e, r1) \<Rightarrow> (Inl e, r1)
      | (Inr header, r1) \<Rightarrow>
          if length header = 0 then (Inl PacketConnectClosed, r1)
          else case parseHead header of
                 Inl e \<Rightarrow> (Inl e, r1)
               | Inr (commonLen, msgLen) \<Rightarrow>
                   (case ReadAll_Limit (unat commonLen) r1 of
                      (Inl e, r2) \<Rightarrow> (Inl e, r2)
                    | (Inr rawCommon, r2) \<Rightarrow>
                        (case UnmarshalCommon P rawCommon of
                           Inl e \<Rightarrow> (Inl e, r2)
                         | Inr common \<Rightarrow>
                             (case ReadAll_Limit (unat msgLen) r2 of
                                (Inl e, r3) \<Rightarrow> (Inl e, r3)
                              | (Inr rawMsg, r3) \<Rightarrow>
                                  (case OnUnmarshal P g (Route common) rawMsg of
                                     Inl e \<Rightarrow> (Inl e, r3)
                                   | Inr msg \<Rightarrow> (Inr (common, msg), r3))))))"

text \<open>
  \<open>PackMessage\<close> writes the route into \<open>common\<close>, which its caller shares, and may
  register the type of the message. The lengths are converted to \<open>uint16\<close>.
\<close>

definition PackMessage ::
    "('t, 'm) protolib \<Rightarrow> MsgCommon \<Rightarrow> 'm \<Rightarrow> ('t registry, MsgCommon \<times> bytes result) proc" where
  "PackMessage P common msg g =
     (case OnMarshal P msg g of
        (g', Panic m) \<Rightarrow> (g', Panic m)
      | (g', Exit m) \<Rightarrow> (g', Exit m)
      | (g', Ret (route, raw)) \<Rightarrow>
          let common' = common\<lparr>Route := route\<rparr>
          in case raw of
               Inl e \<Rightarrow> (g', Ret (common', Inl e))
             | Inr rawMsg \<Rightarrow>
                 (case MarshalCommon P common' of
                    Inl e \<Rightarrow> (g', Ret (common', Inl e))
                  | Inr rawCommon \<Rightarrow>
                      (g', Ret (common', Inr (put_le16 (of_nat (length rawCommon))
                                              @ put_le16 (of_nat (length rawMsg))
                                              @ rawCommon @ rawMsg)))))"

section \<open>The header\<close>

lemma max_body [simp]: "\<not> unat (w :: u16) > maxBody1Len" "\<not> unat (w :: u16) > maxBody2Len"
  using unsigned_less [where 'a = nat and w = w] by (simp_all add: packet_consts)

text \<open>
  The size limits are those of the \<open>uint16\<close> fields themselves, so the two checks never
  fire: the only error of \<open>parseHead\<close> is a header of the wrong length.
\<close>

lemma parseHead_eq:
  "parseHead h = (case h of
      [a, b, c, d] \<Rightarrow> Inr (get_le16 a b, get_le16 c d)
    | _ \<Rightarrow> Inl PacketInvalidHeader)"
  by (auto simp: parseHead_def headLength_def head1Len_def head2Len_def numeral_eq_Suc
      split: list.split)

lemma parseHead_put [simp]: "parseHead (put_le16 a @ put_le16 b) = Inr (a, b)"
  by (simp add: parseHead_eq put_le16_def get_put_le16)

section \<open>Frames\<close>

definition frame :: "bytes \<Rightarrow> bytes \<Rightarrow> bytes" where
  "frame rawCommon rawMsg =
     put_le16 (of_nat (length rawCommon)) @ put_le16 (of_nat (length rawMsg)) @ rawCommon @ rawMsg"

lemma length_frame: "length (frame rc rm) = 4 + length rc + length rm"
  by (simp add: frame_def)

lemma PackMessage_Ret:
  assumes "reg_wf P g" and "PackMessage P c m g = (g', Ret (c', Inr bs))"
  obtains rc rm where "Marshal P m = Inr rm" "MarshalCommon P c' = Inr rc" "bs = frame rc rm"
    "c' = c\<lparr>Route := name_id (fname P (mtype P m))\<rparr>"
    "type2id g' (mtype P m) = Some (Route c')" "reg_wf P g'"
proof -
  obtain route raw where on: "OnMarshal P m g = (g', Ret (route, raw))"
    using assms(2) by (auto simp: PackMessage_def split: prod.splits outcome.splits sum.splits)
  note O = OnMarshal_Ret [OF assms(1) on]
  obtain rm rc where "raw = Inr rm" "MarshalCommon P (c\<lparr>Route := route\<rparr>) = Inr rc"
      "c' = c\<lparr>Route := route\<rparr>" "bs = frame rc rm"
    using assms(2) on by (auto simp: PackMessage_def frame_def split: sum.splits)
  then show thesis using O that by auto
qed

lemma PackMessage_wf [inv_intros]: "reg_wf P g \<Longrightarrow> reg_wf P (fst (PackMessage P c m g))"
  using OnMarshal_wf [of P g m]
  by (auto simp: PackMessage_def split: prod.splits outcome.splits sum.splits)

lemma PackMessage_keeps:
  "reg_wf P g \<Longrightarrow> type2id g t = Some i \<Longrightarrow> type2id (fst (PackMessage P c m g)) t = Some i"
  using OnMarshal_keeps [of P g t i m]
  by (auto simp: PackMessage_def split: prod.splits outcome.splits sum.splits)

text \<open>
  What \<open>ReadMessage\<close> does with a frame followed by \<open>rest\<close>, whatever the sizes
  of its bodies: it reads as many bytes as the 16-bit lengths say.
\<close>

definition read_bodies ::
    "('t, 'm) protolib \<Rightarrow> 't registry \<Rightarrow> nat \<Rightarrow> nat \<Rightarrow> reader \<Rightarrow> (MsgCommon \<times> 'm) result \<times> reader"
where
  "read_bodies P g k l r1 =
     (case ReadAll_Limit k r1 of
        (Inl e, r2) \<Rightarrow> (Inl e, r2)
      | (Inr rawCommon, r2) \<Rightarrow>
          (case UnmarshalCommon P rawCommon of
             Inl e \<Rightarrow> (Inl e, r2)
           | Inr common \<Rightarrow>
               (case ReadAll_Limit l r2 of
                  (Inl e, r3) \<Rightarrow> (Inl e, r3)
                | (Inr rawMsg, r3) \<Rightarrow>
                    (case OnUnmarshal P g (Route common) rawMsg of
                       Inl e \<Rightarrow> (Inl e, r3)
                     | Inr msg \<Rightarrow> (Inr (common, msg), r3)))))"

lemma ReadMessage_header:
  "ReadMessage P g (put_le16 a @ put_le16 b @ rest, e) = read_bodies P g (unat a) (unat b) (rest, e)"
proof -
  have "ReadAll_Limit headLength ((put_le16 a @ put_le16 b) @ rest, e)
      = (Inr (put_le16 a @ put_le16 b), (rest, e))"
    by (rule ReadAll_Limit_append) (simp add: packet_consts)
  then show ?thesis
    by (simp add: ReadMessage_def read_bodies_def del: ReadAll_Limit.simps)
qed

lemma ReadMessage_frame:
  "ReadMessage P g (frame rc rm @ rest, e) =
   read_bodies P g (length rc mod 65536) (length rm mod 65536) (rc @ rm @ rest, e)"
  by (simp add: frame_def ReadMessage_header unat_of_nat_u16_mod)

lemma read_bodies_exact:
  assumes "UnmarshalCommon P rc = Inr c" and "OnUnmarshal P g (Route c) rm = Inr m"
  shows "read_bodies P g (length rc) (length rm) (rc @ rm @ rest, e) = (Inr (c, m), (rest, e))"
  by (simp add: read_bodies_def assms)

text \<open>The codec as a pair of functions on one value, and when it is lossless.\<close>

definition encode :: "('t, 'm) protolib \<Rightarrow> MsgCommon \<times> 'm \<Rightarrow> bytes" where
  "encode P cm =
     (case (MarshalCommon P (fst cm), Marshal P (snd cm)) of
        (Inr rc, Inr rm) \<Rightarrow> frame rc rm
      | _ \<Rightarrow> [])"

definition sendable :: "('t, 'm) protolib \<Rightarrow> 't registry \<Rightarrow> MsgCommon \<times> 'm \<Rightarrow> bool" where
  "sendable P g cm \<longleftrightarrow>
     proto_ok P \<and> reg_wf P g \<and> type2id g (mtype P (snd cm)) = Some (Route (fst cm)) \<and>
     (\<exists>rc rm. MarshalCommon P (fst cm) = Inr rc \<and> Marshal P (snd cm) = Inr rm
        \<and> length rc < 65536 \<and> length rm < 65536)"

lemma read_encode:
  assumes "sendable P g cm"
  shows "ReadMessage P g (encode P cm @ rest, e) = (Inr cm, (rest, e))"
proof -
  obtain c m where cm: "cm = (c, m)" by (cases cm)
  obtain rc rm where raw: "MarshalCommon P c = Inr rc" "Marshal P m = Inr rm"
      "length rc < 65536" "length rm < 65536"
    and wf: "proto_ok P" "reg_wf P g" "type2id g (mtype P m) = Some (Route c)"
    using assms unfolding sendable_def cm by auto
  have "OnUnmarshal P g (Route c) rm = Inr m"
    using wf raw(2) reg_wfD(1) [OF wf(2), of "Route c" "mtype P m"]
    by (simp add: OnUnmarshal_def MessageType_def proto_okD(1))
  then show ?thesis
    using raw read_bodies_exact [OF proto_okD(2) [OF wf(1) raw(1)], of g rm m rest e]
    by (simp add: cm encode_def ReadMessage_frame)
qed

text \<open>A message of a type that the reader's registry does not know is an error.\<close>

lemma read_unregistered:
  assumes "proto_ok P" and "MarshalCommon P c = Inr rc" "Marshal P m = Inr rm"
    and "length rc < 65536" "length rm < 65536" and "id2type g (Route c) = None"
  shows "\<exists>e. fst (ReadMessage P g (encode P (c, m), None)) = Inl e"
proof -
  have "\<exists>e. OnUnmarshal P g (Route c) rm = Inl e" using assms(6) by (simp add: OnUnmarshal_def MessageType_def)
  then obtain e where "fst (ReadMessage P g (frame rc rm, None)) = Inl e"
    using ReadMessage_frame [of P g rc rm "[]" None] assms(4,5) proto_okD(2) [OF assms(1,2)]
      ReadAll_Limit_append [of rc "length rc" rm None] ReadAll_Limit_append [of rm "length rm" "[]" None]
    by (auto simp: read_bodies_def simp del: ReadAll_Limit.simps)
  then show ?thesis by (simp add: encode_def assms(2,3))
qed

section \<open>A stream of frames\<close>

text \<open>\<open>n\<close> calls of a decoder in a row, as a connection's read loop makes them.\<close>

fun read_n :: "('s \<Rightarrow> 'a result \<times> 's) \<Rightarrow> nat \<Rightarrow> 's \<Rightarrow> 'a result list \<times> 's" where
  "read_n dec 0 r = ([], r)"
| "read_n dec (Suc n) r =
     (case dec r of (x, r') \<Rightarrow> case read_n dec n r' of (xs, r'') \<Rightarrow> (x # xs, r''))"

locale framing =
  fixes ok :: "'a \<Rightarrow> bool"
    and enc :: "'a \<Rightarrow> bytes"
    and dec :: "reader \<Rightarrow> 'a result \<times> reader"
  assumes dec_enc: "ok a \<Longrightarrow> dec (enc a @ rest, e) = (Inr a, (rest, e))"
begin

lemma dec_stream:
  "\<forall>a \<in> set as. ok a \<Longrightarrow>
   read_n dec (length as) (concat (map enc as) @ rest, e) = (map Inr as, (rest, e))"
  by (induction as) (auto simp: dec_enc)

lemma enc_prefix_free:
  assumes "ok a" "ok b" "enc a @ x = enc b @ y"
  shows "a = b \<and> x = y"
proof -
  have "(Inr a :: 'a result, (x, None :: error option)) = (Inr b, (y, None))"
    using dec_enc [OF assms(1), of x None] dec_enc [OF assms(2), of y None]
    unfolding assms(3) by (rule trans [OF sym])
  then show ?thesis by simp
qed

end

interpretation fr: framing "sendable P g" "encode P" "ReadMessage P g" for P g
  by unfold_locales (rule read_encode)

text \<open>Packing a list of messages with one registry, the frames written one after the other.\<close>

fun pack_all ::
    "('t, 'm) protolib \<Rightarrow> (MsgCommon \<times> 'm) list \<Rightarrow> ('t registry, (MsgCommon \<times> 'm) list \<times> bytes) proc"
where
  "pack_all P [] g = (g, Ret ([], []))"
| "pack_all P ((c, m) # cms) g =
     (case PackMessage P c m g of
        (g', Ret (c', Inr bs)) \<Rightarrow>
          (case pack_all P cms g' of
             (g'', Ret (sent, bss)) \<Rightarrow> (g'', Ret ((c', m) # sent, bs @ bss))
           | (g'', Panic x) \<Rightarrow> (g'', Panic x)
           | (g'', Exit x) \<Rightarrow> (g'', Exit x))
      | (g', Ret (c', Inl e)) \<Rightarrow> (g', Ret ([], []))
      | (g', Panic x) \<Rightarrow> (g', Panic x)
      | (g', Exit x) \<Rightarrow> (g', Exit x))"

definition small_bodies :: "('t, 'm) protolib \<Rightarrow> MsgCommon \<times> 'm \<Rightarrow> bool" where
  "small_bodies P cm \<longleftrightarrow>
     (case (MarshalCommon P (fst cm), Marshal P (snd cm)) of
        (Inr rc, Inr rm) \<Rightarrow> length rc < 65536 \<and> length rm < 65536
      | _ \<Rightarrow> True)"

lemma pack_all_keeps:
  assumes "reg_wf P g"
  shows "reg_wf P (fst (pack_all P cms g)) \<and>
    (type2id g t = Some i \<longrightarrow> type2id (fst (pack_all P cms g)) t = Some i)"
  using assms
proof (induction P cms g rule: pack_all.induct)
  case (2 P c m cms g)
  obtain g' x where pk: "PackMessage P c m g = (g', x)" by (cases "PackMessage P c m g")
  note step = PackMessage_wf [OF 2(2), of c m] PackMessage_keeps [OF 2(2), of t i c m]
  show ?case
  proof (cases "\<exists>c' bs. x = Ret (c', Inr bs)")
    case True
    then obtain c' bs where x: "x = Ret (c', Inr bs)" by blast
    have "reg_wf P g'" using step(1) pk by simp
    from 2(1) [OF pk [unfolded x, symmetric] refl refl refl this] step pk x show ?thesis
      by (auto split: prod.splits outcome.splits)
  qed (use step pk in \<open>auto split: outcome.splits sum.splits\<close>)
qed simp

lemma PackMessage_sendable:
  assumes "proto_ok P" "reg_wf P g" "PackMessage P c m g = (g', Ret (c', Inr bs))"
    and "small_bodies P (c', m)"
  shows "sendable P g' (c', m) \<and> bs = encode P (c', m)"
  using assms(2,3)
  by (rule PackMessage_Ret) (use assms(1,4) in \<open>auto simp: sendable_def encode_def small_bodies_def\<close>)

lemma pack_all_sendable:
  assumes "proto_ok P" "reg_wf P g" "pack_all P cms g = (g', Ret (sent, bs))"
    and "\<forall>cm \<in> set sent. small_bodies P cm"
  shows "(\<forall>cm \<in> set sent. sendable P g' cm) \<and> bs = concat (map (encode P) sent)"
  using assms
proof (induction cms arbitrary: g g' sent bs)
  case (Cons cm cms)
  obtain c m where cm: "cm = (c, m)" by (cases cm)
  show ?case
  proof (cases "\<exists>g1 c1 b1. PackMessage P c m g = (g1, Ret (c1, Inr b1))")
    case True
    then obtain g1 c1 b1 where pk: "PackMessage P c m g = (g1, Ret (c1, Inr b1))" by blast
    with Cons.prems(3) obtain sent' bs' where rest: "pack_all P cms g1 = (g', Ret (sent', bs'))"
      and eq: "sent = (c1, m) # sent'" "bs = b1 @ bs'"
      by (auto simp: cm split: prod.splits outcome.splits)
    have wf1: "reg_wf P g1" using PackMessage_wf [OF Cons.prems(2), of c m] pk by simp
    have IH: "(\<forall>cm \<in> set sent'. sendable P g' cm) \<and> bs' = concat (map (encode P) sent')"
      by (rule Cons.IH [OF Cons.prems(1) wf1 rest]) (use Cons.prems(4) eq in auto)
    have hd: "sendable P g1 (c1, m) \<and> b1 = encode P (c1, m)"
      by (rule PackMessage_sendable [OF Cons.prems(1,2) pk]) (use Cons.prems(4) eq in auto)
    then have "sendable P g' (c1, m)"
      using pack_all_keeps [OF wf1, of cms "mtype P m" "Route c1"] rest
      by (auto simp: sendable_def)
    with IH hd eq show ?thesis by simp
  next
    case False
    with Cons.prems(3) have "sent = [] \<and> bs = []"
      by (auto simp: cm split: prod.splits outcome.splits sum.splits)
    then show ?thesis by simp
  qed
qed simp

lemma PackMessage_success:
  assumes "reg_wf P g"
    and "id2type g (name_id (fname P (mtype P m))) \<in> {None, Some (mtype P m)}"
    and "Marshal P m = Inr rm"
    and "MarshalCommon P (c\<lparr>Route := name_id (fname P (mtype P m))\<rparr>) = Inr rc"
  shows "\<exists>g'. PackMessage P c m g =
           (g', Ret (c\<lparr>Route := name_id (fname P (mtype P m))\<rparr>, Inr (frame rc rm)))"
proof -
  have "\<exists>g'. OnMarshal P m g = (g', Ret (name_id (fname P (mtype P m)), Inr rm))"
  proof (cases "type2id g (mtype P m)")
    case (Some j)
    then show ?thesis using assms(3) reg_wfD(2) [OF assms(1) Some]
      by (simp add: OnMarshal_def MessageID_def)
  next
    case None
    from assms(1) show ?thesis
      by (cases rule: RegisterMessage_cases [of P g "mtype P m"])
         (use assms(2,3) None in \<open>auto simp: OnMarshal_def MessageID_def\<close>)
  qed
  then show ?thesis using assms(4) by (auto simp: PackMessage_def frame_def)
qed

section \<open>Properties\<close>

text \<open>
  C1: Packing a message and reading the bytes back, with anything behind them on the
  stream, gives the header with its route and the message, and leaves the reader at the
  first byte behind the frame, when both bodies fit the 16-bit length fields.
\<close>

theorem pack_read_roundtrip:
  assumes "proto_ok P" and "reg_wf P g"
    and "id2type g (name_id (fname P (mtype P m))) \<in> {None, Some (mtype P m)}"
    and "Marshal P m = Inr rm" and "length rm < 65536"
    and "MarshalCommon P (c\<lparr>Route := name_id (fname P (mtype P m))\<rparr>) = Inr rc"
    and "length rc < 65536"
  shows "\<exists>g' bs. PackMessage P c m g =
             (g', Ret (c\<lparr>Route := name_id (fname P (mtype P m))\<rparr>, Inr bs)) \<and>
           ReadMessage P g' (bs @ rest, e) =
             (Inr (c\<lparr>Route := name_id (fname P (mtype P m))\<rparr>, m), (rest, e))"
proof -
  let ?c = "c\<lparr>Route := name_id (fname P (mtype P m))\<rparr>"
  obtain g' where pk: "PackMessage P c m g = (g', Ret (?c, Inr (frame rc rm)))"
    using PackMessage_success [OF assms(2,3,4,6)] by blast
  have "sendable P g' (?c, m) \<and> frame rc rm = encode P (?c, m)"
    by (rule PackMessage_sendable [OF assms(1,2) pk]) (simp add: small_bodies_def assms)
  then show ?thesis using pk read_encode [of P g' "(?c, m)" rest e] by auto
qed

theorem pack_read_roundtrip_witness:
  "\<exists>g' bs. PackMessage sample_lib (MsgCommon_Reset\<lparr>Mid := 7\<rparr>)
        (MCReqLogin \<lparr>CReqLogin_Account = ''bob''\<rparr>) empty_registry =
      (g', Ret (MsgCommon_Reset\<lparr>Mid := 7, Route := name_id ''climsg.CReqLogin''\<rparr>, Inr bs)) \<and>
    ReadMessage sample_lib g' (bs @ [1, 2, 3], None) =
      (Inr (MsgCommon_Reset\<lparr>Mid := 7, Route := name_id ''climsg.CReqLogin''\<rparr>,
            MCReqLogin \<lparr>CReqLogin_Account = ''bob''\<rparr>), ([1, 2, 3], None))"
  using pack_read_roundtrip [OF proto_ok_sample reg_wf_empty,
      of "MCReqLogin \<lparr>CReqLogin_Account = ''bob''\<rparr>" _ "MsgCommon_Reset\<lparr>Mid := 7\<rparr>" _
         "[1, 2, 3]" None]
  by (simp add: length_enc_common MsgCommon_Reset_def)

text \<open>
  The frames of any list of messages, packed with one registry and written one after
  the other, are read back by as many calls of \<open>ReadMessage\<close>: in order, none lost, none
  split, with the stream left where the last frame ends.
\<close>

theorem stream_roundtrip:
  assumes "proto_ok P" and "reg_wf P g" and "pack_all P cms g = (g', Ret (sent, bs))"
    and "\<forall>cm \<in> set sent. small_bodies P cm"
  shows "read_n (ReadMessage P g') (length sent) (bs @ rest, e) = (map Inr sent, (rest, e))"
  using pack_all_sendable [OF assms] fr.dec_stream [of sent P g' rest e] by simp

definition sample_batch :: "(MsgCommon \<times> pb_msg) list" where
  "sample_batch =
     [(MsgCommon_Reset\<lparr>Mid := 1\<rparr>, MCReqLogin \<lparr>CReqLogin_Account = ''bob''\<rparr>),
      (MsgCommon_Reset\<lparr>Mid := 2\<rparr>, MRespAuth \<lparr>RespAuth_Code = 0\<rparr>)]"

lemma pack_all_repo:
  assumes "fname P = full_name" and "\<And>m. \<exists>b. Marshal P m = Inr b"
    and "\<And>c. \<exists>b. MarshalCommon P c = Inr b" and "reg_wf P g"
  shows "\<exists>g' bs. pack_all P cms g =
     (g', Ret (map (\<lambda>(c, m). (c\<lparr>Route := name_id (full_name (mtype P m))\<rparr>, m)) cms, bs))"
  using assms(4)
proof (induction cms arbitrary: g)
  case (Cons cm cms)
  obtain c m where cm: "cm = (c, m)" by (cases cm)
  obtain rm where "Marshal P m = Inr rm" using assms(2) by blast
  moreover obtain rc where
      "MarshalCommon P (c\<lparr>Route := name_id (fname P (mtype P m))\<rparr>) = Inr rc"
    using assms(3) by blast
  moreover have "id2type g (name_id (fname P (mtype P m))) \<in> {None, Some (mtype P m)}"
    using RegisterMessage_repo [OF assms(1) Cons.prems, of "mtype P m"] assms(1)
    by (auto simp: RegisterMessage_def split: option.splits if_splits)
  ultimately obtain g1 where pk: "PackMessage P c m g =
      (g1, Ret (c\<lparr>Route := name_id (full_name (mtype P m))\<rparr>, Inr (frame rc rm)))"
    using PackMessage_success [OF Cons.prems] assms(1) by metis
  have "reg_wf P g1" using PackMessage_wf [OF Cons.prems, of c m] pk by simp
  from Cons.IH [OF this] pk show ?case by (auto simp: cm)
qed simp

theorem stream_roundtrip_witness:
  "\<exists>g' bs sent. pack_all sample_lib sample_batch empty_registry = (g', Ret (sent, bs)) \<and>
     length sent = 2 \<and>
     read_n (ReadMessage sample_lib g') 2 (bs @ [9], None) = (map Inr sent, ([9], None))"
proof -
  obtain g' bs sent where p: "pack_all sample_lib sample_batch empty_registry = (g', Ret (sent, bs))"
    and sent: "sent = map (\<lambda>(c, m). (c\<lparr>Route := name_id (full_name (pb_msg_type m))\<rparr>, m)) sample_batch"
    using pack_all_repo [of sample_lib empty_registry sample_batch] by (auto intro: reg_wf_empty)
  have "\<forall>cm \<in> set sent. small_bodies sample_lib cm"
    by (simp add: sent sample_batch_def small_bodies_def length_enc_common MsgCommon_Reset_def)
  from stream_roundtrip [OF proto_ok_sample reg_wf_empty p this, of "[9]" None]
  have r: "read_n (ReadMessage sample_lib g') (length sent) (bs @ [9], None) = (map Inr sent, ([9], None))" .
  have len: "length sent = 2" by (simp add: sent sample_batch_def)
  show ?thesis by (intro exI conjI, rule p, rule len, rule r [unfolded len])
qed

text \<open>
  C33: \<open>PackMessage\<close> does not check the size of a message. A body of 65536 bytes or more
  is packed without an error, its length is written modulo 65536, and a reader of the
  stream stops inside the body: what is left of it is taken for the next frame.
\<close>

theorem oversize_body_desyncs:
  assumes "proto_ok P" and "reg_wf P g"
    and "id2type g (name_id (fname P (mtype P m))) \<in> {None, Some (mtype P m)}"
    and "Marshal P m = Inr rm" and "65536 \<le> length rm"
    and "MarshalCommon P (c\<lparr>Route := name_id (fname P (mtype P m))\<rparr>) = Inr rc"
    and "length rc < 65536"
  shows "\<exists>g' bs. PackMessage P c m g =
             (g', Ret (c\<lparr>Route := name_id (fname P (mtype P m))\<rparr>, Inr bs)) \<and>
           length bs = 4 + length rc + length rm \<and>
           snd (ReadMessage P g' (bs @ rest, e)) = (drop (length rm mod 65536) rm @ rest, e) \<and>
           drop (length rm mod 65536) rm \<noteq> []"
proof -
  let ?c = "c\<lparr>Route := name_id (fname P (mtype P m))\<rparr>"
  let ?k = "length rm mod 65536"
  obtain g' where pk: "PackMessage P c m g = (g', Ret (?c, Inr (frame rc rm)))"
    using PackMessage_success [OF assms(2,3,4,6)] by blast
  have k: "?k < length rm"
    using assms(5) mod_less_divisor [of 65536 "length rm"] by linarith
  have "snd (ReadMessage P g' (frame rc rm @ rest, e)) = (drop ?k rm @ rest, e)"
    using k assms(7) proto_okD(2) [OF assms(1,6)]
    by (simp add: ReadMessage_frame read_bodies_def split: sum.split)
  with pk k show ?thesis by (auto simp: length_frame)
qed

theorem oversize_body_desyncs_witness:
  "\<exists>g' bs. PackMessage sample_lib MsgCommon_Reset
        (MCReqLogin \<lparr>CReqLogin_Account = replicate 40000 CHR ''a''\<rparr>) empty_registry =
      (g', Ret (MsgCommon_Reset\<lparr>Route := name_id ''climsg.CReqLogin''\<rparr>, Inr bs)) \<and>
    fst (snd (ReadMessage sample_lib g' (bs @ [9], None))) =
      drop 14465 (enc_str (replicate 40000 CHR ''a'')) @ [9]"
proof -
  have "\<exists>g' bs. PackMessage sample_lib MsgCommon_Reset (MCReqLogin \<lparr>CReqLogin_Account = s\<rparr>) empty_registry =
      (g', Ret (MsgCommon_Reset\<lparr>Route := name_id ''climsg.CReqLogin''\<rparr>, Inr bs)) \<and>
    fst (snd (ReadMessage sample_lib g' (bs @ [9], None))) = drop 14465 (enc_str s) @ [9]"
    if s: "length s = 40000" for s
  proof -
    let ?m = "MCReqLogin \<lparr>CReqLogin_Account = s\<rparr>"
    have len: "length (enc_str s) = 80001" using s by simp
    have ty: "name_id (fname sample_lib (mtype sample_lib ?m)) = name_id ''climsg.CReqLogin''"
      by simp
    obtain g' bs where pk: "PackMessage sample_lib MsgCommon_Reset ?m empty_registry =
          (g', Ret (MsgCommon_Reset\<lparr>Route := name_id ''climsg.CReqLogin''\<rparr>, Inr bs))"
      and rd: "snd (ReadMessage sample_lib g' (bs @ [9], None)) = (drop 14465 (enc_str s) @ [9], None)"
      using oversize_body_desyncs [OF proto_ok_sample reg_wf_empty, of ?m "enc_str s" MsgCommon_Reset
          "enc_common (MsgCommon_Reset\<lparr>Route := name_id ''climsg.CReqLogin''\<rparr>)" "[9]" None]
      unfolding ty len by (auto simp: length_enc_common MsgCommon_Reset_def simp del: enc_str.simps)
    show ?thesis by (intro exI conjI, rule pk) (simp add: rd)
  qed
  from this [OF length_replicate] show ?thesis .
qed

text \<open>
  C32: The header. \<open>parseHead\<close> accepts exactly the inputs of four bytes and decodes the
  two lengths little-endian; on every other input it reports \<open>PacketInvalidHeader\<close>, so
  its two \<open>PacketSizeExceed\<close> branches are never taken. \<open>ReadMessage\<close> turns the end
  of the stream into \<open>PacketConnectClosed\<close>, a cut header into \<open>PacketInvalidHeader\<close>.
\<close>

theorem header_outcomes:
  "parseHead h =
     (case h of [a, b, c, d] \<Rightarrow> Inr (get_le16 a b, get_le16 c d) | _ \<Rightarrow> Inl PacketInvalidHeader) \<and>
   parseHead (put_le16 k @ put_le16 l) = Inr (k, l) \<and>
   ReadMessage P g ([], None) = (Inl PacketConnectClosed, ([], None)) \<and>
   ReadMessage P g ([x], None) = (Inl PacketInvalidHeader, ([], None)) \<and>
   ReadMessage P g ([x, y], None) = (Inl PacketInvalidHeader, ([], None)) \<and>
   ReadMessage P g ([x, y, z], None) = (Inl PacketInvalidHeader, ([], None)) \<and>
   ReadMessage P g ([], Some e) = (Inl e, ([], Some e))"
  by (intro conjI parseHead_eq parseHead_put)
     (simp_all add: ReadMessage_def parseHead_def packet_consts)

text \<open>
  A stream that ends inside the message body is not an error for \<open>ReadMessage\<close>: the
  bytes that did arrive are unmarshalled as if they were the whole message. At the border
  of the two bodies that is the empty input, which is a valid encoding of every message
  with default fields.
\<close>

theorem truncated_body_not_detected:
  assumes "UnmarshalCommon P rc = Inr c" and "length rc < 65536" and "length rm < 65536"
    and "k \<le> length rm"
  shows "fst (ReadMessage P g (take (4 + length rc + k) (frame rc rm), None)) =
           map_sum id (Pair c) (OnUnmarshal P g (Route c) (take k rm))"
proof -
  have cut: "take (4 + length rc + k) (frame rc rm) =
      put_le16 (of_nat (length rc)) @ put_le16 (of_nat (length rm)) @ (rc @ take k rm)"
    using assms(4) by (simp add: frame_def)
  show ?thesis
    unfolding cut ReadMessage_header
    using assms by (auto simp: unat_of_nat_u16 read_bodies_def split: sum.split)
qed

theorem truncated_body_not_detected_witness:
  "fst (ReadMessage sample_lib empty_registry
     (take (4 + length (enc_common MsgCommon_Reset) + 0) (frame (enc_common MsgCommon_Reset) [5, 6]), None)) =
   Inl (Errorf ''message %v not registered'' [ArgD 0])"
  using truncated_body_not_detected [of sample_lib "enc_common MsgCommon_Reset" MsgCommon_Reset "[5, 6]" 0
      empty_registry]
  by (simp add: length_enc_common sample_lib_def or_error_def dec_enc_common OnUnmarshal_def
      MessageType_def MsgCommon_Reset_def)

end
