(* ===== verification/Util.thy ===== *)
theory Util
  imports Prelude
begin

text \<open>
  \<^verbatim>\<open>framework/util/util.go\<close>: \<open>Try\<close> runs a function under a deferred \<open>recover\<close>,
  \<open>StringIn\<close> searches a slice. The effects of a Go function on the state are explicit.
\<close>

text \<open>
  The deferred \<open>catchError\<close>: nothing without a panic, else the handler gets the panic's
  text. A panic of the handler itself is not recovered.
\<close>

fun catchError :: "(string \<Rightarrow> ('s, unit) proc) \<Rightarrow> 's \<times> unit outcome \<Rightarrow> 's \<times> unit outcome" where
  "catchError catch (s, Ret u) = (s, Ret u)"
| "catchError catch (s, Panic r) = catch r s"
| "catchError catch (s, Exit m) = (s, Exit m)"

definition panicked :: "'a outcome \<Rightarrow> bool" where
  "panicked out = (case out of Panic _ \<Rightarrow> True | _ \<Rightarrow> False)"

definition Try :: "('s, unit) proc \<Rightarrow> (string \<Rightarrow> ('s, unit) proc) \<Rightarrow> ('s, bool) proc" where
  "Try tryFn catchFn s =
     (let r = tryFn s; hasException = panicked (snd r)
      in case catchError catchFn r of
           (s', Ret _) \<Rightarrow> (s', Ret hasException)
         | (s', Panic m) \<Rightarrow> (s', Panic m)
         | (s', Exit m) \<Rightarrow> (s', Exit m))"

fun string_in_from :: "nat \<Rightarrow> string \<Rightarrow> string list \<Rightarrow> nat \<times> bool" where
  "string_in_from i v [] = (0, False)"
| "string_in_from i v (vv # sl) = (if vv = v then (i, True) else string_in_from (Suc i) v sl)"

definition StringIn :: "string \<Rightarrow> string list \<Rightarrow> nat \<times> bool" where
  "StringIn v sl = string_in_from 0 v sl"

section \<open>Properties\<close>

lemma Try_Ret: "tryFn s = (s', Ret u) \<Longrightarrow> Try tryFn catchFn s = (s', Ret False)"
  by (simp add: Try_def panicked_def)

lemma Try_Panic:
  "tryFn s = (s', Panic m) \<Longrightarrow> catchFn m s' = (s'', Ret u) \<Longrightarrow> Try tryFn catchFn s = (s'', Ret True)"
  by (simp add: Try_def panicked_def)

text \<open>With a handler that returns, only \<open>os.Exit\<close> gets past \<open>Try\<close>.\<close>

lemma Try_contains_panic:
  assumes "\<And>m s. \<exists>s' u. catchFn m s = (s', Ret u)"
  shows "\<not> panicked (snd (Try tryFn catchFn s))"
proof (cases "tryFn s")
  case (Pair s' out)
  then show ?thesis using assms
    by (cases out) (auto simp: Try_def panicked_def split: prod.splits outcome.splits,
      metis outcome.distinct(1) prod.inject)
qed

lemma string_in_from_snd: "snd (string_in_from i v sl) \<longleftrightarrow> v \<in> set sl"
  by (induction i v sl rule: string_in_from.induct) auto

lemma StringIn_snd [simp]: "snd (StringIn v sl) \<longleftrightarrow> v \<in> set sl"
  by (simp add: StringIn_def string_in_from_snd)

lemma string_in_from_fst:
  "string_in_from i v sl = (k, True) \<Longrightarrow>
   i \<le> k \<and> k - i < length sl \<and> sl ! (k - i) = v \<and> v \<notin> set (take (k - i) sl)"
proof (induction i v sl rule: string_in_from.induct)
  case (2 i v vv sl)
  show ?case
  proof (cases "vv = v")
    case False
    with 2 have "Suc i \<le> k \<and> k - Suc i < length sl \<and> sl ! (k - Suc i) = v
        \<and> v \<notin> set (take (k - Suc i) sl)" by simp
    moreover from this have "k - i = Suc (k - Suc i)" by linarith
    ultimately show ?thesis using False by (simp only:) auto
  qed (use 2 in simp)
qed simp

end
