(* ===== verification/Discovery.thy ===== *)
theory Discovery
  imports Pb Util
begin

text \<open>
  \<^verbatim>\<open>framework/pkg/discovery/discovery.go\<close> and \<^verbatim>\<open>load_balance.go\<close>: the member table
  \<open>DiscoveryDefault\<close>. Every access to the \<open>sync.Map\<close> is one atomic call of it, so
  each operation is one step. Listeners are called after the table has changed; an
  operation returns the calls it makes, in order. A member is what the getters of
  \<open>IMember\<close> read.
\<close>

section \<open>State and operations\<close>

record 'l discovery =
  memberMap :: "string \<Rightarrow> Member option"
  onAddListener :: "'l list"
  onRemoveListener :: "'l list"

definition empty_discovery :: "'l discovery" where
  "empty_discovery = \<lparr>memberMap = Map.empty, onAddListener = [], onRemoveListener = []\<rparr>"

definition PreInit :: "'l discovery \<Rightarrow> 'l discovery" where
  "PreInit n = n\<lparr>memberMap := Map.empty\<rparr>"

text \<open>
  \<open>Range\<close> visits every entry once, in an order that the map does not promise. The
  operations that range take the visiting order as an argument.
\<close>

definition range_order :: "(string \<times> Member) list \<Rightarrow> 'l discovery \<Rightarrow> bool" where
  "range_order ents n \<longleftrightarrow> distinct (map fst ents) \<and> map_of ents = memberMap n"

fun MapOf :: "(string \<times> Member) list \<Rightarrow> (string \<Rightarrow> Member option) \<Rightarrow> string \<Rightarrow> Member option" where
  "MapOf [] m = m"
| "MapOf ((key, member) # ents) m = MapOf ents (m(NodeId member \<mapsto> member))"

definition Map_snapshot :: "(string \<times> Member) list \<Rightarrow> string \<Rightarrow> Member option" where
  "Map_snapshot ents = MapOf ents Map.empty"

fun ListByType :: "(string \<times> Member) list \<Rightarrow> string \<Rightarrow> string list \<Rightarrow> Member list" where
  "ListByType [] nodeType filterNodeId = []"
| "ListByType ((key, member) # ents) nodeType filterNodeId =
     (if NodeType member = nodeType
      then if \<not> snd (StringIn (NodeId member) filterNodeId)
           then member # ListByType ents nodeType filterNodeId
           else ListByType ents nodeType filterNodeId
      else ListByType ents nodeType filterNodeId)"

definition GetMember :: "'l discovery \<Rightarrow> string \<Rightarrow> Member option" where
  "GetMember n nodeId = (if nodeId = [] then None else memberMap n nodeId)"

definition GetType :: "'l discovery \<Rightarrow> string \<Rightarrow> string result" where
  "GetType n nodeId =
     (case GetMember n nodeId of
        None \<Rightarrow> Inl (Errorf ''nodeId = %s not found.'' [ArgS nodeId])
      | Some member \<Rightarrow> Inr (NodeType member))"

definition AddMember :: "Member \<Rightarrow> 'l discovery \<Rightarrow> 'l discovery \<times> ('l \<times> Member) list" where
  "AddMember member n =
     (case memberMap n (NodeId member) of
        Some _ \<Rightarrow> (n, [])
      | None \<Rightarrow>
          (n\<lparr>memberMap := (memberMap n)(NodeId member \<mapsto> member)\<rparr>,
           map (\<lambda>listener. (listener, member)) (onAddListener n)))"

definition RemoveMember :: "string \<Rightarrow> 'l discovery \<Rightarrow> 'l discovery \<times> ('l \<times> Member) list" where
  "RemoveMember nodeId n =
     (case memberMap n nodeId of
        Some member \<Rightarrow>
          (n\<lparr>memberMap := (memberMap n)(nodeId := None)\<rparr>,
           map (\<lambda>listener. (listener, member)) (onRemoveListener n))
      | None \<Rightarrow> (n, []))"

definition OnAddMember :: "'l option \<Rightarrow> 'l discovery \<Rightarrow> 'l discovery" where
  "OnAddMember listener n =
     (case listener of None \<Rightarrow> n | Some l \<Rightarrow> n\<lparr>onAddListener := onAddListener n @ [l]\<rparr>)"

definition OnRemoveMember :: "'l option \<Rightarrow> 'l discovery \<Rightarrow> 'l discovery" where
  "OnRemoveMember listener n =
     (case listener of None \<Rightarrow> n | Some l \<Rightarrow> n\<lparr>onRemoveListener := onRemoveListener n @ [l]\<rparr>)"

definition Discovery_Stop :: "'l discovery \<Rightarrow> 'l discovery" where
  "Discovery_Stop n = n"

text \<open>
  \<open>Random\<close> of \<^verbatim>\<open>load_balance.go\<close>; \<open>intn\<close> is \<open>rand.Intn\<close>.
\<close>

definition Random ::
    "(nat \<Rightarrow> nat) \<Rightarrow> (string \<times> Member) list \<Rightarrow> string \<Rightarrow> Member option" where
  "Random intn ents nodeType =
     (let memberList = ListByType ents nodeType []; memberLen = length memberList
      in if memberLen < 1 then None
         else if memberLen = 1 then Some (memberList ! 0)
         else Some (memberList ! intn (length memberList)))"

section \<open>The table as an interface\<close>

text \<open>
  What the cluster and the agents rely on when they look a node up, and what the watcher
  of the registry does to it: a node is added only when it is absent, and removed.
\<close>

datatype change = Joined Member | Left string

fun about :: "string \<Rightarrow> change \<Rightarrow> bool" where
  "about k (Joined m) \<longleftrightarrow> NodeId m = k"
| "about k (Left n) \<longleftrightarrow> n = k"

text \<open>Whether the last change about a node was a join (\<open>b\<close> when there is none).\<close>

fun last_change :: "string \<Rightarrow> change list \<Rightarrow> bool \<Rightarrow> bool" where
  "last_change k [] b = b"
| "last_change k (Joined m # cs) b = last_change k cs (b \<or> NodeId m = k)"
| "last_change k (Left n # cs) b = last_change k cs (b \<and> n \<noteq> k)"

text \<open>The member that stays: the first join after the last departure.\<close>

fun first_joined :: "string \<Rightarrow> change list \<Rightarrow> Member option \<Rightarrow> Member option" where
  "first_joined k [] x = x"
| "first_joined k (Joined m # cs) x =
     first_joined k cs (if x = None \<and> NodeId m = k then Some m else x)"
| "first_joined k (Left n # cs) x = first_joined k cs (if n = k then None else x)"

lemma first_joined_present: "first_joined k cs x \<noteq> None \<longleftrightarrow> last_change k cs (x \<noteq> None)"
proof (induction cs arbitrary: x)
  case (Cons c cs)
  then show ?case by (cases c) (auto simp del: not_None_eq)
qed simp

lemma first_joined_NodeId:
  "(\<forall>m. x = Some m \<longrightarrow> NodeId m = k) \<Longrightarrow> first_joined k cs x = Some m \<Longrightarrow> NodeId m = k"
proof (induction cs arbitrary: x)
  case (Cons c cs)
  then show ?case by (cases c) (auto split: if_splits)
qed simp

locale membership =
  fixes lookup :: "'d \<Rightarrow> string \<Rightarrow> Member option"
    and add :: "Member \<Rightarrow> 'd \<Rightarrow> 'd"
    and remove :: "string \<Rightarrow> 'd \<Rightarrow> 'd"
  assumes lookup_add: "lookup (add m d) k =
      (if k = NodeId m \<and> lookup d k = None then Some m else lookup d k)"
    and lookup_remove: "lookup (remove n d) k = (if k = n then None else lookup d k)"
begin

fun apply_change :: "change \<Rightarrow> 'd \<Rightarrow> 'd" where
  "apply_change (Joined m) d = add m d"
| "apply_change (Left n) d = remove n d"

lemma apply_other: "\<not> about k c \<Longrightarrow> lookup (apply_change c d) k = lookup d k"
  by (cases c) (auto simp: lookup_add lookup_remove)

lemma replay_other:
  "(\<forall>c \<in> set cs. \<not> about k c) \<Longrightarrow> lookup (fold apply_change cs d) k = lookup d k"
  by (induction cs arbitrary: d) (auto simp: apply_other)

text \<open>What a history leaves under an id is the first join after the last departure.\<close>

lemma lookup_replay: "lookup (fold apply_change cs d) k = first_joined k cs (lookup d k)"
proof (induction cs arbitrary: d)
  case (Cons c cs)
  then show ?case by (cases c) (auto simp: lookup_add lookup_remove)
qed simp

lemma present_iff:
  "lookup (fold apply_change cs d) k \<noteq> None \<longleftrightarrow> last_change k cs (lookup d k \<noteq> None)"
  unfolding lookup_replay by (rule first_joined_present)

end

interpretation mem: membership memberMap "\<lambda>m d. fst (AddMember m d)" "\<lambda>k d. fst (RemoveMember k d)"
  by unfold_locales
     (auto simp: AddMember_def RemoveMember_def split: option.split)

section \<open>Invariant\<close>

definition disc_wf :: "'l discovery \<Rightarrow> bool" where
  "disc_wf n \<longleftrightarrow> (\<forall>k m. memberMap n k = Some m \<longrightarrow> NodeId m = k)"

lemma disc_wf_empty [inv_intros]: "disc_wf empty_discovery" "disc_wf (PreInit n)"
  by (simp_all add: disc_wf_def empty_discovery_def PreInit_def)

lemma disc_wf_Add [inv_intros]: "disc_wf n \<Longrightarrow> disc_wf (fst (AddMember m n))"
  by (auto simp: disc_wf_def mem.lookup_add)

lemma disc_wf_Remove [inv_intros]: "disc_wf n \<Longrightarrow> disc_wf (fst (RemoveMember k n))"
  by (auto simp: disc_wf_def mem.lookup_remove)

lemma GetMember_NodeId: "disc_wf n \<Longrightarrow> GetMember n k = Some m \<Longrightarrow> NodeId m = k \<and> k \<noteq> []"
  by (auto simp: GetMember_def disc_wf_def split: if_splits)

lemma set_ListByType:
  "set (ListByType ents ty fs) =
     {m. \<exists>k. (k, m) \<in> set ents \<and> NodeType m = ty \<and> NodeId m \<notin> set fs}"
  by (induction ents ty fs rule: ListByType.induct) auto

lemma range_order_member:
  "range_order ents n \<Longrightarrow> (k, m) \<in> set ents \<longleftrightarrow> memberMap n k = Some m"
  by (metis range_order_def map_of_eq_Some_iff)

lemma MapOf_eq:
  assumes "disc_wf n" "range_order ents n"
  shows "Map_snapshot ents = memberMap n"
proof -
  have *: "MapOf ents m = m ++ map_of ents"
    if "\<forall>(k, x) \<in> set ents. NodeId x = k" "distinct (map fst ents)"
    for m :: "string \<Rightarrow> Member option" and ents
    using that
  proof (induction ents m rule: MapOf.induct)
    case (2 key member ents m)
    then have "key \<notin> dom (map_of ents)" by (simp add: dom_map_of_conv_image_fst)
    from map_add_upd_left [OF this, of m member]
    have "m(key \<mapsto> member) ++ map_of ents = m ++ map_of ((key, member) # ents)" by simp
    moreover have "MapOf ents (m(key \<mapsto> member)) = m(key \<mapsto> member) ++ map_of ents"
      using 2 by (simp del: fun_upd_apply)
    moreover have "NodeId member = key" using 2 by simp
    ultimately show ?case by (simp only: MapOf.simps)
  qed simp
  have "\<forall>(k, x) \<in> set ents. NodeId x = k"
    using assms range_order_member [OF assms(2)] by (auto simp: disc_wf_def)
  from * [OF this, of Map.empty] show ?thesis
    using assms(2) by (simp add: Map_snapshot_def range_order_def)
qed

section \<open>Properties\<close>

text \<open>
  A history of changes, with the listener calls it makes: \<open>(l, Joined m)\<close> for the call of
  the add listener \<open>l\<close>, \<open>(l, Left k)\<close> for the call of a remove listener with the
  member \<open>k\<close>.
\<close>

fun run_changes :: "change list \<Rightarrow> 'l discovery \<Rightarrow> 'l discovery \<times> ('l \<times> change) list" where
  "run_changes [] n = (n, [])"
| "run_changes (Joined m # cs) n =
     (case AddMember m n of (n1, calls) \<Rightarrow>
      case run_changes cs n1 of (n2, heard) \<Rightarrow>
        (n2, map (\<lambda>(l, x). (l, Joined x)) calls @ heard))"
| "run_changes (Left k # cs) n =
     (case RemoveMember k n of (n1, calls) \<Rightarrow>
      case run_changes cs n1 of (n2, heard) \<Rightarrow>
        (n2, map (\<lambda>(l, x). (l, Left (NodeId x))) calls @ heard))"

text \<open>A copy of the table that a listener keeps from its calls alone.\<close>

fun mirror :: "'l \<Rightarrow> ('l \<times> change) list \<Rightarrow> (string \<Rightarrow> Member option) \<Rightarrow> string \<Rightarrow> Member option" where
  "mirror l [] t = t"
| "mirror l ((l', Joined m) # heard) t =
     mirror l heard (if l' = l then t(NodeId m \<mapsto> m) else t)"
| "mirror l ((l', Left k) # heard) t =
     mirror l heard (if l' = l then t(k := None) else t)"

lemma mirror_append: "mirror l (xs @ ys) t = mirror l ys (mirror l xs t)"
  by (induction l xs t rule: mirror.induct) auto

lemma mirror_joined:
  "mirror l (map (\<lambda>k. (k, Joined m)) ls) t = (if l \<in> set ls then t(NodeId m \<mapsto> m) else t)"
  by (induction ls arbitrary: t) auto

lemma mirror_left:
  "mirror l (map (\<lambda>k. (k, Left i)) ls) t = (if l \<in> set ls then t(i := None) else t)"
  by (induction ls arbitrary: t) auto

lemma listeners_frame [frame_simps]:
  "onAddListener (fst (AddMember m n)) = onAddListener n"
  "onRemoveListener (fst (AddMember m n)) = onRemoveListener n"
  "onAddListener (fst (RemoveMember k n)) = onAddListener n"
  "onRemoveListener (fst (RemoveMember k n)) = onRemoveListener n"
  by (auto simp: AddMember_def RemoveMember_def split: option.split)

lemma mirror_step_add:
  assumes "AddMember m n = (n1, calls)" and "l \<in> set (onAddListener n)"
  shows "mirror l (map (\<lambda>(l, x). (l, Joined x)) calls) (memberMap n) = memberMap n1"
  using assms by (auto simp: AddMember_def comp_def mirror_joined split: option.splits)

lemma mirror_step_remove:
  assumes "RemoveMember k n = (n1, calls)" and "l \<in> set (onRemoveListener n)" and "disc_wf n"
  shows "mirror l (map (\<lambda>(l, x). (l, Left (NodeId x))) calls) (memberMap n) = memberMap n1"
  using assms
  by (auto simp: RemoveMember_def comp_def mirror_left disc_wf_def split: option.splits)

text \<open>
  C17: Listeners see everything, once and in order. A listener registered for joins and
  departures that applies the calls it gets to a copy of the table has, after any history of
  joins, repeated joins, departures and departures of unknown nodes, exactly the table; and
  the table stays keyed by its members' ids.
\<close>

theorem listener_mirrors_table:
  assumes "disc_wf n" and "l \<in> set (onAddListener n)" and "l \<in> set (onRemoveListener n)"
    and "run_changes cs n = (n', heard)"
  shows "mirror l heard (memberMap n) = memberMap n' \<and> disc_wf n'"
  using assms
proof (induction cs arbitrary: n heard)
  case (Cons c cs)
  show ?case
  proof (cases c)
    case (Joined m)
    obtain n1 calls where ad: "AddMember m n = (n1, calls)" by (cases "AddMember m n")
    obtain rest where r: "run_changes cs n1 = (n', rest)"
        "heard = map (\<lambda>(l, x). (l, Joined x)) calls @ rest"
      using Cons.prems(4) Joined ad by (auto split: prod.splits)
    show ?thesis
      using Cons.IH [OF _ _ _ r(1)] Cons.prems(1-3) disc_wf_Add [OF Cons.prems(1), of m]
        listeners_frame(1,2) [of m n] mirror_step_add [OF ad Cons.prems(2)] ad r(2)
      by (simp add: mirror_append)
  next
    case (Left k)
    obtain n1 calls where rm: "RemoveMember k n = (n1, calls)" by (cases "RemoveMember k n")
    obtain rest where r: "run_changes cs n1 = (n', rest)"
        "heard = map (\<lambda>(l, x). (l, Left (NodeId x))) calls @ rest"
      using Cons.prems(4) Left rm by (auto split: prod.splits)
    show ?thesis
      using Cons.IH [OF _ _ _ r(1)] Cons.prems(1-3) disc_wf_Remove [OF Cons.prems(1), of k]
        listeners_frame(3,4) [of k n] mirror_step_remove [OF rm Cons.prems(3,1)] rm r(2)
      by (simp add: mirror_append)
  qed
qed simp

theorem listener_mirrors_table_witness:
  "let n = OnRemoveMember (Some ''L'') (OnAddMember (Some ''L'') empty_discovery);
       m = \<lparr>NodeId = ''g'', NodeType = ''gate'', Address = []\<rparr>;
       (n', heard) = run_changes [Joined m, Joined m, Left ''x''] n
   in mirror ''L'' heard (memberMap n) = memberMap n' \<and> heard = [(''L'', Joined m)]"
proof -
  let ?n = "OnRemoveMember (Some ''L'') (OnAddMember (Some ''L'') empty_discovery)"
  let ?m = "\<lparr>NodeId = ''g'', NodeType = ''gate'', Address = []\<rparr>"
  let ?cs = "[Joined ?m, Joined ?m, Left ''x'']"
  have "disc_wf ?n" "''L'' \<in> set (onAddListener ?n)" "''L'' \<in> set (onRemoveListener ?n)"
    by (simp_all add: disc_wf_def OnRemoveMember_def OnAddMember_def empty_discovery_def)
  from listener_mirrors_table [OF this, of ?cs "fst (run_changes ?cs ?n)" "snd (run_changes ?cs ?n)"]
  have "mirror ''L'' (snd (run_changes ?cs ?n)) (memberMap ?n) = memberMap (fst (run_changes ?cs ?n))"
    by simp
  moreover have "snd (run_changes ?cs ?n) = [(''L'', Joined ?m)]"
    by (simp add: AddMember_def RemoveMember_def OnRemoveMember_def OnAddMember_def empty_discovery_def)
  ultimately show ?thesis by (simp add: case_prod_unfold del: run_changes.simps)
qed

text \<open>
  \<open>Random\<close> picks only members of the type asked for, whatever order the table is
  visited in and whatever the random numbers are; it can pick each of them; and it finds
  nothing exactly when the table holds no member of that type.
\<close>

theorem Random_correct:
  assumes "range_order ents n" and "\<And>l. 0 < l \<Longrightarrow> intn l < l"
  shows "(case Random intn ents ty of
            Some m \<Rightarrow> NodeType m = ty \<and> (\<exists>k. memberMap n k = Some m)
          | None \<Rightarrow> (\<forall>k m. memberMap n k = Some m \<longrightarrow> NodeType m \<noteq> ty)) \<and>
         (\<forall>k m. memberMap n k = Some m \<and> NodeType m = ty \<longrightarrow>
            (\<exists>f. (\<forall>l. 0 < l \<longrightarrow> f l < l) \<and> Random f ents ty = Some m))"
proof -
  let ?ms = "ListByType ents ty []"
  have mem: "m \<in> set ?ms \<longleftrightarrow> (\<exists>k. memberMap n k = Some m) \<and> NodeType m = ty" for m
    using range_order_member [OF assms(1)] by (auto simp: set_ListByType)
  have pick: "Random f ents ty = (if ?ms = [] then None else Some (?ms ! f (length ?ms)))"
    if "\<And>l. 0 < l \<Longrightarrow> f l < l" for f
    using that [of 1] by (auto simp: Random_def)
  have "(case Random intn ents ty of
            Some m \<Rightarrow> NodeType m = ty \<and> (\<exists>k. memberMap n k = Some m)
          | None \<Rightarrow> (\<forall>k m. memberMap n k = Some m \<longrightarrow> NodeType m \<noteq> ty))"
  proof (cases "?ms = []")
    case True
    then show ?thesis using mem pick [OF assms(2)] by auto
  next
    case False
    then have "?ms ! intn (length ?ms) \<in> set ?ms" using assms(2) by simp
    then show ?thesis using False mem pick [OF assms(2)] by auto
  qed
  moreover have "\<exists>f. (\<forall>l. 0 < l \<longrightarrow> f l < l) \<and> Random f ents ty = Some m"
    if m: "m \<in> set ?ms" for m
  proof -
    obtain i where i: "i < length ?ms" "?ms ! i = m" using m by (auto simp: in_set_conv_nth)
    have lt: "min i (l - 1) < l" if "0 < l" for l using that by simp
    have "Random (\<lambda>l. min i (l - 1)) ents ty = Some (?ms ! i)"
      using i(1) pick [OF lt] by (auto simp: min_def)
    with i(2) lt show ?thesis by (intro exI [of _ "\<lambda>l. min i (l - 1)"]) simp
  qed
  ultimately show ?thesis using mem by (intro conjI allI impI) blast+
qed

definition sample_members :: "(string \<times> Member) list" where
  "sample_members =
     [(''gate1'', \<lparr>NodeId = ''gate1'', NodeType = ''gate'', Address = []\<rparr>),
      (''auth1'', \<lparr>NodeId = ''auth1'', NodeType = ''auth'', Address = []\<rparr>)]"

theorem Random_correct_witness:
  "Random (\<lambda>_. 0) sample_members ''auth'' =
     Some \<lparr>NodeId = ''auth1'', NodeType = ''auth'', Address = []\<rparr> \<and>
   NodeType (the (Random (\<lambda>_. 0) sample_members ''auth'')) = ''auth'' \<and>
   Random (\<lambda>_. 0) sample_members ''game'' = None"
proof -
  have "range_order sample_members (empty_discovery\<lparr>memberMap := map_of sample_members\<rparr>)"
    by (simp add: range_order_def sample_members_def)
  from Random_correct [OF this, of "\<lambda>_. 0" "''auth''"] show ?thesis
    by (simp add: sample_members_def Random_def)
qed

text \<open>
  \<open>GetType\<close>, by which the cluster finds where to send: for the id of a member it
  gives that member's type, for every other id, and for the empty id, the error with the id.
\<close>

theorem GetType_spec:
  "GetType n k =
     (if k \<noteq> [] \<and> memberMap n k \<noteq> None then Inr (NodeType (the (memberMap n k)))
      else Inl (Err (''nodeId = '' @ k @ '' not found.'')))"
  by (auto simp: GetType_def GetMember_def Errorf_def fmt_verb_def)

end
