(* ===== verification/Requester.thy ===== *)
theory Requester
  imports Registry
begin

text \<open>
  \<^verbatim>\<open>framework/pkg/cluster/requester.go\<close>: the table of callbacks of pending requests and
  the blocking request. \<open>registerCallback\<close> and \<open>unregisterCallback\<close> hold the mutex for
  the whole call, so each is one step. \<open>'c\<close> stands for the callbacks of the callers.
  The two request functions that send are with the cluster; here is the protocol between
  the goroutine that waits in \<open>requestWait\<close> and the worker that runs the callback.
\<close>

section \<open>The table of callbacks\<close>

record 'c requester =
  handlers :: "u32 \<Rightarrow> 'c option"
  mid :: u32

definition newRpcHandlerMgr :: "'c requester" where
  "newRpcHandlerMgr = \<lparr>handlers = Map.empty, mid = 0\<rparr>"

definition registerCallback :: "'c option \<Rightarrow> 'c requester \<Rightarrow> u32 \<times> 'c requester" where
  "registerCallback h p =
     (case h of
        None \<Rightarrow> (0, p)
      | Some cb \<Rightarrow>
          let m = mid p + 1
          in (m, p\<lparr>mid := m, handlers := (handlers p)(m \<mapsto> cb)\<rparr>))"

definition unregisterCallback :: "u32 \<Rightarrow> 'c requester \<Rightarrow> 'c requester" where
  "unregisterCallback m p = p\<lparr>handlers := (handlers p)(m := None)\<rparr>"

definition nil_call_text :: string where
  "nil_call_text = ''runtime error: invalid memory address or nil pointer dereference''"

text \<open>
  The function that \<open>getCallback(mid)\<close> returns: it looks the callback up when it is
  called, without the lock; calling the nil function of a missing entry panics; the entry
  goes away only after the callback has returned. Here it runs on its own; where goroutines
  interleave (Network) the look-up and the removal are steps apart. The state \<open>'s\<close> around
  the requester is what callbacks can change, read and written through \<open>get\<close> and \<open>put\<close>.
\<close>

definition find_callback :: "u32 \<Rightarrow> 'c requester \<Rightarrow> 'c option" where
  [simp]: "find_callback m p = handlers p m"

definition getCallback ::
    "('s \<Rightarrow> 'c requester) \<Rightarrow> (('c requester \<Rightarrow> 'c requester) \<Rightarrow> 's \<Rightarrow> 's) \<Rightarrow>
     ('c \<Rightarrow> 'm \<Rightarrow> error option \<Rightarrow> ('s, unit) proc) \<Rightarrow>
     u32 \<Rightarrow> 'm \<Rightarrow> error option \<Rightarrow> ('s, unit) proc" where
  "getCallback get put call m response err s =
     (case find_callback m (get s) of
        None \<Rightarrow> (s, Panic nil_call_text)
      | Some cb \<Rightarrow>
          seq_proc (call cb response err) (\<lambda>_ s'. (put (unregisterCallback m) s', Ret ())) s)"

section \<open>The table as an interface\<close>

text \<open>What the cluster's request and response paths rely on.\<close>

locale callback_table =
  fixes lookup :: "'p \<Rightarrow> u32 \<Rightarrow> 'c option"
    and add :: "'c \<Rightarrow> 'p \<Rightarrow> u32 \<times> 'p"
    and drop_cb :: "u32 \<Rightarrow> 'p \<Rightarrow> 'p"
    and counter :: "'p \<Rightarrow> u32"
  assumes lookup_add: "lookup (snd (add cb p)) = (lookup p)(fst (add cb p) \<mapsto> cb)"
    and fst_add: "fst (add cb p) = counter p + 1"
    and counter_add: "counter (snd (add cb p)) = counter p + 1"
    and lookup_drop: "lookup (drop_cb m p) = (lookup p)(m := None)"
    and counter_drop: "counter (drop_cb m p) = counter p"
begin

fun add_all :: "'c list \<Rightarrow> 'p \<Rightarrow> u32 list \<times> 'p" where
  "add_all [] p = ([], p)"
| "add_all (cb # cbs) p =
     (case add cb p of (m, p1) \<Rightarrow> case add_all cbs p1 of (ms, p2) \<Rightarrow> (m # ms, p2))"

lemma add_all_mids:
  "fst (add_all cbs p) = map (\<lambda>i. counter p + 1 + of_nat i) [0..<length cbs] \<and>
   counter (snd (add_all cbs p)) = counter p + of_nat (length cbs)"
proof (induction cbs arbitrary: p)
  case (Cons cb cbs)
  have "fst (add cb p) # map (\<lambda>i. counter p + 1 + 1 + of_nat i) [0..<length cbs] =
      map (\<lambda>i. counter p + 1 + of_nat i) [0..<Suc (length cbs)]"
    by (simp add: fst_add map_upt_Suc del: upt_Suc)
  then show ?case
    using Cons.IH [of "snd (add cb p)"]
    by (auto simp: counter_add split: prod.split simp del: upt_Suc)
qed simp

lemma mids_distinct:
  assumes "length cbs \<le> 2 ^ 32"
  shows "distinct (fst (add_all cbs p))"
proof -
  have "i = j" if "i < length cbs" "j < length cbs"
    "counter p + 1 + of_nat i = counter p + 1 + (of_nat j :: u32)" for i j
    using that assms by (intro of_nat_u32_inj) auto
  then show ?thesis by (auto simp: add_all_mids distinct_conv_nth)
qed

lemma lookup_add_all:
  "distinct (fst (add_all cbs p)) \<Longrightarrow>
   lookup (snd (add_all cbs p)) = lookup p ++ map_of (zip (fst (add_all cbs p)) cbs)"
proof (induction cbs arbitrary: p)
  case (Cons cb cbs)
  obtain m p1 where m: "add cb p = (m, p1)" by (cases "add cb p")
  obtain ms p2 where ms: "add_all cbs p1 = (ms, p2)" by (cases "add_all cbs p1")
  have len: "length ms = length cbs"
    using arg_cong [OF conjunct1 [OF add_all_mids [of cbs p1]], of length] ms by simp
  have "m \<notin> dom (map_of (zip ms cbs))"
    using Cons.prems m ms by (auto simp: dom_map_of_conv_image_fst dest: set_zip_leftD)
  then have "(lookup p)(m \<mapsto> cb) ++ map_of (zip ms cbs) =
      (lookup p ++ map_of (zip ms cbs))(m \<mapsto> cb)"
    by (rule map_add_upd_left)
  moreover have "lookup p1 = (lookup p)(m \<mapsto> cb)" using lookup_add [of cb p] m by simp
  moreover have "lookup p2 = lookup p1 ++ map_of (zip ms cbs)"
    using Cons.IH [of p1] Cons.prems m ms by simp
  ultimately have "lookup p2 = (lookup p ++ map_of (zip ms cbs))(m \<mapsto> cb)" by metis
  then show ?case using m ms by (simp only: add_all.simps prod.case fst_conv snd_conv
        zip_Cons_Cons map_of.simps map_add_upd)
qed simp

text \<open>The pending callbacks of fewer than \<open>2 ^ 32\<close> requests are all found.\<close>

lemma lookup_pending:
  assumes "length cbs \<le> 2 ^ 32" "i < length cbs"
  shows "lookup (snd (add_all cbs p)) (fst (add_all cbs p) ! i) = Some (cbs ! i)"
proof -
  have "length (fst (add_all cbs p)) = length cbs" by (simp add: add_all_mids)
  then have "map_of (zip (fst (add_all cbs p)) cbs) (fst (add_all cbs p) ! i) = Some (cbs ! i)"
    using assms mids_distinct [OF assms(1), of p] by (simp add: map_of_zip_nth)
  then show ?thesis
    using lookup_add_all [OF mids_distinct [OF assms(1), of p]] by simp
qed

text \<open>The \<open>2 ^ 32\<close>-th registration after a request takes over its id.\<close>

lemma counter_wraps:
  assumes "length cbs + 1 = 2 ^ 32"
  shows "fst (add cb' (snd (add_all cbs p))) = counter p"
proof -
  have "of_nat (length cbs) + 1 = (of_nat (length cbs + 1) :: u32)" by simp
  also have "\<dots> = 0" unfolding assms by (rule of_nat_2_32)
  finally have "of_nat (length cbs) + 1 = (0 :: u32)" .
  then show ?thesis using add_all_mids [of cbs p] by (simp add: fst_add add.assoc)
qed

lemma add_drop:
  "lookup p (counter p + 1) = None \<Longrightarrow>
   lookup (drop_cb (counter p + 1) (snd (add cb p))) = lookup p"
  by (auto simp: lookup_drop lookup_add fst_add)

end

interpretation rq: callback_table handlers "\<lambda>cb p. registerCallback (Some cb) p"
    unregisterCallback mid
  by unfold_locales (simp_all add: registerCallback_def unregisterCallback_def)

section \<open>Properties of the table\<close>

fun register_callbacks :: "'c list \<Rightarrow> 'c requester \<Rightarrow> u32 list \<times> 'c requester" where
  "register_callbacks [] p = ([], p)"
| "register_callbacks (cb # cbs) p =
     (case registerCallback (Some cb) p of (m, p1) \<Rightarrow>
      case register_callbacks cbs p1 of (ms, p2) \<Rightarrow> (m # ms, p2))"

lemma register_callbacks_eq: "register_callbacks cbs p = rq.add_all cbs p"
  by (induction cbs arbitrary: p) simp_all

text \<open>
  Up to \<open>2 ^ 32\<close> registrations in a row get pairwise different ids, and each of
  their callbacks is found under its own id, so responses cannot reach the wrong caller.
\<close>

theorem pending_mids_unique:
  assumes "length cbs \<le> 2 ^ 32" and "register_callbacks cbs p = (ms, p')"
  shows "distinct ms \<and> length ms = length cbs \<and>
    (\<forall>i < length cbs. handlers p' (ms ! i) = Some (cbs ! i))"
proof -
  have "ms = fst (rq.add_all cbs p)" "p' = snd (rq.add_all cbs p)"
    using assms(2) by (simp_all add: register_callbacks_eq)
  then show ?thesis
    using rq.mids_distinct [OF assms(1), of p] rq.lookup_pending [OF assms(1), of _ p]
    by (simp add: rq.add_all_mids)
qed

theorem pending_mids_unique_witness:
  "\<exists>p'. register_callbacks [''a'', ''b''] newRpcHandlerMgr = ([1, 2], p') \<and> distinct [1 :: u32, 2] \<and>
     handlers p' 2 = Some ''b''"
proof -
  obtain p' where r: "register_callbacks [''a'', ''b''] newRpcHandlerMgr = ([1, 2], p')"
    by (simp add: registerCallback_def newRpcHandlerMgr_def)
  have "\<forall>i < length [''a'', ''b'']. handlers p' ([1, 2] ! i) = Some ([''a'', ''b''] ! i)"
    using pending_mids_unique [OF _ r] by (simp del: All_less_Suc)
  then have "handlers p' ([1, 2] ! 1) = Some ([''a'', ''b''] ! 1)" by (rule allE [of _ 1]) simp
  with r show ?thesis by simp
qed

text \<open>
  The id counter wraps around. After \<open>2 ^ 32 - 1\<close> further registrations the next one
  gets the id of a request that may still be pending, and its callback replaces that
  request's callback.
\<close>

theorem mid_wrap_overwrites:
  assumes "registerCallback (Some cb) p = (m, p1)" and "length cbs + 1 = 2 ^ 32"
  shows "registerCallback (Some cb') (snd (register_callbacks cbs p1)) =
      (m, snd (registerCallback (Some cb') (snd (register_callbacks cbs p1)))) \<and>
    handlers p1 m = Some cb \<and>
    handlers (snd (registerCallback (Some cb') (snd (register_callbacks cbs p1)))) m = Some cb'"
proof -
  have m: "m = mid p1" "handlers p1 m = Some cb"
    using assms(1) by (auto simp: registerCallback_def)
  have f: "fst (registerCallback (Some cb') (snd (register_callbacks cbs p1))) = m"
    using rq.counter_wraps [OF assms(2)] m(1) by (simp add: register_callbacks_eq)
  then show ?thesis
    using m(2) rq.lookup_add [of cb' "snd (register_callbacks cbs p1)"]
    by (simp add: prod_eq_iff)
qed

theorem mid_wrap_overwrites_witness:
  "let p1 = snd (registerCallback (Some ''first'') newRpcHandlerMgr);
       p2 = snd (register_callbacks (replicate (2 ^ 32 - 1) ''x'') p1)
   in handlers p1 1 = Some ''first'' \<and>
      handlers (snd (registerCallback (Some ''last'') p2)) 1 = Some ''last''"
proof -
  have r: "registerCallback (Some ''first'') newRpcHandlerMgr =
      (1, snd (registerCallback (Some ''first'') newRpcHandlerMgr))"
    by (simp add: registerCallback_def newRpcHandlerMgr_def)
  have "length (replicate (2 ^ 32 - 1) ''x'') + 1 = 2 ^ 32"
    unfolding length_replicate by simp
  from mid_wrap_overwrites [OF r this, of "''last''"] show ?thesis
    unfolding Let_def by blast
qed

section \<open>The blocking request\<close>

text \<open>
  After a successful send, \<open>requestWait\<close> selects between the timer and an unbuffered
  channel. The callback it has registered runs in the worker: it sends the response on that
  channel, which completes only when the waiter is still in its select, and then
  \<open>getCallback\<close> unregisters the id. The steps interleave the two goroutines.
\<close>

datatype 'm waiter = Selecting | WaitReturned "'m result"

datatype 'm responder = RespFree | RespSending 'm | RespUnregister | RespPanicked

record 'm wait_state =
  table :: "unit requester"
  waiter :: "'m waiter"
  responder :: "'m responder"

definition wait_timeout_text :: string where
  "wait_timeout_text = ''request wait timeout''"

definition requestWait_registered :: "unit requester \<Rightarrow> u32 \<times> 'm wait_state" where
  "requestWait_registered p =
     (case registerCallback (Some ()) p of
        (m, p1) \<Rightarrow> (m, \<lparr>table = p1, waiter = Selecting, responder = RespFree\<rparr>))"

inductive wait_step :: "u32 \<Rightarrow> 'm wait_state \<Rightarrow> 'm wait_state \<Rightarrow> bool" for m where
  timer_fires: "waiter s = Selecting \<Longrightarrow>
    wait_step m s (s\<lparr>waiter := WaitReturned (Inl (Errorf wait_timeout_text []))\<rparr>)"
| response_in: "\<lbrakk>responder s = RespFree; handlers (table s) m = Some cb\<rbrakk> \<Longrightarrow>
    wait_step m s (s\<lparr>responder := RespSending r\<rparr>)"
| response_unknown: "\<lbrakk>responder s = RespFree; handlers (table s) m = None\<rbrakk> \<Longrightarrow>
    wait_step m s (s\<lparr>responder := RespPanicked\<rparr>)"
| worker_restarts: "responder s = RespPanicked \<Longrightarrow>
    wait_step m s (s\<lparr>responder := RespFree\<rparr>)"
| hand_over: "\<lbrakk>waiter s = Selecting; responder s = RespSending r\<rbrakk> \<Longrightarrow>
    wait_step m s (s\<lparr>waiter := WaitReturned (Inr r), responder := RespUnregister\<rparr>)"
| unregister: "responder s = RespUnregister \<Longrightarrow>
    wait_step m s (s\<lparr>table := unregisterCallback m (table s), responder := RespFree\<rparr>)"

inductive_cases wait_stepE: "wait_step m s t"

definition wait_reach :: "unit requester \<Rightarrow> 'm wait_state \<Rightarrow> bool" where
  "wait_reach p s \<longleftrightarrow>
     (case requestWait_registered p of (m, s0) \<Rightarrow> (wait_step m)\<^sup>*\<^sup>* s0 s)"

text \<open>The table keeps the entry exactly until a response has been handed over.\<close>

definition wait_inv :: "u32 \<Rightarrow> 'm wait_state \<Rightarrow> bool" where
  "wait_inv m s \<longleftrightarrow>
     (case waiter s of
        Selecting \<Rightarrow> handlers (table s) m \<noteq> None \<and> responder s \<noteq> RespUnregister
      | WaitReturned (Inl e) \<Rightarrow> handlers (table s) m \<noteq> None \<and> responder s \<noteq> RespUnregister
      | WaitReturned (Inr r) \<Rightarrow>
          (case responder s of
             RespFree \<Rightarrow> handlers (table s) m = None
           | RespSending r' \<Rightarrow> False
           | RespUnregister \<Rightarrow> handlers (table s) m \<noteq> None
           | RespPanicked \<Rightarrow> handlers (table s) m = None))"

lemma wait_inv_step: "wait_inv m s \<Longrightarrow> wait_step m s t \<Longrightarrow> wait_inv m t"
  by (erule wait_stepE)
    (auto simp: wait_inv_def unregisterCallback_def split: waiter.splits sum.splits
      responder.splits)

lemma wait_inv_reach:
  assumes "wait_reach p s" "m = mid p + 1"
  shows "wait_inv m s"
proof -
  have "(wait_step m)\<^sup>*\<^sup>* (snd (requestWait_registered p)) s"
    using assms by (simp add: wait_reach_def requestWait_registered_def registerCallback_def)
  moreover have "wait_inv m (snd (requestWait_registered p))"
    using assms(2)
    by (simp add: wait_inv_def requestWait_registered_def registerCallback_def)
  ultimately show ?thesis by (induction rule: rtranclp_induct) (auto intro: wait_inv_step)
qed

text \<open>
  In every interleaving the table holds the entry of a blocking request that has not got
  a response, also after the time-out: no path of \<open>requestWait\<close> unregisters it. A request
  that got its response loses the entry once the worker is free again.
\<close>

theorem timed_out_request_leaks_callback:
  assumes "wait_reach p s"
  shows "case waiter s of
      Selecting \<Rightarrow> handlers (table s) (mid p + 1) \<noteq> None
    | WaitReturned (Inl e) \<Rightarrow> handlers (table s) (mid p + 1) \<noteq> None
    | WaitReturned (Inr r) \<Rightarrow> responder s = RespFree \<longrightarrow> handlers (table s) (mid p + 1) = None"
  using wait_inv_reach [OF assms refl]
  by (auto simp: wait_inv_def split: waiter.splits sum.splits responder.splits)

definition wait_timed_out :: "string wait_state" where
  "wait_timed_out = \<lparr>table = \<lparr>handlers = [1 \<mapsto> ()], mid = 1\<rparr>,
      waiter = WaitReturned (Inl (Errorf wait_timeout_text [])), responder = RespFree\<rparr>"

lemma wait_reach_timeout: "wait_reach newRpcHandlerMgr wait_timed_out"
proof -
  let ?s = "\<lparr>table = \<lparr>handlers = [1 \<mapsto> ()], mid = 1\<rparr>,
      waiter = Selecting, responder = RespFree\<rparr> :: string wait_state"
  have "wait_step 1 ?s wait_timed_out"
    using timer_fires [of ?s 1] by (simp add: wait_timed_out_def)
  then show ?thesis
    by (simp add: wait_reach_def requestWait_registered_def registerCallback_def
        newRpcHandlerMgr_def r_into_rtranclp)
qed

theorem timed_out_request_leaks_callback_witness:
  "wait_reach newRpcHandlerMgr wait_timed_out \<and> handlers (table wait_timed_out) 1 \<noteq> None"
proof -
  have "handlers (table wait_timed_out) (mid (newRpcHandlerMgr :: unit requester) + 1) \<noteq> None"
    using timed_out_request_leaks_callback [OF wait_reach_timeout]
    unfolding wait_timed_out_def wait_state.simps waiter.case sum.case .
  then show ?thesis
    using wait_reach_timeout by (simp add: newRpcHandlerMgr_def)
qed

text \<open>
  C36: A response that comes after the time-out is not refused. The callback is still in the
  table, so the worker runs it and blocks in the send on the unbuffered channel; from there
  no step is possible, and the worker handles nothing more.
\<close>

theorem late_response_blocks_worker:
  assumes "wait_reach p s" and "waiter s = WaitReturned (Inl e)" and "responder s = RespFree"
  shows "\<exists>t. wait_step (mid p + 1) s t \<and> responder t = RespSending r \<and>
    (\<forall>u. \<not> wait_step (mid p + 1) t u)"
proof (intro exI conjI)
  let ?t = "s\<lparr>responder := RespSending r\<rparr>"
  obtain cb where "handlers (table s) (mid p + 1) = Some cb"
    using wait_inv_reach [OF assms(1) refl] assms(2) by (auto simp: wait_inv_def)
  then show "wait_step (mid p + 1) s ?t" using assms(3) by (rule response_in [rotated])
  show "responder ?t = RespSending r" by simp
  show "\<forall>u. \<not> wait_step (mid p + 1) ?t u"
    using assms(2) by (auto elim!: wait_stepE)
qed

theorem late_response_blocks_worker_witness:
  "\<exists>t. wait_reach newRpcHandlerMgr wait_timed_out \<and> wait_step 1 wait_timed_out t \<and>
     responder t = RespSending ''late'' \<and> (\<forall>u. \<not> wait_step 1 t u)"
proof -
  have "\<exists>t. wait_step (mid (newRpcHandlerMgr :: unit requester) + 1) wait_timed_out t \<and>
      responder t = RespSending ''late'' \<and>
      (\<forall>u. \<not> wait_step (mid (newRpcHandlerMgr :: unit requester) + 1) t u)"
    by (rule late_response_blocks_worker [OF wait_reach_timeout])
      (simp_all add: wait_timed_out_def)
  then show ?thesis
    using wait_reach_timeout by (auto simp: newRpcHandlerMgr_def)
qed

end
