(* ===== verification/Channel.thy ===== *)
theory Channel
  imports Prelude
begin

text \<open>
  Go's buffered channels, which the worker, the agents and the cluster's subscription use:
  the values sent and not yet received, the capacity, whether the channel is closed. A send
  or a receive that has to wait is no step of the state; a send on a closed channel panics.
\<close>

record 'a chan =
  buf :: "'a list"
  cap :: nat
  isclosed :: bool

definition make_chan :: "nat \<Rightarrow> 'a chan" where
  "make_chan n = \<lparr>buf = [], cap = n, isclosed = False\<rparr>"

datatype 'a chan_send = Sent "'a chan" | SendWaits | SendPanics

definition chan_send :: "'a \<Rightarrow> 'a chan \<Rightarrow> 'a chan_send" where
  "chan_send x c =
     (if isclosed c then SendPanics
      else if length (buf c) < cap c then Sent (c\<lparr>buf := buf c @ [x]\<rparr>)
      else SendWaits)"

datatype 'a chan_recv = Received 'a "'a chan" | RecvWaits | RecvDrained

definition chan_recv :: "'a chan \<Rightarrow> 'a chan_recv" where
  "chan_recv c =
     (case buf c of
        x # xs \<Rightarrow> Received x (c\<lparr>buf := xs\<rparr>)
      | [] \<Rightarrow> if isclosed c then RecvDrained else RecvWaits)"

text \<open>Closing a closed channel panics.\<close>

definition chan_close :: "'a chan \<Rightarrow> 'a chan option" where
  "chan_close c = (if isclosed c then None else Some (c\<lparr>isclosed := True\<rparr>))"

lemma chan_send_Sent:
  "chan_send x c = Sent d \<longleftrightarrow>
   \<not> isclosed c \<and> length (buf c) < cap c \<and> d = c\<lparr>buf := buf c @ [x]\<rparr>"
  by (auto simp: chan_send_def)

lemma chan_send_Panics [simp]: "chan_send x c = SendPanics \<longleftrightarrow> isclosed c"
  by (simp add: chan_send_def)

lemma chan_recv_Received:
  "chan_recv c = Received x d \<longleftrightarrow> (\<exists>xs. buf c = x # xs \<and> d = c\<lparr>buf := xs\<rparr>)"
  by (auto simp: chan_recv_def split: list.split)

lemma chan_recv_Drained [simp]: "chan_recv c = RecvDrained \<longleftrightarrow> buf c = [] \<and> isclosed c"
  by (simp add: chan_recv_def split: list.split)

lemma chan_close_Some: "chan_close c = Some d \<longleftrightarrow> \<not> isclosed c \<and> d = c\<lparr>isclosed := True\<rparr>"
  by (auto simp: chan_close_def)

lemma make_chan_simps [simp]:
  "buf (make_chan n) = []" "cap (make_chan n) = n" "\<not> isclosed (make_chan n)"
  by (simp_all add: make_chan_def)

lemmas chan_simps = chan_send_Sent chan_recv_Received chan_close_Some

section \<open>Channels as an interface\<close>

text \<open>What the users of a channel rely on: order, no loss, and no send after closing.\<close>

datatype 'a chan_op = Send 'a | Recv | Close

locale fifo =
  fixes items :: "'c \<Rightarrow> 'a list"
    and bound :: "'c \<Rightarrow> nat"
    and shut :: "'c \<Rightarrow> bool"
    and put :: "'a \<Rightarrow> 'c \<Rightarrow> 'c option"
    and take_one :: "'c \<Rightarrow> ('a \<times> 'c) option"
    and close_it :: "'c \<Rightarrow> 'c option"
  assumes put_Some: "put x c = Some d \<Longrightarrow>
      items d = items c @ [x] \<and> length (items d) \<le> bound c \<and> bound d = bound c \<and>
      shut d = shut c \<and> \<not> shut c"
    and take_Some: "take_one c = Some (x, d) \<Longrightarrow>
      items c = x # items d \<and> bound d = bound c \<and> shut d = shut c"
    and close_Some: "close_it c = Some d \<Longrightarrow>
      items d = items c \<and> bound d = bound c \<and> shut d \<and> \<not> shut c"
begin

text \<open>Operations that are not possible leave the channel and count for nothing.\<close>

definition run_op :: "'a chan_op \<Rightarrow> 'c \<Rightarrow> 'a list \<times> 'a list \<times> 'c" where
  "run_op a c =
     (case a of
        Send x \<Rightarrow> (case put x c of None \<Rightarrow> ([], [], c) | Some d \<Rightarrow> ([x], [], d))
      | Recv \<Rightarrow> (case take_one c of None \<Rightarrow> ([], [], c) | Some (x, d) \<Rightarrow> ([], [x], d))
      | Close \<Rightarrow> (case close_it c of None \<Rightarrow> ([], [], c) | Some d \<Rightarrow> ([], [], d)))"

fun run_ops :: "'a chan_op list \<Rightarrow> 'c \<Rightarrow> 'a list \<times> 'a list \<times> 'c" where
  "run_ops [] c = ([], [], c)"
| "run_ops (a # ops) c =
     (case run_op a c of
        (ss, rs, d) \<Rightarrow> case run_ops ops d of (ss', rs', e) \<Rightarrow> (ss @ ss', rs @ rs', e))"

lemma run_op_facts:
  assumes "run_op a c = (ss, rs, d)"
  shows "items c @ ss = rs @ items d" and "bound d = bound c"
    and "length (items c) \<le> bound c \<Longrightarrow> length (items d) \<le> bound c"
    and "shut c \<Longrightarrow> ss = [] \<and> shut d"
  using assms
  by (auto simp: run_op_def split: chan_op.splits option.splits
      dest!: put_Some take_Some close_Some)

lemma ordered_no_loss: "run_ops ops c = (ss, rs, e) \<Longrightarrow> items c @ ss = rs @ items e"
proof (induction ops arbitrary: c ss rs)
  case (Cons a ops)
  obtain ss1 rs1 d where op: "run_op a c = (ss1, rs1, d)" by (cases "run_op a c")
  obtain ss2 rs2 where ops: "run_ops ops d = (ss2, rs2, e)" "ss = ss1 @ ss2" "rs = rs1 @ rs2"
    using Cons.prems op by (cases "run_ops ops d") auto
  have "items c @ ss = (items c @ ss1) @ ss2" using ops(2) by simp
  also have "\<dots> = rs1 @ items d @ ss2" using run_op_facts(1) [OF op] by simp
  also have "\<dots> = rs @ items e" using Cons.IH [OF ops(1)] ops(3) by simp
  finally show ?case .
qed simp

lemma stays_bounded:
  "length (items c) \<le> bound c \<Longrightarrow> run_ops ops c = (ss, rs, e) \<Longrightarrow> length (items e) \<le> bound c"
proof (induction ops arbitrary: c ss rs)
  case (Cons a ops)
  obtain ss1 rs1 d where op: "run_op a c = (ss1, rs1, d)" by (cases "run_op a c")
  obtain ss2 rs2 e' where ops: "run_ops ops d = (ss2, rs2, e)"
    using Cons.prems op by (cases "run_ops ops d") auto
  show ?case
    using Cons.IH [OF _ ops] Cons.prems run_op_facts(2,3) [OF op] by (simp add: op ops)
qed simp

lemma stays_shut: "shut c \<Longrightarrow> run_ops ops c = (ss, rs, e) \<Longrightarrow> ss = [] \<and> shut e"
proof (induction ops arbitrary: c ss rs)
  case (Cons a ops)
  obtain ss1 rs1 d where op: "run_op a c = (ss1, rs1, d)" by (cases "run_op a c")
  obtain ss2 rs2 e' where ops: "run_ops ops d = (ss2, rs2, e)"
    using Cons.prems op by (cases "run_ops ops d") auto
  show ?case
    using Cons.IH [OF _ ops] Cons.prems run_op_facts(4) [OF op] by (auto simp: op ops)
qed simp

end

definition chan_put :: "'a \<Rightarrow> 'a chan \<Rightarrow> 'a chan option" where
  "chan_put x c = (case chan_send x c of Sent d \<Rightarrow> Some d | _ \<Rightarrow> None)"

definition chan_take :: "'a chan \<Rightarrow> ('a \<times> 'a chan) option" where
  "chan_take c = (case chan_recv c of Received x d \<Rightarrow> Some (x, d) | _ \<Rightarrow> None)"

interpretation ch: fifo buf cap isclosed chan_put chan_take chan_close
  by unfold_locales
    (auto simp: chan_put_def chan_take_def chan_simps split: chan_send.splits chan_recv.splits)

end
