(* ===== verification/Worker.thy ===== *)
theory Worker
  imports Channel Util "HOL-Library.Multiset"
begin

text \<open>
  \<^verbatim>\<open>framework/pkg/worker/worker.go\<close> and \<^verbatim>\<open>component.go\<close>: a queue of functions run by
  the goroutines that \<open>Start\<close> spawns. The steps interleave the goroutines at their
  accesses to shared state: the atomics, the channel and the wait group. \<open>'t\<close> stands
  for the posted functions; the parameter \<open>ok\<close> says which of them return without a panic.
\<close>

section \<open>State\<close>

text \<open>
  A goroutine of \<open>Start\<close> waits at its channel, has received a function, runs it, or has
  ended (\<open>finiWg.Done\<close> included). A caller of \<open>Post\<close> has seen \<open>closed\<close> unset,
  or has also counted itself and is at the send. \<open>accepted\<close>, \<open>finished\<close>,
  \<open>starts\<close> and \<open>post_panics\<close> record what happened; the code does not keep them.
\<close>

datatype 't runner = RIdle | RGot 't | RRunning 't | RExited

datatype 't poster = PLoaded 't | PAdded 't

datatype stopper = NotStopping | StopClosing | StopWaiting | StopDone

record 't worker =
  closed :: bool
  fs :: "'t chan"
  len :: u32
  runners :: "'t runner list"
  posters :: "'t poster list"
  timers :: "'t list"
  stopper :: stopper
  accepted :: "'t list"
  finished :: "'t list"
  starts :: nat
  post_panics :: nat

definition NewWorker :: "int \<Rightarrow> 't worker outcome" where
  "NewWorker maxWorkerLen =
     (let n = (if maxWorkerLen = 0 then 1024 else maxWorkerLen)
      in if n < 0 then Panic ''makechan: size out of range''
         else Ret \<lparr>closed = False, fs = make_chan (nat n), len = 0, runners = [], posters = [],
                   timers = [], stopper = NotStopping, accepted = [], finished = [],
                   starts = 0, post_panics = 0\<rparr>)"

section \<open>Operations\<close>

text \<open>\<open>Post\<close>, up to the next access to shared state each.\<close>

definition Post_load :: "'t \<Rightarrow> 't worker \<Rightarrow> 't worker" where
  "Post_load f w = (if closed w then w else w\<lparr>posters := posters w @ [PLoaded f]\<rparr>)"

definition AfterPost :: "'t \<Rightarrow> 't worker \<Rightarrow> 't worker" where
  "AfterPost f w = w\<lparr>timers := timers w @ [f]\<rparr>"

definition Start :: "'t worker \<Rightarrow> 't worker" where
  "Start w = w\<lparr>runners := runners w @ [RIdle], starts := Suc (starts w)\<rparr>"

text \<open>The restart in the deferred function of a goroutine whose function panicked.\<close>

definition restart :: "'t worker \<Rightarrow> 't worker" where
  "restart w = w\<lparr>runners := runners w @ [RIdle]\<rparr>"

definition Len :: "'t worker \<Rightarrow> int" where
  "Len w = sint (len w)"

definition all_exited :: "'t worker \<Rightarrow> bool" where
  "all_exited w \<longleftrightarrow> (\<forall>r \<in> set (runners w). r = RExited)"

inductive worker_step :: "('t \<Rightarrow> bool) \<Rightarrow> 't worker \<Rightarrow> 't worker \<Rightarrow> bool" for ok where
  Post: "worker_step ok w (Post_load f w)"
| Post_add: "posters w = xs @ PLoaded f # ys \<Longrightarrow>
    worker_step ok w (w\<lparr>posters := xs @ PAdded f # ys, len := len w + 1\<rparr>)"
| Post_send: "\<lbrakk>posters w = xs @ PAdded f # ys; chan_send f (fs w) = Sent c\<rbrakk> \<Longrightarrow>
    worker_step ok w (w\<lparr>posters := xs @ ys, fs := c, accepted := accepted w @ [f]\<rparr>)"
| Post_panics: "\<lbrakk>posters w = xs @ PAdded f # ys; chan_send f (fs w) = SendPanics\<rbrakk> \<Longrightarrow>
    worker_step ok w (w\<lparr>posters := xs @ ys, post_panics := Suc (post_panics w)\<rparr>)"
| After: "worker_step ok w (AfterPost f w)"
| Timer: "timers w = xs @ f # ys \<Longrightarrow>
    worker_step ok w (Post_load f (w\<lparr>timers := xs @ ys\<rparr>))"
| Started: "worker_step ok w (Start w)"
| Receive: "\<lbrakk>runners w = xs @ RIdle # ys; chan_recv (fs w) = Received f c\<rbrakk> \<Longrightarrow>
    worker_step ok w (w\<lparr>runners := xs @ RGot f # ys, fs := c\<rparr>)"
| Count: "runners w = xs @ RGot f # ys \<Longrightarrow>
    worker_step ok w (w\<lparr>runners := xs @ RRunning f # ys, len := len w - 1\<rparr>)"
| Return: "\<lbrakk>runners w = xs @ RRunning f # ys; ok f\<rbrakk> \<Longrightarrow>
    worker_step ok w (w\<lparr>runners := xs @ RIdle # ys, finished := finished w @ [f]\<rparr>)"
| Crash: "\<lbrakk>runners w = xs @ RRunning f # ys; \<not> ok f\<rbrakk> \<Longrightarrow>
    worker_step ok w (restart (w\<lparr>runners := xs @ RExited # ys, finished := finished w @ [f]\<rparr>))"
| Drained: "\<lbrakk>runners w = xs @ RIdle # ys; chan_recv (fs w) = RecvDrained\<rbrakk> \<Longrightarrow>
    worker_step ok w (w\<lparr>runners := xs @ RExited # ys\<rparr>)"
| Stop_cas: "\<not> closed w \<Longrightarrow> worker_step ok w (w\<lparr>closed := True, stopper := StopClosing\<rparr>)"
| Stop_close: "\<lbrakk>stopper w = StopClosing; chan_close (fs w) = Some c\<rbrakk> \<Longrightarrow>
    worker_step ok w (w\<lparr>fs := c, stopper := StopWaiting\<rparr>)"
| Stop_wait: "\<lbrakk>stopper w = StopWaiting; all_exited w\<rbrakk> \<Longrightarrow>
    worker_step ok w (w\<lparr>stopper := StopDone\<rparr>)"

inductive_cases worker_stepE: "worker_step ok w w'"

definition worker_reach :: "('t \<Rightarrow> bool) \<Rightarrow> int \<Rightarrow> 't worker \<Rightarrow> bool" where
  "worker_reach ok n w \<longleftrightarrow> (\<exists>w0. NewWorker n = Ret w0 \<and> (worker_step ok)\<^sup>*\<^sup>* w0 w)"

lemma worker_induct [consumes 1, case_names init step]:
  assumes "worker_reach ok n w"
    and "\<And>w0. NewWorker n = Ret w0 \<Longrightarrow> I w0"
    and "\<And>w w'. worker_reach ok n w \<Longrightarrow> I w \<Longrightarrow> worker_step ok w w' \<Longrightarrow> I w'"
  shows "I w"
proof -
  obtain w0 where "NewWorker n = Ret w0" and "(worker_step ok)\<^sup>*\<^sup>* w0 w"
    using assms(1) by (auto simp: worker_reach_def)
  from this(2) show ?thesis
  proof (induction rule: rtranclp_induct)
    case base
    show ?case using assms(2) \<open>NewWorker n = Ret w0\<close> .
  next
    case (step y z)
    have "worker_reach ok n y"
      using \<open>NewWorker n = Ret w0\<close> step(1) by (auto simp: worker_reach_def)
    then show ?case using step assms(3) by blast
  qed
qed

lemma worker_reach_step: "worker_reach ok n w \<Longrightarrow> worker_step ok w w' \<Longrightarrow> worker_reach ok n w'"
  by (auto simp: worker_reach_def intro: rtranclp.rtrancl_into_rtrancl)

lemmas op_defs = Post_load_def AfterPost_def Start_def restart_def

section \<open>Invariants\<close>

fun in_hand :: "'t runner \<Rightarrow> 't list" where
  "in_hand (RGot f) = [f]"
| "in_hand (RRunning f) = [f]"
| "in_hand _ = []"

fun active :: "'t runner \<Rightarrow> bool" where
  "active RExited = False"
| "active _ = True"

fun uncounted :: "'t runner \<Rightarrow> bool" where
  "uncounted (RGot f) = True"
| "uncounted _ = False"

fun counted :: "'t poster \<Rightarrow> bool" where
  "counted (PAdded f) = True"
| "counted _ = False"

definition flying :: "'t worker \<Rightarrow> 't list" where
  "flying w = concat (map in_hand (runners w))"

definition actives :: "'t worker \<Rightarrow> nat" where
  "actives w = length (filter active (runners w))"

text \<open>No more live goroutines than calls of \<open>Start\<close>: a restart replaces the one that ended.\<close>

lemma actives_le_starts: "worker_reach ok n w \<Longrightarrow> actives w \<le> starts w"
proof (induction rule: worker_induct)
  case (init w0)
  then show ?case by (auto simp: NewWorker_def actives_def split: if_splits)
next
  case (step w w')
  from step(2,3) show ?case
    by (cases rule: worker_step.cases) (auto simp: op_defs actives_def)
qed

lemma length_flying_le: "length (flying w) \<le> actives w"
proof -
  have "length (concat (map in_hand rs)) \<le> length (filter active rs)" for rs :: "'a runner list"
  proof (induction rs)
    case (Cons r rs)
    then show ?case by (cases r) auto
  qed simp
  then show ?thesis by (simp add: flying_def actives_def)
qed

text \<open>With at most one \<open>Start\<close>, functions finish in the order the channel took them.\<close>

definition fifo_inv :: "'t worker \<Rightarrow> bool" where
  "fifo_inv w \<longleftrightarrow> accepted w = finished w @ flying w @ buf (fs w)"

lemma single_runner:
  assumes "actives w \<le> 1" and "runners w = xs @ r # ys" and "active r"
  shows "concat (map in_hand xs) = []" "concat (map in_hand ys) = []"
proof -
  have none: "in_hand r = []" if "\<not> active r" for r :: "'a runner"
    using that by (cases r) auto
  show "concat (map in_hand xs) = []" "concat (map in_hand ys) = []"
    using assms by (auto intro!: none simp: actives_def filter_empty_conv)
qed

lemma fifo_inv_step:
  assumes "worker_step ok w w'" and "fifo_inv w" and "actives w \<le> 1"
  shows "fifo_inv w'"
  using assms(1)
proof (cases rule: worker_step.cases)
  case (Receive xs ys f c)
  then show ?thesis using assms(2) single_runner [OF assms(3) Receive(2)]
    by (auto simp: fifo_inv_def flying_def chan_simps simp del: concat_eq_Nil_conv)
next
  case (Return xs f ys)
  then show ?thesis using assms(2) single_runner [OF assms(3) Return(2)]
    by (auto simp: fifo_inv_def flying_def simp del: concat_eq_Nil_conv)
next
  case (Crash xs f ys)
  then show ?thesis using assms(2) single_runner [OF assms(3) Crash(2)]
    by (auto simp: fifo_inv_def flying_def restart_def simp del: concat_eq_Nil_conv)
qed (use assms(2) in \<open>auto simp: fifo_inv_def flying_def op_defs chan_simps\<close>)

lemma starts_mono: "worker_step ok w w' \<Longrightarrow> starts w \<le> starts w'"
  by (erule worker_stepE) (auto simp: op_defs)

lemma fifo_inv_reach:
  "worker_reach ok n w \<Longrightarrow> starts w \<le> 1 \<Longrightarrow> fifo_inv w"
proof (induction rule: worker_induct)
  case (init w0)
  then show ?case by (auto simp: NewWorker_def fifo_inv_def flying_def split: if_splits)
next
  case (step w w')
  then have "starts w \<le> 1" using starts_mono le_trans by blast
  then show ?case
    using step fifo_inv_step actives_le_starts [OF step(1)] le_trans by blast
qed

text \<open>The channel is closed by \<open>Stop\<close> only, and goroutines end only when it is drained.\<close>

definition stop_inv :: "'t worker \<Rightarrow> bool" where
  "stop_inv w \<longleftrightarrow>
     (isclosed (fs w) \<longleftrightarrow> stopper w \<in> {StopWaiting, StopDone}) \<and>
     (closed w \<longleftrightarrow> stopper w \<noteq> NotStopping) \<and>
     (runners w \<noteq> [] \<longrightarrow> all_exited w \<longrightarrow> isclosed (fs w) \<and> buf (fs w) = []) \<and>
     (starts w = 0 \<longleftrightarrow> runners w = []) \<and>
     (\<not> isclosed (fs w) \<longrightarrow> actives w = starts w) \<and>
     mset (accepted w) = mset (finished w) + mset (flying w) + mset (buf (fs w))"

lemma stop_inv_step:
  assumes "worker_step ok w w'" and "stop_inv w"
  shows "stop_inv w'"
  using assms(1)
  by (cases rule: worker_step.cases)
    (use assms(2) in \<open>auto simp: stop_inv_def flying_def actives_def all_exited_def op_defs chan_simps\<close>)

lemma stop_inv_reach: "worker_reach ok n w \<Longrightarrow> stop_inv w"
proof (induction rule: worker_induct)
  case (init w0)
  then show ?case
    by (auto simp: NewWorker_def stop_inv_def flying_def actives_def split: if_splits)
next
  case (step w w')
  then show ?case using stop_inv_step by blast
qed

lemma all_exited_flying: "all_exited w \<Longrightarrow> flying w = []"
  by (auto simp: all_exited_def flying_def)

section \<open>Progress\<close>

text \<open>The work left: three steps for a function in the channel, two or one for one in hand.\<close>

fun runner_work :: "'t runner \<Rightarrow> nat" where
  "runner_work (RGot f) = 2"
| "runner_work (RRunning f) = 1"
| "runner_work _ = 0"

definition work :: "'t worker \<Rightarrow> nat" where
  "work w = 3 * length (buf (fs w)) + sum_list (map runner_work (runners w))"

lemma work_0: "work w = 0 \<Longrightarrow> buf (fs w) = [] \<and> flying w = []"
proof -
  have "in_hand r = []" if "runner_work r = 0" for r :: "'a runner" using that by (cases r) auto
  then show "work w = 0 \<Longrightarrow> buf (fs w) = [] \<and> flying w = []"
    by (auto simp: work_def flying_def)
qed

lemma progress:
  assumes "stop_inv w" and "0 < starts w" and "work w \<noteq> 0"
  shows "\<exists>w'. worker_step ok w w' \<and> work w' < work w \<and> accepted w' = accepted w \<and>
    starts w' = starts w"
proof (cases "\<exists>r \<in> set (runners w). runner_work r \<noteq> 0")
  case True
  then obtain xs r ys where rs: "runners w = xs @ r # ys" and "runner_work r \<noteq> 0"
    by (auto dest: split_list)
  then consider f where "r = RGot f" | f where "r = RRunning f" by (cases r) auto
  then show ?thesis
  proof cases
    case 1
    show ?thesis using Count [OF rs [unfolded 1]] rs 1 by (intro exI) (auto simp: work_def)
  next
    case 2
    show ?thesis
    proof (cases "ok f")
      case True
      then show ?thesis using Return [OF rs [unfolded 2]] rs 2 by (intro exI) (auto simp: work_def)
    next
      case False
      then show ?thesis using Crash [OF rs [unfolded 2]] rs 2
        by (intro exI) (auto simp: work_def restart_def)
    qed
  qed
next
  case False
  then have "sum_list (map runner_work (runners w)) = 0" by (auto simp: sum_list_eq_0_iff)
  then have "buf (fs w) \<noteq> []" using assms(3) by (auto simp: work_def)
  then obtain f fs' where b: "buf (fs w) = f # fs'" by (cases "buf (fs w)") auto
  have "\<not> all_exited w" using assms b by (auto simp: stop_inv_def)
  then obtain r where "r \<in> set (runners w)" "r \<noteq> RExited" by (auto simp: all_exited_def)
  with False have "RIdle \<in> set (runners w)" by (cases r) auto
  then obtain xs ys where rs: "runners w = xs @ RIdle # ys" by (auto dest: split_list)
  have "chan_recv (fs w) = Received f (fs w\<lparr>buf := fs'\<rparr>)" by (simp add: chan_simps b)
  then show ?thesis using Receive [OF rs] rs b by (intro exI) (auto simp: work_def)
qed

lemma drains:
  "worker_reach ok n w \<Longrightarrow> 0 < starts w \<Longrightarrow>
   \<exists>w'. (worker_step ok)\<^sup>*\<^sup>* w w' \<and> worker_reach ok n w' \<and> accepted w' = accepted w \<and> work w' = 0"
proof (induction "work w" arbitrary: w rule: less_induct)
  case less
  show ?case
  proof (cases "work w = 0")
    case False
    obtain w1 where w1: "worker_step ok w w1" "work w1 < work w" "accepted w1 = accepted w"
        "starts w1 = starts w"
      using progress [OF stop_inv_reach [OF less(2)] less(3) False] by blast
    obtain w' where "(worker_step ok)\<^sup>*\<^sup>* w1 w'" "worker_reach ok n w'"
        "accepted w' = accepted w1" "work w' = 0"
      using less(1) [OF w1(2) worker_reach_step [OF less(2) w1(1)]] less(3) w1(4) by auto
    then show ?thesis using w1 by (auto intro: converse_rtranclp_into_rtranclp)
  qed (use less in auto)
qed

section \<open>Concrete runs\<close>

text \<open>States without timers, of a channel of four, for the runs below.\<close>

definition wk :: "bool \<Rightarrow> 't list \<Rightarrow> bool \<Rightarrow> u32 \<Rightarrow> 't runner list \<Rightarrow> 't poster list \<Rightarrow> stopper \<Rightarrow>
    't list \<Rightarrow> 't list \<Rightarrow> nat \<Rightarrow> 't worker" where
  "wk c b cc l rs ps st acc fin n =
     \<lparr>closed = c, fs = \<lparr>buf = b, cap = 4, isclosed = cc\<rparr>, len = l, runners = rs, posters = ps,
      timers = [], stopper = st, accepted = acc, finished = fin, starts = n, post_panics = 0\<rparr>"

lemmas wk_sel = wk_def op_defs chan_simps all_exited_def

lemma wk_step: "worker_step ok w w1 \<Longrightarrow> w1 = w2 \<Longrightarrow> worker_step ok w w2"
  by simp

lemma two_running: "worker_reach ok 4 (wk False [] False 0 [RRunning a, RRunning b] [] NotStopping [a, b] [] 2)"
proof -
  have "worker_reach ok 4 (wk False [] False 0 [] [] NotStopping [] [] 0)"
    by (simp add: worker_reach_def NewWorker_def wk_def make_chan_def)
  then have "worker_reach ok 4 (wk False [] False 0 [RIdle] [] NotStopping [] [] 1)"
    by (rule worker_reach_step) (rule wk_step [OF Started], simp_all add: wk_sel)
  then have "worker_reach ok 4 (wk False [] False 0 [RIdle, RIdle] [] NotStopping [] [] 2)"
    by (rule worker_reach_step) (rule wk_step [OF Started], simp_all add: wk_sel)
  then have "worker_reach ok 4 (wk False [] False 0 [RIdle, RIdle] [PLoaded a] NotStopping [] [] 2)"
    by (rule worker_reach_step) (rule wk_step [OF Post [of _ _ a]], simp_all add: wk_sel)
  then have "worker_reach ok 4 (wk False [] False 1 [RIdle, RIdle] [PAdded a] NotStopping [] [] 2)"
    by (rule worker_reach_step) (rule wk_step [OF Post_add [of _ "[]" a "[]"]], simp_all add: wk_sel)
  then have "worker_reach ok 4 (wk False [a] False 1 [RIdle, RIdle] [] NotStopping [a] [] 2)"
    by (rule worker_reach_step) (rule wk_step [OF Post_send [of _ "[]" a "[]"]], simp_all add: wk_sel)
  then have "worker_reach ok 4 (wk False [a] False 1 [RIdle, RIdle] [PLoaded b] NotStopping [a] [] 2)"
    by (rule worker_reach_step) (rule wk_step [OF Post [of _ _ b]], simp_all add: wk_sel)
  then have "worker_reach ok 4 (wk False [a] False 2 [RIdle, RIdle] [PAdded b] NotStopping [a] [] 2)"
    by (rule worker_reach_step) (rule wk_step [OF Post_add [of _ "[]" b "[]"]], simp_all add: wk_sel)
  then have "worker_reach ok 4 (wk False [a, b] False 2 [RIdle, RIdle] [] NotStopping [a, b] [] 2)"
    by (rule worker_reach_step) (rule wk_step [OF Post_send [of _ "[]" b "[]"]], simp_all add: wk_sel)
  then have "worker_reach ok 4 (wk False [b] False 2 [RGot a, RIdle] [] NotStopping [a, b] [] 2)"
    by (rule worker_reach_step) (rule wk_step [OF Receive [of _ "[]" "[RIdle]" a]], simp_all add: wk_sel)
  then have "worker_reach ok 4 (wk False [] False 2 [RGot a, RGot b] [] NotStopping [a, b] [] 2)"
    by (rule worker_reach_step) (rule wk_step [OF Receive [of _ "[RGot a]" "[]" b]], simp_all add: wk_sel)
  then have "worker_reach ok 4 (wk False [] False 1 [RRunning a, RGot b] [] NotStopping [a, b] [] 2)"
    by (rule worker_reach_step) (rule wk_step [OF Count [of _ "[]" a "[RGot b]"]], simp_all add: wk_sel)
  then show ?thesis
    by (rule worker_reach_step) (rule wk_step [OF Count [of _ "[RRunning a]" b "[]"]], simp_all add: wk_sel)
qed

lemma after_crash: "worker_reach id 4 (wk False [True] False 1 [RExited, RIdle] [] NotStopping [False, True] [False] 1)"
proof -
  have "worker_reach id 4 (wk False [] False 0 [] [] NotStopping [] [] 0)"
    by (simp add: worker_reach_def NewWorker_def wk_def make_chan_def)
  then have "worker_reach id 4 (wk False [] False 0 [RIdle] [] NotStopping [] [] 1)"
    by (rule worker_reach_step) (rule wk_step [OF Started], simp_all add: wk_sel)
  then have "worker_reach id 4 (wk False [] False 0 [RIdle] [PLoaded False] NotStopping [] [] 1)"
    by (rule worker_reach_step) (rule wk_step [OF Post [of _ _ "False"]], simp_all add: wk_sel)
  then have "worker_reach id 4 (wk False [] False 1 [RIdle] [PAdded False] NotStopping [] [] 1)"
    by (rule worker_reach_step) (rule wk_step [OF Post_add [of _ "[]" False "[]"]], simp_all add: wk_sel)
  then have "worker_reach id 4 (wk False [False] False 1 [RIdle] [] NotStopping [False] [] 1)"
    by (rule worker_reach_step) (rule wk_step [OF Post_send [of _ "[]" False "[]"]], simp_all add: wk_sel)
  then have "worker_reach id 4 (wk False [] False 1 [RGot False] [] NotStopping [False] [] 1)"
    by (rule worker_reach_step) (rule wk_step [OF Receive [of _ "[]" "[]" False]], simp_all add: wk_sel)
  then have "worker_reach id 4 (wk False [] False 0 [RRunning False] [] NotStopping [False] [] 1)"
    by (rule worker_reach_step) (rule wk_step [OF Count [of _ "[]" False "[]"]], simp_all add: wk_sel)
  then have "worker_reach id 4 (wk False [] False 0 [RExited, RIdle] [] NotStopping [False] [False] 1)"
    by (rule worker_reach_step) (rule wk_step [OF Crash [of _ "[]" False "[]"]], simp_all add: wk_sel)
  then have "worker_reach id 4 (wk False [] False 0 [RExited, RIdle] [PLoaded True] NotStopping [False] [False] 1)"
    by (rule worker_reach_step) (rule wk_step [OF Post [of _ _ "True"]], simp_all add: wk_sel)
  then have "worker_reach id 4 (wk False [] False 1 [RExited, RIdle] [PAdded True] NotStopping [False] [False] 1)"
    by (rule worker_reach_step) (rule wk_step [OF Post_add [of _ "[]" True "[]"]], simp_all add: wk_sel)
  then show ?thesis
    by (rule worker_reach_step) (rule wk_step [OF Post_send [of _ "[]" True "[]"]], simp_all add: wk_sel)
qed

lemma all_done: "worker_reach id 4 (wk True [] True 0 [RExited, RExited] [] StopWaiting [False, True] [False, True] 1)"
proof -
  note after_crash
  then have "worker_reach id 4 (wk False [] False 1 [RExited, RGot True] [] NotStopping [False, True] [False] 1)"
    by (rule worker_reach_step) (rule wk_step [OF Receive [of _ "[RExited]" "[]" True]], simp_all add: wk_sel)
  then have "worker_reach id 4 (wk False [] False 0 [RExited, RRunning True] [] NotStopping [False, True] [False] 1)"
    by (rule worker_reach_step) (rule wk_step [OF Count [of _ "[RExited]" True "[]"]], simp_all add: wk_sel)
  then have "worker_reach id 4 (wk False [] False 0 [RExited, RIdle] [] NotStopping [False, True] [False, True] 1)"
    by (rule worker_reach_step) (rule wk_step [OF Return [of _ "[RExited]" True "[]"]], simp_all add: wk_sel)
  then have "worker_reach id 4 (wk True [] False 0 [RExited, RIdle] [] StopClosing [False, True] [False, True] 1)"
    by (rule worker_reach_step) (rule wk_step [OF Stop_cas], simp_all add: wk_sel)
  then have "worker_reach id 4 (wk True [] True 0 [RExited, RIdle] [] StopWaiting [False, True] [False, True] 1)"
    by (rule worker_reach_step) (rule wk_step [OF Stop_close], simp_all add: wk_sel)
  then show ?thesis
    by (rule worker_reach_step) (rule wk_step [OF Drained [of _ "[RExited]" "[]"]], simp_all add: wk_sel)
qed

lemma post_against_stop: "worker_reach ok 4 (wk True [] True 1 [RIdle] [PAdded a] StopWaiting [] [] 1)"
proof -
  have "worker_reach ok 4 (wk False [] False 0 [] [] NotStopping [] [] 0)"
    by (simp add: worker_reach_def NewWorker_def wk_def make_chan_def)
  then have "worker_reach ok 4 (wk False [] False 0 [RIdle] [] NotStopping [] [] 1)"
    by (rule worker_reach_step) (rule wk_step [OF Started], simp_all add: wk_sel)
  then have "worker_reach ok 4 (wk False [] False 0 [RIdle] [PLoaded a] NotStopping [] [] 1)"
    by (rule worker_reach_step) (rule wk_step [OF Post [of _ _ a]], simp_all add: wk_sel)
  then have "worker_reach ok 4 (wk True [] False 0 [RIdle] [PLoaded a] StopClosing [] [] 1)"
    by (rule worker_reach_step) (rule wk_step [OF Stop_cas], simp_all add: wk_sel)
  then have "worker_reach ok 4 (wk True [] False 1 [RIdle] [PAdded a] StopClosing [] [] 1)"
    by (rule worker_reach_step) (rule wk_step [OF Post_add [of _ "[]" a "[]"]], simp_all add: wk_sel)
  then show ?thesis
    by (rule worker_reach_step) (rule wk_step [OF Stop_close], simp_all add: wk_sel)
qed

definition wk_crashed :: "bool worker" where
  "wk_crashed = wk False [True] False 1 [RExited, RIdle] [] NotStopping [False, True] [False] 1"

lemma wk_crashed_reach: "worker_reach id 4 wk_crashed"
  unfolding wk_crashed_def by (rule after_crash)

lemmas wk_crashed_sel = wk_crashed_def wk_def

section \<open>Properties\<close>

text \<open>
  After a single \<open>Start\<close> the worker is sequential. In every interleaving with any
  number of callers of \<open>Post\<close>, the functions accepted so far are the finished ones, then
  at most one in hand, then those still in the channel, in this order; panics lose none.
\<close>

theorem single_start_sequential:
  assumes "worker_reach ok n w" and "starts w \<le> 1"
  shows "accepted w = finished w @ flying w @ buf (fs w) \<and> length (flying w) \<le> 1"
  using fifo_inv_reach [OF assms] actives_le_starts [OF assms(1)] assms(2)
    length_flying_le [of w]
  by (simp add: fifo_inv_def)

theorem single_start_sequential_witness:
  "accepted wk_crashed = [False, True] \<and> finished wk_crashed = [False] \<and>
   accepted wk_crashed = finished wk_crashed @ flying wk_crashed @ buf (fs wk_crashed)"
  using single_start_sequential [OF wk_crashed_reach] by (simp add: wk_crashed_sel)

text \<open>
  A panic of a posted function does not cost the worker a goroutine. While the channel
  is open there are as many live goroutines as there were calls of \<open>Start\<close>.
\<close>

theorem panic_restarts:
  assumes "worker_reach ok n w" and "\<not> isclosed (fs w)"
  shows "actives w = starts w"
  using stop_inv_reach [OF assms(1)] assms(2) by (simp add: stop_inv_def)

theorem panic_restarts_witness:
  "finished wk_crashed = [False] \<and> RExited \<in> set (runners wk_crashed) \<and> actives wk_crashed = 1"
  using panic_restarts [OF wk_crashed_reach] by (simp add: wk_crashed_sel)

text \<open>
  C24: \<open>Stop\<close> returns only when every function the channel accepted has finished, given
  that the worker was started at all.
\<close>

theorem Stop_drains:
  assumes "worker_reach ok n w" and "0 < starts w"
    and "stopper w = StopWaiting" and "worker_step ok w w'" and "stopper w' = StopDone"
  shows "mset (accepted w') = mset (finished w') \<and> buf (fs w') = [] \<and> flying w' = []"
proof -
  have w': "w' = w\<lparr>stopper := StopDone\<rparr>" and ex: "all_exited w"
    using assms(4,3,5) by (auto elim!: worker_stepE simp: op_defs split: if_splits)
  then show ?thesis
    using stop_inv_reach [OF assms(1)] assms(2) all_exited_flying [OF ex]
    by (simp add: stop_inv_def flying_def)
qed

theorem Stop_drains_witness:
  "\<exists>w w'. worker_reach id 4 w \<and> worker_step id w w' \<and> stopper w' = StopDone \<and>
     accepted w' = [False, True] \<and> mset (accepted w') = mset (finished w')"
proof -
  let ?w = "wk True [] True 0 [RExited, RExited] [] StopWaiting [False, True] [False, True] 1"
  let ?w' = "wk True [] True 0 [RExited, RExited] [] StopDone [False, True] [False, True] 1"
  have st: "worker_step id ?w ?w'" by (rule wk_step [OF Stop_wait]) (simp_all add: wk_sel)
  have "mset (accepted ?w') = mset (finished ?w')"
    using Stop_drains [OF all_done _ _ st] by (simp add: wk_def)
  then show ?thesis using all_done st by (intro exI [of _ ?w] exI [of _ ?w']) (simp add: wk_def)
qed

text \<open>
  \<open>Len\<close> counts more than the queue: the functions in the channel, those that a
  goroutine has received and not yet counted, the callers of \<open>Post\<close> at their send, and
  for good each caller whose send panicked.
\<close>

theorem len_counts:
  assumes "worker_reach ok n w"
  shows "len w = of_nat (length (buf (fs w)) + length (filter counted (posters w))
    + length (filter uncounted (runners w)) + post_panics w)"
  using assms
proof (induction rule: worker_induct)
  case (init w0)
  then show ?case by (auto simp: NewWorker_def split: if_splits)
next
  case (step w w')
  from step(2,3) show ?case
    by (cases rule: worker_step.cases) (auto simp: op_defs chan_simps algebra_simps)
qed

theorem len_counts_witness:
  "worker_reach id 4 wk_crashed \<and> buf (fs wk_crashed) = [True] \<and> len wk_crashed = 1"
  using len_counts [OF wk_crashed_reach] wk_crashed_reach by (simp add: wk_crashed_sel)

text \<open>
  C25: The worker can always go on. From every reachable state of a started worker, whatever
  panicked before, its goroutines can finish everything accepted without any other help.
\<close>

theorem accepted_can_finish:
  assumes "worker_reach ok n w" and "0 < starts w"
  shows "\<exists>w'. (worker_step ok)\<^sup>*\<^sup>* w w' \<and> accepted w' = accepted w \<and>
    mset (finished w') = mset (accepted w)"
proof -
  obtain w' where w': "(worker_step ok)\<^sup>*\<^sup>* w w'" "worker_reach ok n w'"
      "accepted w' = accepted w" "work w' = 0"
    using drains [OF assms] by blast
  moreover have "mset (accepted w') = mset (finished w')"
    using stop_inv_reach [OF w'(2)] work_0 [OF w'(4)] by (simp add: stop_inv_def)
  ultimately show ?thesis by auto
qed

theorem accepted_can_finish_witness:
  "finished wk_crashed = [False] \<and> (\<exists>w'. (worker_step id)\<^sup>*\<^sup>* wk_crashed w' \<and>
     mset (finished w') = {#False, True#})"
proof -
  have "\<exists>w'. (worker_step id)\<^sup>*\<^sup>* wk_crashed w' \<and> accepted w' = accepted wk_crashed \<and>
      mset (finished w') = mset (accepted wk_crashed)"
    using accepted_can_finish [OF wk_crashed_reach] by (simp add: wk_crashed_sel)
  moreover have "mset (accepted wk_crashed) = {#False, True#}" "finished wk_crashed = [False]"
    by (simp_all add: wk_crashed_sel)
  ultimately show ?thesis by metis
qed

text \<open>
  C39: Two calls of \<open>Start\<close>, as the component's \<open>OnAfterInit\<close> and the application's
  \<open>Startup\<close> make them, end the sequential execution: any two posted functions can be
  running at the same time.
\<close>

theorem two_starts_run_concurrently:
  "\<exists>w. worker_reach ok 4 w \<and> starts w = 2 \<and> accepted w = [a, b] \<and>
     runners w = [RRunning a, RRunning b]"
  using two_running [of ok a b]
  by (intro exI [of _ "wk False [] False 0 [RRunning a, RRunning b] [] NotStopping [a, b] [] 2"])
    (simp add: wk_def)

text \<open>
  \<open>Post\<close> does not exclude \<open>Stop\<close>. A caller that has seen \<open>closed\<close> unset can come
  to its send after the channel is closed, where it panics, and \<open>Len\<close> stays off by one.
\<close>

theorem Post_races_with_Stop:
  "\<exists>w w'. worker_reach ok 4 w \<and> posters w = [PAdded a] \<and> stopper w = StopWaiting \<and>
     worker_step ok w w' \<and> post_panics w' = 1 \<and> buf (fs w') = [] \<and> len w' = 1"
proof (intro exI conjI)
  show "worker_reach ok 4 (wk True [] True 1 [RIdle] [PAdded a] StopWaiting [] [] 1)"
    by (rule post_against_stop)
  show "worker_step ok (wk True [] True 1 [RIdle] [PAdded a] StopWaiting [] [] 1)
      (wk True [] True 1 [RIdle] [] StopWaiting [] [] 1\<lparr>post_panics := 1\<rparr>)"
    by (rule wk_step [OF Post_panics [of _ "[]" a "[]"]]) (simp_all add: wk_sel)
qed (simp_all add: wk_def)

section \<open>The component\<close>

text \<open>
  \<open>New\<close> wraps a worker; the lifecycle methods that do something are \<open>OnAfterInit\<close>,
  which starts it, and \<open>OnStop\<close>, which stops it by the steps above.
\<close>

definition Worker_New :: "int \<Rightarrow> 't worker outcome" where
  "Worker_New maxQueueLen = NewWorker maxQueueLen"

definition Worker_Name :: string where
  "Worker_Name = ''worker_component''"

definition Worker_OnAfterInit :: "'t worker \<Rightarrow> 't worker" where
  "Worker_OnAfterInit w = Start w"

end
