(* ===== verification/Nats.thy ===== *)
theory Nats
  imports Channel Errors
begin

text \<open>
  \<^verbatim>\<open>framework/pkg/cluster/nats_const.go\<close>, \<^verbatim>\<open>nats_subject.go\<close> and \<^verbatim>\<open>nats_conn.go\<close>: the
  subjects nodes listen on and the connection to the NATS server. The NATS client is not
  code of the repository: what its calls return is a parameter.
\<close>

section \<open>Subjects\<close>

definition remoteSubjectFormat :: string where
  "remoteSubjectFormat = ''cherry.%s.remote.%s.%s''"

definition getRemoteSubject :: "string \<Rightarrow> string \<Rightarrow> string \<Rightarrow> string" where
  "getRemoteSubject prefix nodeType nodeId =
     sprintf remoteSubjectFormat [ArgS prefix, ArgS nodeType, ArgS nodeId]"

lemma getRemoteSubject_eq:
  "getRemoteSubject prefix nodeType nodeId =
   ''cherry.'' @ prefix @ ''.remote.'' @ nodeType @ ''.'' @ nodeId"
  by (simp add: getRemoteSubject_def remoteSubjectFormat_def sprintf.simps fmt_verb_def)

lemma split_at_first:
  "x \<notin> set as \<Longrightarrow> x \<notin> set bs \<Longrightarrow> as @ x # cs = bs @ x # ds \<longleftrightarrow> as = bs \<and> cs = ds"
proof (induction as arbitrary: bs)
  case Nil
  then show ?case by (cases bs) auto
next
  case (Cons a as)
  then show ?case by (cases bs) auto
qed

lemma getRemoteSubject_inj:
  assumes "CHR ''.'' \<notin> set ty" "CHR ''.'' \<notin> set ty'"
  shows "getRemoteSubject p ty k = getRemoteSubject p ty' k' \<longleftrightarrow> ty = ty' \<and> k = k'"
  using split_at_first [OF assms] by (simp add: getRemoteSubject_eq)

section \<open>The subscription\<close>

text \<open>\<open>'x\<close> stands for the messages of the channel.\<close>

record 'x natsSubject =
  ch :: "'x chan"
  subject :: string
  subscription :: bool

definition newNatsSubject :: "string \<Rightarrow> nat \<Rightarrow> 'x natsSubject" where
  "newNatsSubject subj sz = \<lparr>ch = make_chan sz, subject = subj, subscription = False\<rparr>"

text \<open>
  \<open>stop\<close>: an error of \<open>Unsubscribe\<close> (also of a nil subscription, where the client
  returns one) is only logged; closing the channel a second time panics.
\<close>

definition natsSubject_stop :: "('x natsSubject, unit) proc" where
  "natsSubject_stop p =
     (let p1 = p\<lparr>subscription := False\<rparr>
      in case chan_close (ch p1) of
           None \<Rightarrow> (p1, Panic ''close of closed channel'')
         | Some c \<Rightarrow> (p1\<lparr>ch := c\<rparr>, Ret ()))"

section \<open>The connection\<close>

text \<open>
  \<open>connected\<close> says whether the embedded client connection is set and open.
  \<open>NewNatsConn\<close> writes the default address into the profile that its argument points
  to; the changed address is returned beside the connection.
\<close>

record natsConn =
  conn_address :: string
  conn_running :: bool
  connected :: bool

definition NewNatsConn :: "string \<Rightarrow> string \<Rightarrow> natsConn \<times> string" where
  "NewNatsConn DefaultURL address =
     (let a = (if address = [] then DefaultURL else address)
      in (\<lparr>conn_address = a, conn_running = False, connected = False\<rparr>, a))"

text \<open>
  The loop of \<open>Connect\<close> tries again after every failure. \<open>dial i\<close> is the outcome
  of the \<open>i\<close>-th attempt; the loop may not end, so it is a partial function.
\<close>

partial_function (option) connect_loop ::
    "(nat \<Rightarrow> error option) \<Rightarrow> nat \<Rightarrow> natsConn \<Rightarrow> (nat \<times> natsConn) option" where
  [code]: "connect_loop dial i p =
     (case dial i of
        Some err \<Rightarrow> connect_loop dial (Suc i) p
      | None \<Rightarrow> Some (Suc i, p\<lparr>connected := True, conn_running := True\<rparr>))"

definition Connect :: "(nat \<Rightarrow> error option) \<Rightarrow> natsConn \<Rightarrow> (nat \<times> natsConn) option" where
  "Connect dial p = (if conn_running p then Some (0, p) else connect_loop dial 0 p)"

definition natsConn_Close :: "natsConn \<Rightarrow> natsConn" where
  "natsConn_Close p =
     (if conn_running p then p\<lparr>conn_running := False, connected := False\<rparr> else p)"

definition natsConn_Request ::
    "(string \<Rightarrow> bytes \<Rightarrow> 'd \<Rightarrow> bytes result) \<Rightarrow> string \<Rightarrow> bytes \<Rightarrow> 'd \<Rightarrow> bytes result" where
  "natsConn_Request client subj data timeout = client subj data timeout"

text \<open>
  \<open>ChanExecute\<close>: nothing is processed when the subscription fails; else every message
  of the channel, in order, until it is closed.
\<close>

definition ChanExecute ::
    "(string \<Rightarrow> error option) \<Rightarrow> string \<Rightarrow> 'x list \<Rightarrow> ('x \<Rightarrow> 's \<Rightarrow> 's) \<Rightarrow> 's \<Rightarrow> 's" where
  "ChanExecute subscribe subj received process s =
     (case subscribe subj of
        Some chanErr \<Rightarrow> s
      | None \<Rightarrow> fold process received s)"

section \<open>Properties\<close>

lemma connect_loop_first:
  "dial (i + k) = None \<Longrightarrow> (\<And>j. j < k \<Longrightarrow> dial (i + j) \<noteq> None) \<Longrightarrow>
   connect_loop dial i p = Some (Suc (i + k), p\<lparr>connected := True, conn_running := True\<rparr>)"
proof (induction k arbitrary: i)
  case 0
  then show ?case by (subst connect_loop.simps) simp
next
  case (Suc k)
  from Suc.prems(2) [of 0] obtain e where "dial i = Some e" by auto
  moreover have "dial (Suc i + j) \<noteq> None" if "j < k" for j
    using Suc.prems(2) [of "Suc j"] that by simp
  ultimately show ?case
    using Suc.IH [of "Suc i"] Suc.prems(1) by (subst connect_loop.simps) simp
qed

lemma connect_loop_Some:
  assumes "connect_loop dial i p = Some r"
  shows "\<exists>k. dial k = None"
proof -
  have "connect_loop dial i p = Some r \<Longrightarrow> (\<lambda>d i p r. \<exists>k. d k = None) dial i p r"
    by (rule connect_loop.raw_induct) (auto split: option.splits)
  then show ?thesis using assms by blast
qed

text \<open>
  C31: \<open>Connect\<close> on a connection that is not running returns if and only if some attempt
  succeeds; it then has made attempts up to the first successful one and is running. When
  the server never answers, it does not return and the start of the node stays there.
\<close>

theorem Connect_returns_iff:
  "(\<exists>n q. Connect dial \<lparr>conn_address = a, conn_running = False, connected = c\<rparr> = Some (n, q)) \<longleftrightarrow>
     (\<exists>k. dial k = None)"
proof
  assume "\<exists>n q. Connect dial \<lparr>conn_address = a, conn_running = False, connected = c\<rparr> = Some (n, q)"
  then show "\<exists>k. dial k = None"
    by (auto simp: Connect_def dest: connect_loop_Some)
next
  assume "\<exists>k. dial k = None"
  then have "dial (0 + (LEAST k. dial k = None)) = None"
    and "\<And>j. j < (LEAST k. dial k = None) \<Longrightarrow> dial (0 + j) \<noteq> None"
    by (auto intro: LeastI dest: not_less_Least)
  from connect_loop_first [where dial = dial and i = 0, OF this]
  show "\<exists>n q. Connect dial \<lparr>conn_address = a, conn_running = False, connected = c\<rparr> = Some (n, q)"
    by (auto simp: Connect_def)
qed

text \<open>
  Two nodes whose types contain no dot share a subject only when both their types and
  their ids agree, so a message to one node is not delivered to another.
\<close>

theorem subjects_separate_nodes:
  assumes "CHR ''.'' \<notin> set ty" "CHR ''.'' \<notin> set ty'"
  shows "getRemoteSubject p ty k = getRemoteSubject p ty' k' \<longleftrightarrow> ty = ty' \<and> k = k'"
  using assms by (rule getRemoteSubject_inj)

theorem subjects_separate_nodes_witness:
  "getRemoteSubject ''node'' ''gate'' ''g.1'' \<noteq> getRemoteSubject ''node'' ''auth'' ''g.1''"
  using subjects_separate_nodes [of "''gate''" "''auth''" "''node''" "''g.1''" "''g.1''"] by simp

end
