(* ===== verification/Cluster.thy ===== *)
theory Cluster
  imports Packet Discovery Requester Worker Nats
begin

text \<open>
  \<^verbatim>\<open>framework/pkg/cluster/cluster.go\<close>, \<^verbatim>\<open>msg_handler.go\<close>, \<^verbatim>\<open>component.go\<close>, the two
  sending functions of \<^verbatim>\<open>requester.go\<close> and \<open>Sender.Resp\<close> of
  \<^verbatim>\<open>framework/facade/cluster.go\<close>: messages between nodes, from \<open>RequestAsync\<close> to
  the callback.

  \<open>'h\<close> stands for the functions that services register as handlers, \<open>'c\<close> for
  the callbacks of requests, \<open>'l\<close> for discovery listeners. What those functions do to
  the node, and what the NATS client answers, are parameters.
\<close>

section \<open>State of a node\<close>

text \<open>
  The functions in \<open>reqHandlers\<close>: the wrapper \<open>ListenMsg\<close> builds around a
  function whose second parameter has message type \<open>'t\<close>, the one
  \<open>RegisterResponse\<close> builds, the default that only logs, and a default set by a service.
\<close>

datatype ('t, 'h) handler = UserHandler 't 'h | RespHandler | LogHandler | DefaultHandler 'h

text \<open>A function posted to the worker: a handler (possibly nil) with its arguments.\<close>

datatype ('t, 'm, 'h) task = Task "('t, 'h) handler option" MsgCommon 'm

text \<open>
  The application as the cluster sees it (its own id and type, whether it runs, the member
  table, the worker's queue), the process-wide registry, the fields of \<open>Cluster\<close> and
  \<open>MessageHandlerMgr\<close>, and the messages published so far.
\<close>

record ('t, 'm, 'h, 'c, 'l) node =
  self_id :: string
  self_type :: string
  running :: bool
  members :: "'l discovery"
  types :: "'t registry"
  queue :: "('t, 'm, 'h) task chan"
  queue_closed :: bool
  prefix :: string
  bufferSize :: nat
  natsSub :: "bytes natsSubject"
  natsConn :: natsConn
  defaultHandler :: "('t, 'h) handler option"
  reqHandlers :: "u32 \<Rightarrow> ('t, 'h) handler option"
  requester :: "'c requester"
  published :: "(string \<times> bytes) list"

text \<open>
  The parameters: the protobuf runtime; the answer of \<open>nats.Conn.Publish\<close>; the effect of
  a registered function and of a callback.
\<close>

record ('t, 'm, 'h, 'c, 'l) cluster_env =
  lib :: "('t, 'm) protolib"
  publish_error :: "string \<Rightarrow> bytes \<Rightarrow> error option"
  run_handler :: "'h \<Rightarrow> MsgCommon \<Rightarrow> 'm \<Rightarrow> (('t, 'm, 'h, 'c, 'l) node, unit) proc"
  run_callback :: "'c \<Rightarrow> 'm \<Rightarrow> error option \<Rightarrow> (('t, 'm, 'h, 'c, 'l) node, unit) proc"

section \<open>Sending\<close>

definition natsConn_Publish ::
    "('t, 'm, 'h, 'c, 'l) cluster_env \<Rightarrow> string \<Rightarrow> bytes \<Rightarrow> ('t, 'm, 'h, 'c, 'l) node \<Rightarrow>
     ('t, 'm, 'h, 'c, 'l) node \<times> error option" where
  "natsConn_Publish E subj data n =
     (case publish_error E subj data of
        Some e \<Rightarrow> (n, Some e)
      | None \<Rightarrow> (n\<lparr>published := published n @ [(subj, data)]\<rparr>, None))"

definition SendBytes ::
    "('t, 'm, 'h, 'c, 'l) cluster_env \<Rightarrow> string \<Rightarrow> bytes \<Rightarrow> ('t, 'm, 'h, 'c, 'l) node \<Rightarrow>
     ('t, 'm, 'h, 'c, 'l) node \<times> error option" where
  "SendBytes E nodeId data n =
     (if \<not> running n then (n, Some ClusterRPCClientIsStop)
      else case GetType (members n) nodeId of
             Inl err \<Rightarrow> (n, Some err)
           | Inr nodeType \<Rightarrow>
               natsConn_Publish E (getRemoteSubject (prefix n) nodeType nodeId) data n)"

text \<open>Packing with the registry of the process.\<close>

definition pack_in ::
    "('t, 'm, 'h, 'c, 'l) cluster_env \<Rightarrow> MsgCommon \<Rightarrow> 'm \<Rightarrow>
     (('t, 'm, 'h, 'c, 'l) node, bytes result) proc" where
  "pack_in E common msg n =
     (case PackMessage (lib E) common msg (types n) of
        (g, Ret (_, r)) \<Rightarrow> (n\<lparr>types := g\<rparr>, Ret r)
      | (g, Panic m) \<Rightarrow> (n\<lparr>types := g\<rparr>, Panic m)
      | (g, Exit m) \<Rightarrow> (n\<lparr>types := g\<rparr>, Exit m))"

definition new_common :: "string \<Rightarrow> string \<Rightarrow> u32 \<Rightarrow> MsgCommon" where
  "new_common source target m =
     MsgCommon_Reset\<lparr>SourceId := source, TargetId := target, Mid := m\<rparr>"

definition PublishMsg ::
    "('t, 'm, 'h, 'c, 'l) cluster_env \<Rightarrow> string \<Rightarrow> 'm \<Rightarrow>
     (('t, 'm, 'h, 'c, 'l) node, error option) proc" where
  "PublishMsg E nodeId msg n =
     (if \<not> running n then (n, Ret (Some ClusterRPCClientIsStop))
      else case GetType (members n) nodeId of
             Inl err \<Rightarrow> (n, Ret (Some err))
           | Inr nodeType \<Rightarrow>
               seq_proc (pack_in E (new_common (self_id n) nodeId 0) msg)
                 (\<lambda>r n'. case r of
                    Inl err \<Rightarrow> (n', Ret (Some err))
                  | Inr data \<Rightarrow>
                      (case natsConn_Publish E (getRemoteSubject (prefix n) nodeType nodeId) data n' of
                         (n'', e) \<Rightarrow> (n'', Ret e))) n)"

text \<open>What \<open>requestAsync\<close> and \<open>requestWait\<close> do after they have registered.\<close>

definition send_request ::
    "('t, 'm, 'h, 'c, 'l) cluster_env \<Rightarrow> string \<Rightarrow> 'm \<Rightarrow> u32 \<Rightarrow>
     (('t, 'm, 'h, 'c, 'l) node, error option) proc" where
  "send_request E nodeId req m n =
     seq_proc (pack_in E (new_common (self_id n) nodeId m) req)
       (\<lambda>r n'. case r of
          Inl err \<Rightarrow> (n', Ret (Some err))
        | Inr data \<Rightarrow> (case SendBytes E nodeId data n' of (n'', e) \<Rightarrow> (n'', Ret e))) n"

definition requestAsync ::
    "('t, 'm, 'h, 'c, 'l) cluster_env \<Rightarrow> string \<Rightarrow> 'm \<Rightarrow> 'c option \<Rightarrow>
     (('t, 'm, 'h, 'c, 'l) node, error option) proc" where
  "requestAsync E nodeId req cbk n =
     (case registerCallback cbk (requester n) of
        (m, p) \<Rightarrow> send_request E nodeId req m (n\<lparr>requester := p\<rparr>))"

text \<open>
  \<open>requestWait\<close> up to its select: an error is returned at once; \<open>None\<close> means that it
  now waits as the steps of \<open>wait_step\<close> say. \<open>cbk\<close> is the closure over the channel.
\<close>

definition requestWait ::
    "('t, 'm, 'h, 'c, 'l) cluster_env \<Rightarrow> string \<Rightarrow> 'm \<Rightarrow> 'c \<Rightarrow>
     (('t, 'm, 'h, 'c, 'l) node, error option) proc" where
  "requestWait E nodeId req cbk n = requestAsync E nodeId req (Some cbk) n"

definition RequestAsync ::
    "('t, 'm, 'h, 'c, 'l) cluster_env \<Rightarrow> string \<Rightarrow> 'm \<Rightarrow> 'c option \<Rightarrow>
     (('t, 'm, 'h, 'c, 'l) node, error option) proc" where
  "RequestAsync E nodeId req cbk = requestAsync E nodeId req cbk"

definition RequestWait ::
    "('t, 'm, 'h, 'c, 'l) cluster_env \<Rightarrow> string \<Rightarrow> 'm \<Rightarrow> 'c \<Rightarrow>
     (('t, 'm, 'h, 'c, 'l) node, error option) proc" where
  "RequestWait E nodeId req cbk = requestWait E nodeId req cbk"

text \<open>
  \<open>Sender.Resp\<close>: the answer goes back to the source with the id of the request; errors
  are only logged.
\<close>

definition Resp ::
    "('t, 'm, 'h, 'c, 'l) cluster_env \<Rightarrow> MsgCommon \<Rightarrow> 'm \<Rightarrow>
     (('t, 'm, 'h, 'c, 'l) node, unit) proc" where
  "Resp E s msg n =
     (let local = \<lparr>SourceId = TargetId s, TargetId = SourceId s, Mid = Mid s, McSid = McSid s,
                   McUid = McUid s, Route = Route s\<rparr>
      in seq_proc (pack_in E local msg)
           (\<lambda>r n'. case r of
              Inl err \<Rightarrow> (n', Ret ())
            | Inr data \<Rightarrow> (fst (SendBytes E (TargetId local) data n'), Ret ())) n)"

section \<open>Handlers\<close>

text \<open>
  What \<open>ListenMsg\<close> learns of its argument by reflection. A parameter is \<open>*Sender\<close>,
  a pointer to a message struct, or another type; for an interface, or a type that is no
  message, the assertion to \<open>proto.Message\<close> panics. \<open>*Sender\<close> as the second
  parameter is a message by its embedded pointer, which is nil in the new value.
\<close>

datatype 't param = SenderPtr | MsgPtr 't | OtherType string

datatype ('t, 'h) gofunc = NotFunc | Func "'t param list" 'h

definition ListenMsg ::
    "('t, 'm, 'h, 'c, 'l) cluster_env \<Rightarrow> ('t, 'h) gofunc \<Rightarrow>
     (('t, 'm, 'h, 'c, 'l) node, unit) proc" where
  "ListenMsg E cbk n =
     (case cbk of
        NotFunc \<Rightarrow> (n, Panic ''cbk is not func'')
      | Func ins h \<Rightarrow>
          if length ins \<noteq> 2 then (n, Panic ''cbk num in is not 2'')
          else if ins ! 0 \<noteq> SenderPtr then (n, Panic ''cbk in 0 is not Sender'')
          else case ins ! 1 of
                 OtherType t \<Rightarrow> (n, Panic ''interface conversion'')
               | SenderPtr \<Rightarrow> (n, Panic nil_call_text)
               | MsgPtr t \<Rightarrow>
                   (case RegisterMessage (lib E) (Some t) (types n) of
                      (g, Ret (Inr i)) \<Rightarrow>
                        (n\<lparr>types := g, reqHandlers := (reqHandlers n)(i \<mapsto> UserHandler t h)\<rparr>, Ret ())
                    | (g, Ret (Inl err)) \<Rightarrow> (n\<lparr>types := g\<rparr>, Panic (err_text err))
                    | (g, Panic m) \<Rightarrow> (n\<lparr>types := g\<rparr>, Panic m)
                    | (g, Exit m) \<Rightarrow> (n\<lparr>types := g\<rparr>, Exit m)))"

definition RegisterResponse ::
    "('t, 'm, 'h, 'c, 'l) cluster_env \<Rightarrow> 't option \<Rightarrow> (('t, 'm, 'h, 'c, 'l) node, unit) proc" where
  "RegisterResponse E resp n =
     (case RegisterMessage (lib E) resp (types n) of
        (g, Ret (Inr i)) \<Rightarrow>
          (n\<lparr>types := g, reqHandlers := (reqHandlers n)(i \<mapsto> RespHandler)\<rparr>, Ret ())
      | (g, Ret (Inl err)) \<Rightarrow> (n\<lparr>types := g\<rparr>, Panic (err_text err))
      | (g, Panic m) \<Rightarrow> (n\<lparr>types := g\<rparr>, Panic m)
      | (g, Exit m) \<Rightarrow> (n\<lparr>types := g\<rparr>, Exit m))"

definition setDefaultHandler ::
    "'h option \<Rightarrow> ('t, 'm, 'h, 'c, 'l) node \<Rightarrow> ('t, 'm, 'h, 'c, 'l) node" where
  "setDefaultHandler handler n = n\<lparr>defaultHandler := map_option DefaultHandler handler\<rparr>"

text \<open>The methods of \<open>Cluster\<close> by which services register their functions.\<close>

definition ListenMessage ::
    "('t, 'm, 'h, 'c, 'l) cluster_env \<Rightarrow> ('t, 'h) gofunc \<Rightarrow>
     (('t, 'm, 'h, 'c, 'l) node, unit) proc" where
  "ListenMessage E cbk = ListenMsg E cbk"

definition Cluster_RegisterResponse ::
    "('t, 'm, 'h, 'c, 'l) cluster_env \<Rightarrow> 't option \<Rightarrow> (('t, 'm, 'h, 'c, 'l) node, unit) proc" where
  "Cluster_RegisterResponse E resp = RegisterResponse E resp"

definition SetDefaultHandler ::
    "'h option \<Rightarrow> ('t, 'm, 'h, 'c, 'l) node \<Rightarrow> ('t, 'm, 'h, 'c, 'l) node" where
  "SetDefaultHandler handler = setDefaultHandler handler"

lemmas cluster_methods =
  ListenMessage_def Cluster_RegisterResponse_def SetDefaultHandler_def RequestAsync_def RequestWait_def requestWait_def

text \<open>Calling a handler. \<open>reflect.Value.Call\<close> panics on an argument of the wrong type.\<close>

definition set_requester ::
    "('c requester \<Rightarrow> 'c requester) \<Rightarrow> ('t, 'm, 'h, 'c, 'l) node \<Rightarrow> ('t, 'm, 'h, 'c, 'l) node" where
  "set_requester f n = n\<lparr>requester := f (requester n)\<rparr>"

definition reflect_text :: string where
  "reflect_text = ''reflect: Call using wrong type''"

fun call_handler ::
    "('t, 'm, 'h, 'c, 'l) cluster_env \<Rightarrow> ('t, 'h) handler option \<Rightarrow> MsgCommon \<Rightarrow> 'm \<Rightarrow>
     (('t, 'm, 'h, 'c, 'l) node, unit) proc" where
  "call_handler E None sender msg n = (n, Panic nil_call_text)"
| "call_handler E (Some (UserHandler t h)) sender msg n =
     (if mtype (lib E) msg \<noteq> t then (n, Panic reflect_text)
      else run_handler E h sender msg n)"
| "call_handler E (Some RespHandler) sender msg n =
     getCallback requester set_requester (run_callback E) (Mid sender) msg None n"
| "call_handler E (Some LogHandler) sender msg n = (n, Ret ())"
| "call_handler E (Some (DefaultHandler h)) sender msg n = run_handler E h sender msg n"

section \<open>Receiving\<close>

text \<open>
  \<open>Post\<close> of the application's worker: nothing after \<open>Stop\<close>; \<open>None\<close> while the
  queue is full, where the receiving goroutine waits.
\<close>

definition post ::
    "('t, 'm, 'h) task \<Rightarrow> ('t, 'm, 'h, 'c, 'l) node \<Rightarrow> ('t, 'm, 'h, 'c, 'l) node option" where
  "post t n =
     (if queue_closed n then Some n
      else case chan_send t (queue n) of
             Sent q \<Rightarrow> Some (n\<lparr>queue := q\<rparr>)
           | _ \<Rightarrow> None)"

text \<open>\<open>process\<close> inside \<open>receive\<close>: one message of the subscription.\<close>

definition process_msg ::
    "('t, 'm, 'h, 'c, 'l) cluster_env \<Rightarrow> bytes \<Rightarrow> ('t, 'm, 'h, 'c, 'l) node \<Rightarrow>
     ('t, 'm, 'h, 'c, 'l) node option" where
  "process_msg E data n =
     (case fst (ReadMessage (lib E) (types n) (data, None)) of
        Inl err \<Rightarrow> Some n
      | Inr (common, msg) \<Rightarrow>
          let h = (case reqHandlers n (Route common) of
                     Some h \<Rightarrow> Some h
                   | None \<Rightarrow> defaultHandler n)
          in post (Task h common msg) n)"

text \<open>
  The NATS client puts a message for the subject into the channel and drops it when the
  channel is full.
\<close>

definition nats_deliver ::
    "string \<Rightarrow> bytes \<Rightarrow> ('t, 'm, 'h, 'c, 'l) node \<Rightarrow> ('t, 'm, 'h, 'c, 'l) node" where
  "nats_deliver subj data n =
     (if subscription (natsSub n) \<and> subj = subject (natsSub n)
      then case chan_send data (ch (natsSub n)) of
             Sent c \<Rightarrow> n\<lparr>natsSub := (natsSub n)\<lparr>ch := c\<rparr>\<rparr>
           | _ \<Rightarrow> n
      else n)"

text \<open>One turn of \<open>for msg := range p.natsSub.ch\<close>.\<close>

definition receive_turn ::
    "('t, 'm, 'h, 'c, 'l) cluster_env \<Rightarrow> ('t, 'm, 'h, 'c, 'l) node \<Rightarrow>
     ('t, 'm, 'h, 'c, 'l) node option" where
  "receive_turn E n =
     (case chan_recv (ch (natsSub n)) of
        Received data c \<Rightarrow> process_msg E data (n\<lparr>natsSub := (natsSub n)\<lparr>ch := c\<rparr>\<rparr>)
      | _ \<Rightarrow> None)"

definition receive_start ::
    "error option \<Rightarrow> ('t, 'm, 'h, 'c, 'l) node \<Rightarrow> ('t, 'm, 'h, 'c, 'l) node" where
  "receive_start subscribe_error n =
     (case subscribe_error of
        Some err \<Rightarrow> n
      | None \<Rightarrow> n\<lparr>natsSub := (natsSub n)\<lparr>subscription := True\<rparr>\<rparr>)"

text \<open>
  The worker's loop takes a function, which it then runs; a panic ends only that function
  (the worker restarts), and what it changed before stays. The worker component and the
  application each start the worker, so two goroutines do this: \<open>take_task\<close>, \<open>start_job\<close> and the
  end of a callback are the steps that Network and Clients interleave. A goroutine has taken a
  task and not begun it, or it is in the callback of request \<open>x\<close>, looked up without the lock
  and not unregistered yet. \<open>work_turn\<close> is one turn of a goroutine that nothing interrupts.
\<close>

datatype ('t, 'm, 'h) job = Holding "('t, 'm, 'h) task" | Calling u32

definition worker_goroutines :: nat where
  "worker_goroutines = 2"

definition take_task ::
    "('t, 'm, 'h, 'c, 'l) node \<Rightarrow> (('t, 'm, 'h) task \<times> ('t, 'm, 'h, 'c, 'l) node) option" where
  "take_task n = (case chan_recv (queue n) of Received t q \<Rightarrow> Some (t, n\<lparr>queue := q\<rparr>) | _ \<Rightarrow> None)"

definition start_job ::
    "('t, 'm, 'h, 'c, 'l) cluster_env \<Rightarrow> ('t, 'm, 'h) task \<Rightarrow> ('t, 'm, 'h, 'c, 'l) node \<Rightarrow>
     ('t, 'm, 'h, 'c, 'l) node \<times> ('t, 'm, 'h) job list" where
  "start_job E t n =
     (case t of Task h c m \<Rightarrow>
        if h = Some RespHandler
        then (n, if find_callback (Mid c) (requester n) = None then [] else [Calling (Mid c)])
        else (fst (call_handler E h c m n), []))"

definition work_turn ::
    "('t, 'm, 'h, 'c, 'l) cluster_env \<Rightarrow> (('t, 'm, 'h, 'c, 'l) node, unit) proc" where
  "work_turn E n =
     (case chan_recv (queue n) of
        Received (Task h c m) q \<Rightarrow> call_handler E h c m (n\<lparr>queue := q\<rparr>)
      | _ \<Rightarrow> (n, Ret ()))"

text \<open>
  A turn is its steps with nothing in between: the task is taken and begun; when that looks a
  callback up, the callback runs and, once it has returned, is unregistered.
\<close>

lemma work_turn_take:
  "work_turn E n = (case take_task n of None \<Rightarrow> (n, Ret ()) | Some (Task h c m, n1) \<Rightarrow> call_handler E h c m n1)"
  unfolding work_turn_def take_task_def
  by (cases "chan_recv (queue n)") (simp_all split: task.split del: chan_recv_Drained)

lemma work_turn_begin:
  "snd (start_job E (Task h c m) n) = [] \<Longrightarrow> fst (call_handler E h c m n) = fst (start_job E (Task h c m) n)"
  "snd (start_job E (Task h c m) n) = [Calling x] \<Longrightarrow> h = Some RespHandler \<and> x = Mid c \<and>
     (\<exists>cb. find_callback x (requester n) = Some cb \<and>
        (\<forall>n2. run_callback E cb m None n = (n2, Ret ()) \<longrightarrow>
           call_handler E h c m n = (n2\<lparr>requester := unregisterCallback x (requester n2)\<rparr>, Ret ())))"
  by (auto simp: start_job_def getCallback_def set_requester_def split: option.split if_splits)

section \<open>Life cycle\<close>

definition NewMessageHandlerMgr ::
    "('t, 'm, 'h, 'c, 'l) node \<Rightarrow> ('t, 'm, 'h, 'c, 'l) node" where
  "NewMessageHandlerMgr n =
     n\<lparr>reqHandlers := Map.empty, requester := newRpcHandlerMgr, defaultHandler := Some LogHandler\<rparr>"

text \<open>
  \<open>newCluster\<close>: \<open>n\<close> is the application without its cluster; the address of the
  profile is returned as \<open>NewNatsConn\<close> leaves it.
\<close>

definition newCluster ::
    "string \<Rightarrow> string \<Rightarrow> ('t, 'm, 'h, 'c, 'l) node \<Rightarrow> ('t, 'm, 'h, 'c, 'l) node \<times> string" where
  "newCluster DefaultURL address n =
     (case NewNatsConn DefaultURL address of
        (conn, address') \<Rightarrow>
          let n1 = (NewMessageHandlerMgr n)\<lparr>bufferSize := 1024, prefix := ''node'', natsConn := conn\<rparr>
          in (n1\<lparr>natsSub := newNatsSubject (getRemoteSubject (prefix n1) (self_type n) (self_id n))
                              (bufferSize n1)\<rparr>, address'))"

text \<open>\<open>Init\<close>: \<open>None\<close> when \<open>Connect\<close> never returns; then \<open>receive\<close> is spawned.\<close>

definition Cluster_Init ::
    "(nat \<Rightarrow> error option) \<Rightarrow> error option \<Rightarrow> ('t, 'm, 'h, 'c, 'l) node \<Rightarrow>
     ('t, 'm, 'h, 'c, 'l) node option" where
  "Cluster_Init dial subscribe_error n =
     (case Connect dial (natsConn n) of
        None \<Rightarrow> None
      | Some (_, conn) \<Rightarrow> Some (receive_start subscribe_error (n\<lparr>natsConn := conn\<rparr>)))"

definition Cluster_Stop :: "(('t, 'm, 'h, 'c, 'l) node, unit) proc" where
  "Cluster_Stop n =
     (case natsSubject_stop (natsSub n) of
        (p, Ret _) \<Rightarrow> (n\<lparr>natsSub := p, natsConn := natsConn_Close (natsConn n)\<rparr>, Ret ())
      | (p, Panic m) \<Rightarrow> (n\<lparr>natsSub := p\<rparr>, Panic m)
      | (p, Exit m) \<Rightarrow> (n\<lparr>natsSub := p\<rparr>, Exit m))"

definition Cluster_Name :: string where
  "Cluster_Name = ''cluster_component''"

section \<open>What the operations change\<close>

lemma pack_in_fst: "fst (pack_in E c m n) = n\<lparr>types := fst (PackMessage (lib E) c m (types n))\<rparr>"
  by (simp add: pack_in_def split: prod.split outcome.split)

lemma natsConn_Publish_fst:
  "\<exists>out. fst (natsConn_Publish E subj data n) = n\<lparr>published := out\<rparr>"
  by (auto simp: natsConn_Publish_def split: option.split intro: exI [of _ "published n"])

lemma SendBytes_fst: "\<exists>out. fst (SendBytes E k data n) = n\<lparr>published := out\<rparr>"
  using natsConn_Publish_fst [of E _ data n]
  by (auto simp: SendBytes_def split: sum.split intro: exI [of _ "published n"])

lemma sent_fst:
  "natsConn_Publish E subj data n = (n', e) \<Longrightarrow> \<exists>out. n' = n\<lparr>published := out\<rparr>"
  "SendBytes E k data n = (n', e) \<Longrightarrow> \<exists>out. n' = n\<lparr>published := out\<rparr>"
  using natsConn_Publish_fst [of E subj data n] SendBytes_fst [of E k data n] by auto

lemma send_request_fst:
  "\<exists>out. fst (send_request E k req m n) =
     n\<lparr>types := fst (PackMessage (lib E) (new_common (self_id n) k m) req (types n)), published := out\<rparr>"
proof -
  let ?p = "pack_in E (new_common (self_id n) k m) req n"
  have f: "fst ?p = n\<lparr>types := fst (PackMessage (lib E) (new_common (self_id n) k m) req (types n))\<rparr>"
    by (rule pack_in_fst)
  have same: "\<exists>out. fst ?p = fst ?p\<lparr>published := out\<rparr>"
    by (intro exI [of _ "published (fst ?p)"]) simp
  have "\<exists>out. fst (send_request E k req m n) = fst ?p\<lparr>published := out\<rparr>"
    using same
    by (cases ?p) (auto simp: send_request_def split: outcome.splits sum.splits prod.splits
        dest: sent_fst(2))
  then show ?thesis unfolding f by simp
qed

text \<open>A send that reports an error has published nothing.\<close>

lemma SendBytes_error: "SendBytes E k data n = (n', Some e) \<Longrightarrow> n' = n"
  by (auto simp: SendBytes_def natsConn_Publish_def split: if_splits sum.splits option.splits)

lemma SendBytes_ok:
  assumes "running n" and "GetType (members n) k = Inr ty"
    and "publish_error E (getRemoteSubject (prefix n) ty k) data = None"
  shows "SendBytes E k data n =
    (n\<lparr>published := published n @ [(getRemoteSubject (prefix n) ty k, data)]\<rparr>, None)"
  using assms by (simp add: SendBytes_def natsConn_Publish_def)

lemma send_request_error:
  assumes "send_request E k req m n = (n', Ret (Some e))"
  shows "published n' = published n"
proof -
  obtain n1 r where p: "pack_in E (new_common (self_id n) k m) req n = (n1, r)"
    by (cases "pack_in E (new_common (self_id n) k m) req n")
  have "published n1 = published n"
    using pack_in_fst [of E "new_common (self_id n) k m" req n] p by simp
  then show ?thesis using assms p
    by (auto simp: send_request_def split: outcome.splits sum.splits prod.splits
        dest!: SendBytes_error)
qed

section \<open>Invariant\<close>

text \<open>
  Every wrapper stands under the id of the type its function wants, so what is posted with
  it has that type.
\<close>

definition handlers_wf :: "('t, 'm, 'h, 'c, 'l) cluster_env \<Rightarrow> ('t, 'm, 'h, 'c, 'l) node \<Rightarrow> bool" where
  "handlers_wf E n \<longleftrightarrow> reg_wf (lib E) (types n) \<and>
     (\<forall>i t h. reqHandlers n i = Some (UserHandler t h) \<longrightarrow> type2id (types n) t = Some i)"

fun task_ok :: "('t, 'm, 'h, 'c, 'l) cluster_env \<Rightarrow> ('t, 'm, 'h) task \<Rightarrow> bool" where
  "task_ok E (Task (Some (UserHandler t h)) c m) \<longleftrightarrow> mtype (lib E) m = t"
| "task_ok E (Task _ c m) \<longleftrightarrow> True"

definition node_inv :: "('t, 'm, 'h, 'c, 'l) cluster_env \<Rightarrow> ('t, 'm, 'h, 'c, 'l) node \<Rightarrow> bool" where
  "node_inv E n \<longleftrightarrow> handlers_wf E n \<and> (\<forall>t \<in> set (buf (queue n)). task_ok E t) \<and>
     (\<forall>t h. defaultHandler n \<noteq> Some (UserHandler t h))"

lemma ReadMessage_type:
  assumes "fst (ReadMessage P g r) = Inr (c, m)" and "proto_ok P"
  shows "id2type g (Route c) = Some (mtype P m)"
  using assms
  by (auto simp: ReadMessage_def OnUnmarshal_def MessageType_def proto_okD(3)
      split: prod.splits sum.splits if_splits option.splits)

lemma node_inv_types:
  assumes "node_inv E n" and "reg_wf (lib E) g"
    and "\<And>t i. type2id (types n) t = Some i \<Longrightarrow> type2id g t = Some i"
  shows "node_inv E (n\<lparr>types := g\<rparr>)"
  using assms by (auto simp: node_inv_def handlers_wf_def)

lemma node_inv_pack:
  assumes "node_inv E n"
  shows "node_inv E (n\<lparr>types := fst (PackMessage (lib E) c m (types n))\<rparr>)"
proof (rule node_inv_types [OF assms])
  have wf: "reg_wf (lib E) (types n)" using assms by (simp add: node_inv_def handlers_wf_def)
  show "reg_wf (lib E) (fst (PackMessage (lib E) c m (types n)))" by (rule PackMessage_wf [OF wf])
  show "type2id (fst (PackMessage (lib E) c m (types n))) t = Some i"
    if "type2id (types n) t = Some i" for t i
    using PackMessage_keeps [OF wf that] .
qed

lemma node_inv_irrelevant [simp]:
  "node_inv E (n\<lparr>published := o'\<rparr>) = node_inv E n"
  "node_inv E (n\<lparr>requester := r\<rparr>) = node_inv E n"
  "node_inv E (n\<lparr>natsSub := s\<rparr>) = node_inv E n"
  "node_inv E (n\<lparr>natsConn := c\<rparr>) = node_inv E n"
  "node_inv E (n\<lparr>running := b\<rparr>) = node_inv E n"
  "node_inv E (n\<lparr>members := d\<rparr>) = node_inv E n"
  by (simp_all add: node_inv_def handlers_wf_def)

lemma node_inv_send_request: "node_inv E n \<Longrightarrow> node_inv E (fst (send_request E k req m n))"
  using send_request_fst [of E k req m n] node_inv_pack [of E n]
  by (metis node_inv_irrelevant(1))

lemma node_inv_requestAsync: "node_inv E n \<Longrightarrow> node_inv E (fst (requestAsync E k req cbk n))"
  by (simp add: requestAsync_def node_inv_send_request split: prod.split)

lemma node_inv_PublishMsg:
  assumes "node_inv E n"
  shows "node_inv E (fst (PublishMsg E k msg n))"
proof -
  let ?p = "pack_in E (new_common (self_id n) k 0) msg n"
  have "node_inv E (fst ?p)" unfolding pack_in_fst by (rule node_inv_pack [OF assms])
  then show ?thesis using assms
    by (cases ?p) (auto simp: PublishMsg_def split: sum.split outcome.split prod.split
        dest!: sent_fst(1))
qed

lemma node_inv_Resp:
  assumes "node_inv E n"
  shows "node_inv E (fst (Resp E s msg n))"
proof -
  let ?p = "pack_in E \<lparr>SourceId = TargetId s, TargetId = SourceId s, Mid = Mid s, McSid = McSid s,
    McUid = McUid s, Route = Route s\<rparr> msg n"
  have "node_inv E (fst ?p)" unfolding pack_in_fst by (rule node_inv_pack [OF assms])
  moreover have "node_inv E (fst (SendBytes E k d n'))" if "node_inv E n'" for k d n'
    using that SendBytes_fst [of E k d n'] by (metis node_inv_irrelevant(1))
  ultimately show ?thesis
    by (cases ?p) (auto simp: Resp_def split: sum.split outcome.split)
qed

lemma registered_id:
  assumes "RegisterMessage P (Some t) g = (g', Ret (Inr i))" and "reg_wf P g"
  shows "type2id g' t = Some i \<and> reg_wf P g' \<and>
    (\<forall>u j. type2id g u = Some j \<longrightarrow> type2id g' u = Some j)"
  using RegisterMessage_Ret [OF assms(2,1)] RegisterMessage_wf [OF assms(2), of "Some t"]
    RegisterMessage_keeps [OF assms(2), of _ _ "Some t"] assms(1) by auto

lemma node_inv_ListenMsg:
  assumes "node_inv E n"
  shows "node_inv E (fst (ListenMsg E cbk n))"
proof -
  have wf: "reg_wf (lib E) (types n)" using assms by (simp add: node_inv_def handlers_wf_def)
  have other: "node_inv E (n\<lparr>types := g\<rparr>)"
    if "RegisterMessage (lib E) resp (types n) = (g, r)" for resp g r
    by (rule node_inv_types [OF assms])
      (use RegisterMessage_wf [OF wf, of resp] RegisterMessage_keeps [OF wf, of _ _ resp] that in auto)
  have new: "node_inv E (n\<lparr>types := g, reqHandlers := (reqHandlers n)(i \<mapsto> UserHandler t h)\<rparr>)"
    if "RegisterMessage (lib E) (Some t) (types n) = (g, Ret (Inr i))" for t g i h
    using assms registered_id [OF that wf] by (auto simp: node_inv_def handlers_wf_def)
  show ?thesis
    using assms by (auto simp: ListenMsg_def split: gofunc.split param.split prod.split
        outcome.split sum.split intro: other new)
qed

lemma node_inv_RegisterResponse:
  assumes "node_inv E n"
  shows "node_inv E (fst (RegisterResponse E resp n))"
proof -
  have wf: "reg_wf (lib E) (types n)" using assms by (simp add: node_inv_def handlers_wf_def)
  note reg = RegisterMessage_wf [OF wf, of resp] RegisterMessage_keeps [OF wf, of _ _ resp]
  have other: "node_inv E (n\<lparr>types := g\<rparr>)" if "RegisterMessage (lib E) resp (types n) = (g, r)" for g r
    by (rule node_inv_types [OF assms]) (use reg that in auto)
  moreover have "node_inv E (n\<lparr>types := g, reqHandlers := (reqHandlers n)(i \<mapsto> RespHandler)\<rparr>)"
    if "RegisterMessage (lib E) resp (types n) = (g, r)" for g i r
    using other [OF that] by (auto simp: node_inv_def handlers_wf_def)
  ultimately show ?thesis
    by (auto simp: RegisterResponse_def split: prod.split outcome.split sum.split)
qed

lemma node_inv_process:
  assumes "node_inv E n" and "proto_ok (lib E)" and "process_msg E data n = Some n'"
  shows "node_inv E n'"
proof (cases "fst (ReadMessage (lib E) (types n) (data, None))")
  case (Inl e)
  then show ?thesis using assms by (simp add: process_msg_def)
next
  case (Inr cm)
  obtain c m where cm: "cm = (c, m)" by (cases cm)
  have ty: "id2type (types n) (Route c) = Some (mtype (lib E) m)"
    by (rule ReadMessage_type [OF _ assms(2)]) (use Inr cm in simp)
  have wf: "reg_wf (lib E) (types n)" using assms(1) by (simp add: node_inv_def handlers_wf_def)
  let ?h = "case reqHandlers n (Route c) of Some h \<Rightarrow> Some h | None \<Rightarrow> defaultHandler n"
  have "t = mtype (lib E) m" if "?h = Some (UserHandler t u)" for t u
    using that assms(1) ty reg_wfD(1) [OF wf]
    by (auto simp: node_inv_def handlers_wf_def split: option.splits) (metis option.inject)
  then have "task_ok E (Task ?h c m)"
    by (cases "(E, Task ?h c m)" rule: task_ok.cases) auto
  then show ?thesis using assms(1,3) Inr cm
    by (auto simp: process_msg_def post_def node_inv_def handlers_wf_def chan_simps
        split: if_splits chan_send.splits)
qed

text \<open>The functions of services and callbacks act on a node by its operations only.\<close>

definition services_ok :: "('t, 'm, 'h, 'c, 'l) cluster_env \<Rightarrow> bool" where
  "services_ok E \<longleftrightarrow>
     (\<forall>h c m n. node_inv E n \<longrightarrow> node_inv E (fst (run_handler E h c m n))) \<and>
     (\<forall>cb m e n. node_inv E n \<longrightarrow> node_inv E (fst (run_callback E cb m e n)))"

lemma node_inv_call_handler:
  assumes "services_ok E" and "node_inv E n"
  shows "node_inv E (fst (call_handler E h c m n))"
proof -
  have cb: "node_inv E n1" if "run_callback E cb m None n = (n1, r)" for cb n1 r
    using assms that unfolding services_ok_def by (metis fst_conv)
  show ?thesis
    using assms cb
    by (cases "(E, h, c, m, n)" rule: call_handler.cases)
      (auto simp: services_ok_def getCallback_def set_requester_def
        split: option.split prod.split outcome.split)
qed

section \<open>Runs of a node\<close>

inductive cluster_step ::
    "('t, 'm, 'h, 'c, 'l) cluster_env \<Rightarrow> ('t, 'm, 'h, 'c, 'l) node \<Rightarrow> ('t, 'm, 'h, 'c, 'l) node \<Rightarrow> bool"
  for E where
  Listen: "cluster_step E n (fst (ListenMessage E cbk n))"
| Response: "cluster_step E n (fst (Cluster_RegisterResponse E resp n))"
| Default: "cluster_step E n (SetDefaultHandler h n)"
| Publish: "cluster_step E n (fst (PublishMsg E k msg n))"
| Request: "cluster_step E n (fst (RequestAsync E k msg cbk n))"
| RequestSync: "cluster_step E n (fst (RequestWait E k msg w n))"
| Answer: "cluster_step E n (fst (Resp E s msg n))"
| Deliver: "cluster_step E n (nats_deliver subj data n)"
| Receive: "receive_turn E n = Some n' \<Longrightarrow> cluster_step E n n'"
| Work: "cluster_step E n (fst (work_turn E n))"
| Take: "take_task n = Some (t, n') \<Longrightarrow> cluster_step E n n'"
| Begin: "cluster_step E n (fst (start_job E t n))"
| Callback: "cluster_step E n (fst (run_callback E cb m e n))"
| Unregister: "cluster_step E n (n\<lparr>requester := unregisterCallback x (requester n)\<rparr>)"
| Membership: "cluster_step E n (n\<lparr>members := d\<rparr>)"
| Run: "cluster_step E n (n\<lparr>running := b\<rparr>)"
| Initialise: "Cluster_Init dial e n = Some n' \<Longrightarrow> cluster_step E n n'"
| StopCluster: "cluster_step E n (fst (Cluster_Stop n))"
| StopWorker: "cluster_step E n (n\<lparr>queue_closed := True, queue := (queue n)\<lparr>isclosed := True\<rparr>\<rparr>)"

lemma node_inv_step:
  assumes "cluster_step E n n'" and "node_inv E n" and "proto_ok (lib E)" and "services_ok E"
  shows "node_inv E n'"
  using assms(1)
proof (cases rule: cluster_step.cases)
  case Receive
  then show ?thesis using assms(2,3)
    by (auto simp: receive_turn_def split: chan_recv.splits intro: node_inv_process [rotated 2])
next
  case Work
  have "node_inv E (fst (call_handler E h c m (n\<lparr>queue := q\<rparr>)))"
    if "chan_recv (queue n) = Received (Task h c m) q" for h c m q
    by (rule node_inv_call_handler [OF assms(4)])
      (use assms(2) that in \<open>auto simp: node_inv_def handlers_wf_def chan_simps\<close>)
  then show ?thesis using Work assms(2)
    by (auto simp: work_turn_def split: chan_recv.split task.split)
next
  case Take
  then show ?thesis using assms(2)
    by (auto simp: take_task_def node_inv_def handlers_wf_def chan_simps split: chan_recv.splits)
next
  case (Begin t)
  obtain h c m where "t = Task h c m" by (cases t)
  then show ?thesis using Begin assms(2) node_inv_call_handler [OF assms(4,2), of h c m]
    by (auto simp: start_job_def)
next
  case Callback
  then show ?thesis using assms(2,4) by (simp add: services_ok_def)
next
  case Initialise
  then show ?thesis using assms(2)
    by (auto simp: Cluster_Init_def receive_start_def split: option.splits)
next
  case StopCluster
  then show ?thesis using assms(2)
    by (auto simp: Cluster_Stop_def split: prod.split outcome.split)
qed (use assms(2) in \<open>auto simp: cluster_methods node_inv_ListenMsg node_inv_RegisterResponse node_inv_PublishMsg
      node_inv_requestAsync node_inv_Resp nats_deliver_def setDefaultHandler_def
      split: chan_send.split\<close>, auto simp: node_inv_def handlers_wf_def)

lemma node_inv_init:
  assumes "reg_wf (lib E) (types n)" and "buf (queue n) = []"
  shows "node_inv E (fst (newCluster url addr n))"
  using assms
  by (auto simp: newCluster_def NewNatsConn_def NewMessageHandlerMgr_def node_inv_def
      handlers_wf_def)

lemma node_inv_run:
  assumes "(cluster_step E)\<^sup>*\<^sup>* n n'" and "node_inv E n" and "proto_ok (lib E)" and "services_ok E"
  shows "node_inv E n'"
  using assms(1,2) by (induction rule: rtranclp_induct) (auto intro: node_inv_step assms(3,4))

section \<open>One message, end to end\<close>

abbreviation route_of :: "('t, 'm, 'h, 'c, 'l) cluster_env \<Rightarrow> 'm \<Rightarrow> u32" where
  "route_of E m \<equiv> name_id (fname (lib E) (mtype (lib E) m))"

text \<open>A node with nothing to do that listens on its own subject.\<close>

definition node_ready :: "('t, 'm, 'h, 'c, 'l) node \<Rightarrow> bool" where
  "node_ready n \<longleftrightarrow>
     running n \<and> subscription (natsSub n) \<and> \<not> queue_closed n \<and>
     subject (natsSub n) = getRemoteSubject (prefix n) (self_type n) (self_id n) \<and>
     buf (ch (natsSub n)) = [] \<and> 0 < cap (ch (natsSub n)) \<and> \<not> isclosed (ch (natsSub n)) \<and>
     buf (queue n) = [] \<and> 0 < cap (queue n) \<and> \<not> isclosed (queue n)"

definition knows :: "('t, 'm, 'h, 'c, 'l) node \<Rightarrow> ('t, 'm, 'h, 'c, 'l) node \<Rightarrow> bool" where
  "knows a b \<longleftrightarrow> GetType (members a) (self_id b) = Inr (self_type b) \<and> prefix a = prefix b"

definition fits :: "('t, 'm, 'h, 'c, 'l) cluster_env \<Rightarrow> MsgCommon \<Rightarrow> 'm \<Rightarrow> bool" where
  "fits E c m \<longleftrightarrow>
     (\<exists>rc rm. MarshalCommon (lib E) c = Inr rc \<and> Marshal (lib E) m = Inr rm \<and>
        length rc < 65536 \<and> length rm < 65536)"

definition type_free :: "('t, 'm, 'h, 'c, 'l) cluster_env \<Rightarrow> 'm \<Rightarrow> ('t, 'm, 'h, 'c, 'l) node \<Rightarrow> bool" where
  "type_free E m n \<longleftrightarrow> id2type (types n) (route_of E m) \<in> {None, Some (mtype (lib E) m)}"

lemma pack_in_ok:
  assumes "proto_ok (lib E)" and "reg_wf (lib E) (types n)" and "type_free E m n"
    and "fits E (c\<lparr>Route := route_of E m\<rparr>) m"
  obtains g where
    "pack_in E c m n = (n\<lparr>types := g\<rparr>, Ret (Inr (encode (lib E) (c\<lparr>Route := route_of E m\<rparr>, m))))"
    "reg_wf (lib E) g" "\<And>t i. type2id (types n) t = Some i \<Longrightarrow> type2id g t = Some i"
proof -
  obtain rc rm where raw: "MarshalCommon (lib E) (c\<lparr>Route := route_of E m\<rparr>) = Inr rc"
      "Marshal (lib E) m = Inr rm" "length rc < 65536" "length rm < 65536"
    using assms(4) by (auto simp: fits_def)
  obtain g where pk: "PackMessage (lib E) c m (types n) =
      (g, Ret (c\<lparr>Route := route_of E m\<rparr>, Inr (frame rc rm)))"
    using PackMessage_success [OF assms(2) assms(3) [unfolded type_free_def] raw(2,1)] by blast
  have "frame rc rm = encode (lib E) (c\<lparr>Route := route_of E m\<rparr>, m)"
    by (simp add: encode_def raw)
  then have "pack_in E c m n =
      (n\<lparr>types := g\<rparr>, Ret (Inr (encode (lib E) (c\<lparr>Route := route_of E m\<rparr>, m))))"
    by (simp add: pack_in_def pk)
  moreover have "reg_wf (lib E) g" using PackMessage_wf [OF assms(2), of c m] pk by simp
  moreover have "type2id g t = Some i" if "type2id (types n) t = Some i" for t i
    using PackMessage_keeps [OF assms(2) that, of c m] pk by simp
  ultimately show thesis by (rule that)
qed

text \<open>The message arrives, the receiving goroutine posts it, the worker runs it.\<close>

definition serve_one ::
    "('t, 'm, 'h, 'c, 'l) cluster_env \<Rightarrow> string \<Rightarrow> bytes \<Rightarrow> (('t, 'm, 'h, 'c, 'l) node, unit) proc" where
  "serve_one E subj data n =
     (case receive_turn E (nats_deliver subj data n) of
        Some n' \<Rightarrow> work_turn E n'
      | None \<Rightarrow> (n, Ret ()))"

lemma empty_chan: "buf c = [] \<Longrightarrow> c\<lparr>buf := []\<rparr> = c"
  by (cases c) simp

lemma ready_same:
  assumes "node_ready n"
  shows "n\<lparr>natsSub := (natsSub n)\<lparr>ch := (ch (natsSub n))\<lparr>buf := []\<rparr>\<rparr>\<rparr> = n"
    and "n\<lparr>queue := (queue n)\<lparr>buf := []\<rparr>\<rparr> = n"
  using assms empty_chan [of "ch (natsSub n)"] empty_chan [of "queue n"]
  by (simp_all add: node_ready_def)

lemma receive_frame:
  assumes "node_ready n" and "sendable (lib E) (types n) (c, m)"
    and "reqHandlers n (Route c) = Some h"
  shows "receive_turn E (nats_deliver (subject (natsSub n)) (encode (lib E) (c, m)) n) =
    Some (n\<lparr>queue := (queue n)\<lparr>buf := [Task (Some h) c m]\<rparr>\<rparr>)"
proof -
  have "ReadMessage (lib E) (types n) (encode (lib E) (c, m), None) = (Inr (c, m), ([], None))"
    using read_encode [OF assms(2), of "[]" None] by simp
  then have "process_msg E (encode (lib E) (c, m)) n =
      Some (n\<lparr>queue := (queue n)\<lparr>buf := [Task (Some h) c m]\<rparr>\<rparr>)"
    using assms(1,3) by (simp add: process_msg_def post_def node_ready_def chan_send_def)
  moreover have "receive_turn E (nats_deliver (subject (natsSub n)) data n) =
      process_msg E data (n\<lparr>natsSub := (natsSub n)\<lparr>ch := (ch (natsSub n))\<lparr>buf := []\<rparr>\<rparr>\<rparr>)" for data
    using assms(1)
    by (simp add: receive_turn_def nats_deliver_def chan_recv_def chan_send_def node_ready_def)
  ultimately show ?thesis by (simp only: ready_same [OF assms(1)])
qed

lemma serve_one_frame:
  assumes "node_ready n" and "sendable (lib E) (types n) (c, m)"
    and "reqHandlers n (Route c) = Some h"
  shows "serve_one E (subject (natsSub n)) (encode (lib E) (c, m)) n = call_handler E (Some h) c m n"
proof -
  have "work_turn E (n\<lparr>queue := (queue n)\<lparr>buf := [Task (Some h) c m]\<rparr>\<rparr>) =
      call_handler E (Some h) c m (n\<lparr>queue := (queue n)\<lparr>buf := []\<rparr>\<rparr>)"
    by (simp add: work_turn_def chan_recv_def)
  then show ?thesis
    by (simp only: serve_one_def receive_frame [OF assms] ready_same [OF assms(1)] option.case)
qed

text \<open>The header of a call, and the caller after it.\<close>

definition call_common :: "string \<Rightarrow> string \<Rightarrow> u32 \<Rightarrow> u32 \<Rightarrow> MsgCommon" where
  "call_common s x m r = (new_common s x m)\<lparr>Route := r\<rparr>"

lemma call_common_simps [simp]:
  "SourceId (call_common s x m r) = s" "TargetId (call_common s x m r) = x"
  "Mid (call_common s x m r) = m" "McSid (call_common s x m r) = []"
  "McUid (call_common s x m r) = 0" "Route (call_common s x m r) = r"
  by (simp_all add: call_common_def new_common_def MsgCommon_Reset_def)

lemma call_common_eq:
  "\<lparr>SourceId = s, TargetId = x, Mid = m, McSid = [], McUid = 0, Route = r\<rparr> = call_common s x m r"
  by (simp add: call_common_def new_common_def MsgCommon_Reset_def)

lemma call_common_Route: "(call_common s x m r)\<lparr>Route := r'\<rparr> = call_common s x m r'"
  by (simp add: call_common_def)

definition requested ::
    "('t, 'm, 'h, 'c, 'l) node \<Rightarrow> ('t, 'm, 'h, 'c, 'l) node \<Rightarrow> 'c \<Rightarrow> 't registry \<Rightarrow> bytes \<Rightarrow>
     ('t, 'm, 'h, 'c, 'l) node" where
  "requested A B cb g d =
     A\<lparr>requester := snd (registerCallback (Some cb) (requester A)), types := g,
       published := published A @ [(subject (natsSub B), d)]\<rparr>"

lemma request_step:
  assumes "proto_ok (lib E)" "publish_error E = (\<lambda>_ _. None)" "reg_wf (lib E) (types A)"
    and "node_ready A" "node_ready B" "knows A B" "type_free E req A"
    and "fits E (call_common (self_id A) (self_id B) (mid (requester A) + 1) (route_of E req)) req"
  obtains g where
    "requestAsync E (self_id B) req (Some cb) A =
      (requested A B cb g (encode (lib E) (call_common (self_id A) (self_id B)
          (mid (requester A) + 1) (route_of E req), req)), Ret None)"
    "reg_wf (lib E) g" "\<And>t i. type2id (types A) t = Some i \<Longrightarrow> type2id g t = Some i"
proof -
  let ?A = "A\<lparr>requester := snd (registerCallback (Some cb) (requester A))\<rparr>"
  let ?c = "new_common (self_id A) (self_id B) (mid (requester A) + 1)"
  let ?d = "encode (lib E) (call_common (self_id A) (self_id B) (mid (requester A) + 1)
    (route_of E req), req)"
  obtain g where g: "pack_in E ?c req ?A = (?A\<lparr>types := g\<rparr>, Ret (Inr ?d))"
      "reg_wf (lib E) g" "\<And>t i. type2id (types A) t = Some i \<Longrightarrow> type2id g t = Some i"
    by (rule pack_in_ok [of E ?A req ?c])
      (use assms in \<open>auto simp: type_free_def call_common_def\<close>)
  have "requestAsync E (self_id B) req (Some cb) A = (requested A B cb g ?d, Ret None)"
    using g(1) assms(2,4-6) SendBytes_ok [of "?A\<lparr>types := g\<rparr>" "self_id B" "self_type B" E ?d]
    by (simp add: requestAsync_def registerCallback_def send_request_def node_ready_def knows_def
        requested_def)
  from that [OF this g(2,3)] show thesis .
qed

text \<open>The header of an answer, and the whole turn of a node that answers a request.\<close>

definition answer_header :: "MsgCommon \<Rightarrow> u32 \<Rightarrow> MsgCommon" where
  "answer_header c r =
     \<lparr>SourceId = TargetId c, TargetId = SourceId c, Mid = Mid c, McSid = McSid c, McUid = McUid c, Route = r\<rparr>"

lemma answer_header_call: "answer_header (call_common s x m r) r' = call_common x s m r'"
  by (simp add: answer_header_def call_common_eq)

lemma answer_back:
  assumes "proto_ok (lib E)" "publish_error E = (\<lambda>_ _. None)" "reg_wf (lib E) (types B)"
    and "node_ready A" "node_ready B" "knows B A" "type_free E (answer req) B"
    and "type2id (types B) (mtype (lib E) req) = Some (route_of E req)"
    and "reqHandlers B (route_of E req) = Some (UserHandler (mtype (lib E) req) h)"
    and "run_handler E h = (\<lambda>s m. Resp E s (answer m))"
    and "SourceId c = self_id A" "Route c = route_of E req" "fits E c req"
    and "fits E (answer_header c (route_of E (answer req))) (answer req)"
  obtains B1 where
    "serve_one E (subject (natsSub B)) (encode (lib E) (c, req)) B = (B1, Ret ())"
    "published B1 = published B @ [(subject (natsSub A), encode (lib E)
        (answer_header c (route_of E (answer req)), answer req))]"
proof -
  let ?s = "answer_header c (Route c)"
  let ?d = "encode (lib E) (answer_header c (route_of E (answer req)), answer req)"
  have s: "?s\<lparr>Route := r\<rparr> = answer_header c r" for r by (simp add: answer_header_def)
  obtain g where g: "pack_in E ?s (answer req) B = (B\<lparr>types := g\<rparr>, Ret (Inr ?d))"
    using pack_in_ok [OF assms(1,3,7), of ?s] assms(14) unfolding s by metis
  have "sendable (lib E) (types B) (c, req)"
    using assms(1,3,8,12,13) by (auto simp: sendable_def fits_def)
  then have "serve_one E (subject (natsSub B)) (encode (lib E) (c, req)) B = Resp E c (answer req) B"
    using serve_one_frame [OF assms(5), of E c req] assms(9,10,12) by simp
  also have "\<dots> = (B\<lparr>types := g, published := published B @ [(subject (natsSub A), ?d)]\<rparr>, Ret ())"
    using g assms(2,4-6,11) SendBytes_ok [of "B\<lparr>types := g\<rparr>" "self_id A" "self_type A" E ?d]
    by (simp add: Resp_def answer_header_def node_ready_def knows_def)
  finally show thesis by (rule that) simp
qed

lemma answer_step:
  assumes "proto_ok (lib E)" "publish_error E = (\<lambda>_ _. None)" "reg_wf (lib E) (types B)"
    and "node_ready A" "node_ready B" "knows B A" "type_free E (answer req) B"
    and "type2id (types B) (mtype (lib E) req) = Some (route_of E req)"
    and "reqHandlers B (route_of E req) = Some (UserHandler (mtype (lib E) req) h)"
    and "run_handler E h = (\<lambda>s m. Resp E s (answer m))"
    and "fits E (call_common (self_id A) (self_id B) m (route_of E req)) req"
    and "fits E (call_common (self_id B) (self_id A) m (route_of E (answer req))) (answer req)"
  obtains B1 where
    "serve_one E (subject (natsSub B)) (encode (lib E) (call_common (self_id A) (self_id B) m
        (route_of E req), req)) B = (B1, Ret ())"
    "published B1 = published B @ [(subject (natsSub A), encode (lib E)
        (call_common (self_id B) (self_id A) m (route_of E (answer req)), answer req))]"
proof -
  let ?c = "call_common (self_id A) (self_id B) m (route_of E req)"
  have c: "SourceId ?c = self_id A" "Route ?c = route_of E req" "fits E ?c req"
    "fits E (answer_header ?c (route_of E (answer req))) (answer req)"
    using assms(11,12) by (simp_all add: answer_header_call)
  show thesis
    by (rule answer_back [OF assms(1-10) c]) (rule that, simp_all add: answer_header_call)
qed

section \<open>Two sample nodes\<close>

text \<open>
  The sum of the repository's demo call: a gate node asks an auth node with
  \<open>GtGaReqAB\<close>, which answers with \<open>GtGaRspAB\<close>.
\<close>

type_synonym sample_node = "(pb_type, pb_msg, unit, string, unit) node"

fun sum_answer :: "pb_msg \<Rightarrow> pb_msg" where
  "sum_answer (MGtGaReqAB m) =
     MGtGaRspAB \<lparr>GtGaRspAB_A = GtGaReqAB_A m, GtGaRspAB_B = GtGaReqAB_B m,
       GtGaRspAB_Sum = GtGaReqAB_A m + GtGaReqAB_B m\<rparr>"
| "sum_answer m = MRespAuth \<lparr>RespAuth_Code = 1\<rparr>"

definition sample_env0 :: "(pb_type, pb_msg, unit, string, unit) cluster_env" where
  "sample_env0 = \<lparr>lib = sample_lib, publish_error = (\<lambda>_ _. None),
     run_handler = (\<lambda>_ _ _ n. (n, Ret ())), run_callback = (\<lambda>_ _ _ n. (n, Ret ()))\<rparr>"

definition sample_env :: "(pb_type, pb_msg, unit, string, unit) cluster_env" where
  "sample_env = sample_env0\<lparr>run_handler := (\<lambda>_ s m. Resp sample_env0 s (sum_answer m))\<rparr>"

lemma sample_env_simps [simp]:
  "lib sample_env = sample_lib" "publish_error sample_env = (\<lambda>_ _. None)"
  "lib sample_env0 = sample_lib" "publish_error sample_env0 = (\<lambda>_ _. None)"
  "run_callback sample_env cb m e n = (n, Ret ())"
  by (simp_all add: sample_env_def sample_env0_def)

lemma Resp_env:
  assumes "lib E = lib E'" and "publish_error E = publish_error E'"
  shows "Resp E = Resp E'"
proof -
  have "pack_in E = pack_in E'" "natsConn_Publish E = natsConn_Publish E'"
    using assms by (simp_all add: fun_eq_iff pack_in_def natsConn_Publish_def)
  note eqs = this
  have "SendBytes E = SendBytes E'" by (intro ext) (simp only: SendBytes_def eqs)
  then show ?thesis by (intro ext) (simp only: Resp_def eqs)
qed

lemma sample_run_handler: "run_handler sample_env h = (\<lambda>s m. Resp sample_env s (sum_answer m))"
  using Resp_env [of sample_env sample_env0] by (simp add: sample_env_def)

definition sample_node :: "string \<Rightarrow> string \<Rightarrow> pb_type \<Rightarrow> (pb_type, unit) handler \<Rightarrow> sample_node" where
  "sample_node k ty t h =
     \<lparr>self_id = k, self_type = ty, running = True,
      members = empty_discovery\<lparr>memberMap :=
        [''g'' \<mapsto> \<lparr>NodeId = ''g'', NodeType = ''gate'', Address = []\<rparr>,
         ''a'' \<mapsto> \<lparr>NodeId = ''a'', NodeType = ''auth'', Address = []\<rparr>]\<rparr>,
      types = fst (RegisterMessage sample_lib (Some t) empty_registry),
      queue = make_chan 8, queue_closed = False, prefix = ''node'', bufferSize = 1024,
      natsSub = (newNatsSubject (getRemoteSubject ''node'' ty k) 1024)\<lparr>subscription := True\<rparr>,
      natsConn = \<lparr>conn_address = [], conn_running = True, connected = True\<rparr>,
      defaultHandler = Some LogHandler,
      reqHandlers = [name_id (full_name t) \<mapsto> h],
      requester = newRpcHandlerMgr, published = []\<rparr>"

definition sample_gate :: sample_node where
  "sample_gate = sample_node ''g'' ''gate'' TGtGaRspAB RespHandler"

definition sample_auth :: sample_node where
  "sample_auth = sample_node ''a'' ''auth'' TGtGaReqAB (UserHandler TGtGaReqAB ())"

definition sample_req :: pb_msg where
  "sample_req = MGtGaReqAB \<lparr>GtGaReqAB_A = 1, GtGaReqAB_B = 2\<rparr>"

lemmas sample_node_defs = sample_node_def sample_gate_def sample_auth_def sample_req_def
  newNatsSubject_def newRpcHandlerMgr_def

lemma sample_types:
  "types sample_gate = \<lparr>id2type = [name_id (full_name TGtGaRspAB) \<mapsto> TGtGaRspAB],
     type2id = [TGtGaRspAB \<mapsto> name_id (full_name TGtGaRspAB)],
     id2name = [name_id (full_name TGtGaRspAB) \<mapsto> full_name TGtGaRspAB]\<rparr>"
  "types sample_auth = \<lparr>id2type = [name_id (full_name TGtGaReqAB) \<mapsto> TGtGaReqAB],
     type2id = [TGtGaReqAB \<mapsto> name_id (full_name TGtGaReqAB)],
     id2name = [name_id (full_name TGtGaReqAB) \<mapsto> full_name TGtGaReqAB]\<rparr>"
  by (simp_all add: sample_node_defs RegisterMessage_def empty_registry_def del: full_name.simps)

lemma sample_wf: "handlers_wf sample_env sample_gate" "handlers_wf sample_env sample_auth"
  using RegisterMessage_wf [OF reg_wf_empty, of sample_lib "Some TGtGaRspAB"]
    RegisterMessage_wf [OF reg_wf_empty, of sample_lib "Some TGtGaReqAB"]
  by (auto simp: handlers_wf_def sample_node_defs RegisterMessage_def simp del: full_name.simps
      split: if_splits)

lemma sample_ready:
  "node_ready sample_gate" "node_ready sample_auth" "knows sample_gate sample_auth"
  "knows sample_auth sample_gate"
  by (simp_all add: node_ready_def knows_def sample_node_defs GetType_def GetMember_def)

lemma sample_ids: "name_id (full_name TGtGaReqAB) \<noteq> name_id (full_name TGtGaRspAB)"
  using crc32_full_name_inj [of TGtGaReqAB TGtGaRspAB] by blast

section \<open>Properties\<close>

text \<open>
  C8: A function registered with \<open>ListenMessage\<close> only ever gets messages of the type of
  its parameter. In every run of a node from a new cluster, whatever bytes arrive and in
  whatever order registrations, requests and messages come, no task that a worker goroutine
  takes makes the reflective call panic, whenever the goroutine runs it after that.
\<close>

theorem handlers_get_their_type:
  assumes "(cluster_step E)\<^sup>*\<^sup>* (fst (newCluster url addr n0)) n"
    and "reg_wf (lib E) (types n0)" and "buf (queue n0) = []"
    and "proto_ok (lib E)" and "services_ok E"
    and "chan_recv (queue n) = Received (Task (Some (UserHandler t h)) c m) q"
  shows "mtype (lib E) m = t \<and> work_turn E n = run_handler E h c m (n\<lparr>queue := q\<rparr>) \<and>
    (\<forall>n'. call_handler E (Some (UserHandler t h)) c m n' = run_handler E h c m n')"
proof -
  have "node_inv E n"
    by (rule node_inv_run [OF assms(1) node_inv_init [OF assms(2,3)] assms(4,5)])
  then have "mtype (lib E) m = t" using assms(6) by (auto simp: node_inv_def chan_simps)
  then show ?thesis using assms(6) by (simp add: work_turn_def)
qed

lemma sample_services_ok: "services_ok sample_env"
  unfolding services_ok_def by (auto simp: sample_run_handler intro: node_inv_Resp)

theorem handlers_get_their_type_witness:
  "\<exists>n q. (cluster_step sample_env)\<^sup>*\<^sup>* (fst (newCluster [] [] sample_auth)) n \<and>
     chan_recv (queue n) = Received (Task (Some (UserHandler TGtGaReqAB ()))
       (call_common ''g'' ''a'' 1 (name_id (full_name TGtGaReqAB))) sample_req) q \<and>
     pb_msg_type sample_req = TGtGaReqAB"
proof -
  let ?n0 = "fst (newCluster [] [] sample_auth) :: sample_node"
  let ?r = "name_id (full_name TGtGaReqAB)"
  let ?n1 = "?n0\<lparr>types := types sample_auth, reqHandlers := [?r \<mapsto> UserHandler TGtGaReqAB ()]\<rparr>"
  let ?n2 = "receive_start None (?n1\<lparr>natsConn := \<lparr>conn_address = [], conn_running = True, connected = True\<rparr>\<rparr>)"
  let ?c = "call_common ''g'' ''a'' 1 ?r"
  let ?t = "Task (Some (UserHandler TGtGaReqAB ())) ?c sample_req"
  note defs = newCluster_def NewNatsConn_def NewMessageHandlerMgr_def receive_start_def
  have t: "types ?n0 = types sample_auth" "reqHandlers ?n0 = Map.empty"
      "natsConn ?n0 = \<lparr>conn_address = [], conn_running = False, connected = False\<rparr>"
    by (simp_all add: defs)
  have s1: "cluster_step sample_env ?n0 ?n1"
    using Listen [of sample_env ?n0 "Func [SenderPtr, MsgPtr TGtGaReqAB] ()"]
    by (simp add: ListenMessage_def ListenMsg_def RegisterMessage_def t sample_types del: full_name.simps)
  have "connect_loop (\<lambda>_. None) 0 (natsConn ?n1) =
      Some (1, \<lparr>conn_address = [], conn_running = True, connected = True\<rparr>)"
    by (subst connect_loop.simps) (simp add: t)
  then have s2: "cluster_step sample_env ?n1 ?n2"
    by (intro Initialise [of "\<lambda>_. None" None]) (simp add: Cluster_Init_def Connect_def t)
  have ready: "node_ready ?n2" by (simp add: node_ready_def defs sample_node_defs)
  have "sendable (lib sample_env) (types ?n2) (?c, sample_req)"
    using sample_wf(2) by (simp add: sendable_def proto_ok_sample handlers_wf_def receive_start_def
        sample_types sample_req_def length_enc_common del: full_name.simps)
  then have s3: "receive_turn sample_env (nats_deliver (subject (natsSub ?n2))
      (encode (lib sample_env) (?c, sample_req)) ?n2) = Some (?n2\<lparr>queue := (queue ?n2)\<lparr>buf := [?t]\<rparr>\<rparr>)"
    by (intro receive_frame [OF ready]) (simp_all add: receive_start_def del: full_name.simps)
  have run: "(cluster_step sample_env)\<^sup>*\<^sup>* ?n0 (?n2\<lparr>queue := (queue ?n2)\<lparr>buf := [?t]\<rparr>\<rparr>)"
    using s1 s2 Deliver [of sample_env ?n2] Receive [OF s3]
    by (meson rtranclp.rtrancl_into_rtrancl rtranclp.rtrancl_refl)
  have recv: "chan_recv (queue (?n2\<lparr>queue := (queue ?n2)\<lparr>buf := [?t]\<rparr>\<rparr>)) =
      Received ?t ((queue ?n2)\<lparr>buf := []\<rparr>)"
    by (simp add: chan_recv_def)
  have "mtype (lib sample_env) sample_req = TGtGaReqAB"
    using handlers_get_their_type [OF run _ _ _ sample_services_ok recv] sample_wf(2)
    by (simp add: proto_ok_sample handlers_wf_def sample_node_defs(3) sample_node_def)
  then have "pb_msg_type sample_req = TGtGaReqAB" by simp
  with run recv show ?thesis by blast
qed

text \<open>
  A failed asynchronous request publishes nothing and reports its error, and its
  callback is neither called nor taken out of the table: the caller has no way to remove it.
\<close>

theorem failed_request_leaks_callback:
  assumes "requestAsync E k req (Some cb) n = (n', Ret (Some e))"
  shows "published n' = published n \<and>
    handlers (requester n') = (handlers (requester n))(mid (requester n) + 1 \<mapsto> cb)"
proof -
  let ?p = "snd (registerCallback (Some cb) (requester n))"
  have r: "send_request E k req (mid (requester n) + 1) (n\<lparr>requester := ?p\<rparr>) = (n', Ret (Some e))"
    using assms by (simp add: requestAsync_def registerCallback_def)
  obtain out g where "n' = n\<lparr>requester := ?p, types := g, published := out\<rparr>"
    using send_request_fst [of E k req "mid (requester n) + 1" "n\<lparr>requester := ?p\<rparr>"] r by auto
  moreover have "published n' = published n" using send_request_error [OF r] by simp
  ultimately show ?thesis by (simp add: registerCallback_def)
qed

theorem failed_request_leaks_callback_witness:
  "\<exists>n'. requestAsync sample_env ''gone'' sample_req (Some ''cb'') sample_gate =
       (n', Ret (Some (Errorf ''nodeId = %s not found.'' [ArgS ''gone'']))) \<and>
     published n' = [] \<and> handlers (requester n') 1 = Some ''cb''"
proof -
  let ?A = "sample_gate\<lparr>requester := snd (registerCallback (Some ''cb'') newRpcHandlerMgr)\<rparr>"
  have k: "requester sample_gate = newRpcHandlerMgr" "published sample_gate = []"
    "mid (newRpcHandlerMgr :: string requester) = 0"
    by (simp_all add: sample_node_defs)
  have tf: "type_free sample_env sample_req ?A"
    using sample_ids by (auto simp: type_free_def sample_types sample_req_def simp del: full_name.simps)
  have wf: "reg_wf (lib sample_env) (types ?A)" using sample_wf by (simp add: handlers_wf_def)
  obtain g d where "pack_in sample_env (new_common ''g'' ''gone'' 1) sample_req ?A =
      (?A\<lparr>types := g\<rparr>, Ret (Inr d))"
    by (rule pack_in_ok [OF _ wf tf, of "new_common ''g'' ''gone'' 1"])
      (auto simp: proto_ok_sample fits_def sample_req_def length_enc_common new_common_def
        MsgCommon_Reset_def)
  then have r: "requestAsync sample_env ''gone'' sample_req (Some ''cb'') sample_gate =
      (?A\<lparr>types := g\<rparr>, Ret (Some (Errorf ''nodeId = %s not found.'' [ArgS ''gone''])))"
    using k by (simp add: requestAsync_def registerCallback_def send_request_def SendBytes_def
        sample_node_defs GetType_def GetMember_def del: full_name.simps)
  have "published (?A\<lparr>types := g\<rparr>) = []" "handlers (requester (?A\<lparr>types := g\<rparr>)) 1 = Some ''cb''"
    using failed_request_leaks_callback [OF r] k by simp_all
  with r show ?thesis by blast
qed

text \<open>
  A callback is used up. When it has returned and been unregistered with nothing in between,
  its id is free again, and a second response with the same id makes the task panic in a call
  of a nil function before anything else happens: it neither reaches the callback again nor
  changes the node.
\<close>

theorem callback_at_most_once:
  assumes "call_handler E (Some RespHandler) c m1 n = (n1, Ret ())"
  shows "handlers (requester n1) (Mid c) = None \<and>
    call_handler E (Some RespHandler) c m2 n1 = (n1, Panic nil_call_text)"
proof -
  have "handlers (requester n1) (Mid c) = None"
    using assms by (auto simp: getCallback_def set_requester_def rq.lookup_drop
        split: option.splits prod.splits outcome.splits)
  then show ?thesis by (simp add: getCallback_def)
qed

theorem callback_at_most_once_witness:
  "let n = sample_gate\<lparr>requester := \<lparr>handlers = [1 \<mapsto> ''cb''], mid = 1\<rparr>\<rparr>;
       c = MsgCommon_Reset\<lparr>Mid := 1\<rparr>;
       n1 = n\<lparr>requester := \<lparr>handlers = Map.empty, mid = 1\<rparr>\<rparr>
   in call_handler sample_env (Some RespHandler) c sample_req n = (n1, Ret ()) \<and>
      call_handler sample_env (Some RespHandler) c sample_req n1 = (n1, Panic nil_call_text)"
proof -
  let ?n = "sample_gate\<lparr>requester := \<lparr>handlers = [1 \<mapsto> ''cb''], mid = 1\<rparr>\<rparr>"
  let ?n1 = "?n\<lparr>requester := \<lparr>handlers = Map.empty, mid = 1\<rparr>\<rparr>"
  let ?c = "MsgCommon_Reset\<lparr>Mid := 1\<rparr>"
  have r: "call_handler sample_env (Some RespHandler) ?c sample_req ?n = (?n1, Ret ())"
    by (simp add: getCallback_def set_requester_def unregisterCallback_def)
  from callback_at_most_once [OF r, of sample_req] r show ?thesis by simp
qed

text \<open>
  C2: A remote call, end to end. Between two ready nodes that know each other, the request
  is published once, on the subject of the other node; there the registered function gets it
  and its answer is published once, on the subject of the caller; there the answer runs the
  caller's callback with no error, and then the id of the request is free again.
\<close>

theorem rpc_roundtrip:
  fixes A B :: "('t, 'm, 'h, 'c, 'l) node"
  assumes "proto_ok (lib E)" and "publish_error E = (\<lambda>_ _. None)"
    and "node_ready A" "node_ready B" "knows A B" "knows B A" "handlers_wf E A" "handlers_wf E B"
    and "reqHandlers B (route_of E req) = Some (UserHandler (mtype (lib E) req) h)"
    and "run_handler E h = (\<lambda>s m. Resp E s (answer m))"
    and "reqHandlers A (route_of E (answer req)) = Some RespHandler"
    and "type2id (types A) (mtype (lib E) (answer req)) = Some (route_of E (answer req))"
    and "type_free E req A" "type_free E (answer req) B"
    and "fits E (call_common (self_id A) (self_id B) (mid (requester A) + 1) (route_of E req)) req"
    and "fits E (call_common (self_id B) (self_id A) (mid (requester A) + 1)
        (route_of E (answer req))) (answer req)"
  shows "\<exists>A1 B1 d1 d2. requestAsync E (self_id B) req (Some cb) A = (A1, Ret None) \<and>
      published A1 = published A @ [(subject (natsSub B), d1)] \<and>
      handlers (requester A1) = (handlers (requester A))(mid (requester A) + 1 \<mapsto> cb) \<and>
      serve_one E (subject (natsSub B)) d1 B = (B1, Ret ()) \<and>
      published B1 = published B @ [(subject (natsSub A), d2)] \<and>
      serve_one E (subject (natsSub A)) d2 A1 =
        seq_proc (run_callback E cb (answer req) None)
          (\<lambda>_ n. (set_requester (unregisterCallback (mid (requester A) + 1)) n, Ret ())) A1"
proof -
  let ?m = "mid (requester A) + 1"
  let ?c1 = "call_common (self_id A) (self_id B) ?m (route_of E req)"
  let ?c2 = "call_common (self_id B) (self_id A) ?m (route_of E (answer req))"
  obtain g where A1: "requestAsync E (self_id B) req (Some cb) A =
      (requested A B cb g (encode (lib E) (?c1, req)), Ret None)"
    and g: "reg_wf (lib E) g" "\<And>t i. type2id (types A) t = Some i \<Longrightarrow> type2id g t = Some i"
    using request_step [of E A B req cb] assms by (auto simp: handlers_wf_def)
  have t: "type2id (types B) (mtype (lib E) req) = Some (route_of E req)"
    using assms(8,9) by (auto simp: handlers_wf_def)
  obtain B1 where B1: "serve_one E (subject (natsSub B)) (encode (lib E) (?c1, req)) B = (B1, Ret ())"
      "published B1 = published B @ [(subject (natsSub A), encode (lib E) (?c2, answer req))]"
    using answer_step [of E B A answer req h ?m] assms t by (auto simp: handlers_wf_def)
  let ?A1 = "requested A B cb g (encode (lib E) (?c1, req))"
  have "sendable (lib E) (types ?A1) (?c2, answer req)"
    using assms(1,16) g(1) g(2) [OF assms(12)]
    by (auto simp: sendable_def fits_def requested_def call_common_def)
  then have "serve_one E (subject (natsSub A)) (encode (lib E) (?c2, answer req)) ?A1 =
      call_handler E (Some RespHandler) ?c2 (answer req) ?A1"
    using serve_one_frame [of ?A1 E ?c2 "answer req" RespHandler] assms(3,11)
    by (simp add: node_ready_def requested_def call_common_def)
  then show ?thesis using A1 B1
    by (intro exI [of _ ?A1] exI [of _ B1] exI conjI)
      (auto simp: getCallback_def requested_def registerCallback_def call_common_simps)
qed

theorem rpc_roundtrip_witness:
  "\<exists>A1 B1 d1 d2. requestAsync sample_env ''a'' sample_req (Some ''cb'') sample_gate = (A1, Ret None) \<and>
     published A1 = [(subject (natsSub sample_auth), d1)] \<and>
     serve_one sample_env (subject (natsSub sample_auth)) d1 sample_auth = (B1, Ret ()) \<and>
     published B1 = [(subject (natsSub sample_gate), d2)] \<and>
     serve_one sample_env (subject (natsSub sample_gate)) d2 A1 =
       (set_requester (unregisterCallback 1) A1, Ret ())"
proof -
  have ids: "name_id (full_name TGtGaReqAB) \<noteq> name_id (full_name TGtGaRspAB)" by (rule sample_ids)
  have k: "self_id sample_auth = ''a''" "self_id sample_gate = ''g''" "published sample_gate = []"
    "published sample_auth = []" "requester sample_gate = newRpcHandlerMgr"
    by (simp_all add: sample_node_defs)
  have f: "fits sample_env (call_common s x m r) sample_req"
    "fits sample_env (call_common s x m r) (sum_answer sample_req)"
    if "length s = 1" "length x = 1" for s x m r
    using that by (simp_all add: fits_def sample_req_def length_enc_common)
  have m: "mid (newRpcHandlerMgr :: string requester) = 0" by (simp add: newRpcHandlerMgr_def)
  have t: "pb_msg_type sample_req = TGtGaReqAB" "pb_msg_type (sum_answer sample_req) = TGtGaRspAB"
    by (simp_all add: sample_req_def)
  have h: "reqHandlers sample_auth (name_id (full_name TGtGaReqAB)) = Some (UserHandler TGtGaReqAB ())"
    "reqHandlers sample_gate (name_id (full_name TGtGaRspAB)) = Some RespHandler"
    by (simp_all add: sample_node_defs del: full_name.simps)
  have "\<exists>A1 B1 d1 d2. requestAsync sample_env ''a'' sample_req (Some ''cb'') sample_gate = (A1, Ret None) \<and>
     published A1 = [(subject (natsSub sample_auth), d1)] \<and>
     handlers (requester A1) = (handlers newRpcHandlerMgr)(1 \<mapsto> ''cb'') \<and>
     serve_one sample_env (subject (natsSub sample_auth)) d1 sample_auth = (B1, Ret ()) \<and>
     published B1 = [(subject (natsSub sample_gate), d2)] \<and>
     serve_one sample_env (subject (natsSub sample_gate)) d2 A1 =
       (set_requester (unregisterCallback 1) A1, Ret ())"
    using rpc_roundtrip [of sample_env sample_gate sample_auth sample_req "()" sum_answer "''cb''",
        OF _ _ sample_ready sample_wf _ sample_run_handler]
    by (simp add: proto_ok_sample f k m t h type_free_def sample_types ids [symmetric] ids
        del: full_name.simps)
  then show ?thesis by blast
qed

end
