(* ===== verification/Executor.thy ===== *)
theory Executor
  imports Worker
begin

text \<open>
  What the framework promises of its worker, \<open>IWorker\<close> of \<^verbatim>\<open>framework/facade/worker.go\<close>:
  functions are taken over in some order and run one at a time in that order. The specification
  knows no goroutines, channel or counters; the worker, started once, refines it.
\<close>

section \<open>The specification\<close>

record 't executor =
  ran :: "'t list"
  waiting :: "'t list"

inductive executor_step :: "'t executor \<Rightarrow> 't executor \<Rightarrow> bool" where
  Take: "executor_step s (s\<lparr>waiting := waiting s @ [f]\<rparr>)"
| Run: "waiting s = f # rest \<Longrightarrow> executor_step s (s\<lparr>ran := ran s @ [f], waiting := rest\<rparr>)"

definition idle_executor :: "'t executor" where
  "idle_executor = \<lparr>ran = [], waiting = []\<rparr>"

section \<open>Refinement as an interface\<close>

text \<open>
  A machine implements abstract steps when each of its steps from a good state is one of
  them or none, and leads to a good state; then so do its runs.
\<close>

locale implements =
  fixes cstep :: "'c \<Rightarrow> 'c \<Rightarrow> bool"
    and astep :: "'a \<Rightarrow> 'a \<Rightarrow> bool"
    and abs :: "'c \<Rightarrow> 'a"
    and good :: "'c \<Rightarrow> bool"
  assumes sim: "good c \<Longrightarrow> cstep c d \<Longrightarrow> abs d = abs c \<or> astep (abs c) (abs d)"
    and stays_good: "good c \<Longrightarrow> cstep c d \<Longrightarrow> good d"
begin

lemma runs:
  assumes "cstep\<^sup>*\<^sup>* c d" and "good c"
  shows "astep\<^sup>*\<^sup>* (abs c) (abs d) \<and> good d"
  using assms
proof (induction rule: rtranclp_induct)
  case (step d e)
  then have g: "good d" and r: "astep\<^sup>*\<^sup>* (abs c) (abs d)" by simp_all
  from sim [OF g step(2)] show ?case
  proof
    assume "abs e = abs d"
    then show ?thesis using r stays_good [OF g step(2)] by simp
  next
    assume "astep (abs d) (abs e)"
    then show ?thesis using r stays_good [OF g step(2)] by (auto intro: rtranclp.rtrancl_into_rtrancl)
  qed
qed simp

end

section \<open>The worker implements it\<close>

definition abs_worker :: "'t worker \<Rightarrow> 't executor" where
  "abs_worker w = \<lparr>ran = finished w, waiting = flying w @ buf (fs w)\<rparr>"

text \<open>The steps of a worker that is not started a second time.\<close>

definition single_step :: "('t \<Rightarrow> bool) \<Rightarrow> 't worker \<Rightarrow> 't worker \<Rightarrow> bool" where
  "single_step ok w w' \<longleftrightarrow> worker_step ok w w' \<and> starts w' \<le> 1"

definition one_goroutine :: "'t worker \<Rightarrow> bool" where
  "one_goroutine w \<longleftrightarrow> actives w \<le> starts w \<and> starts w \<le> 1"

lemma actives_step:
  assumes "worker_step ok w w'" and "actives w \<le> starts w"
  shows "actives w' \<le> starts w'"
  using assms(1) by (cases rule: worker_step.cases) (use assms(2) in \<open>auto simp: op_defs actives_def\<close>)

text \<open>Running a function is the moment it returns or panics; the rest is the taking of one.\<close>

lemma abs_worker_step:
  assumes "worker_step ok w w'" and "actives w \<le> 1"
  shows "abs_worker w' = abs_worker w \<or> executor_step (abs_worker w) (abs_worker w')"
  using assms(1)
proof (cases rule: worker_step.cases)
  case (Post_send xs f ys c)
  have "executor_step (abs_worker w) ((abs_worker w)\<lparr>waiting := waiting (abs_worker w) @ [f]\<rparr>)" by (rule Take)
  then show ?thesis using Post_send by (auto simp: abs_worker_def flying_def chan_simps)
next
  case (Receive xs ys f c)
  then show ?thesis using single_runner [OF assms(2) Receive(2)]
    by (auto simp: abs_worker_def flying_def chan_simps simp del: concat_eq_Nil_conv)
next
  case (Return xs f ys)
  have w: "waiting (abs_worker w) = f # buf (fs w)"
    using Return single_runner [OF assms(2) Return(2)]
    by (simp add: abs_worker_def flying_def del: concat_eq_Nil_conv)
  then show ?thesis using Run [OF w] Return single_runner [OF assms(2) Return(2)]
    by (simp add: abs_worker_def flying_def del: concat_eq_Nil_conv)
next
  case (Crash xs f ys)
  have w: "waiting (abs_worker w) = f # buf (fs w)"
    using Crash single_runner [OF assms(2) Crash(2)]
    by (simp add: abs_worker_def flying_def del: concat_eq_Nil_conv)
  then show ?thesis using Run [OF w] Crash single_runner [OF assms(2) Crash(2)]
    by (simp add: abs_worker_def flying_def restart_def del: concat_eq_Nil_conv)
qed (auto simp: abs_worker_def flying_def op_defs chan_simps)

interpretation worker: implements "single_step ok" executor_step abs_worker one_goroutine for ok :: "'t \<Rightarrow> bool"
proof unfold_locales
  fix c d :: "'t worker"
  assume g: "one_goroutine c" and s: "single_step ok c d"
  show "abs_worker d = abs_worker c \<or> executor_step (abs_worker c) (abs_worker d)"
    using g s by (intro abs_worker_step) (auto simp: one_goroutine_def single_step_def)
  show "one_goroutine d"
    using g s actives_step [of ok c d] by (simp add: one_goroutine_def single_step_def)
qed

lemma single_steps:
  assumes "(worker_step ok)\<^sup>*\<^sup>* w w'" and "starts w' \<le> 1"
  shows "(single_step ok)\<^sup>*\<^sup>* w w'"
  using assms
proof (induction rule: rtranclp_induct)
  case (step w1 w2)
  then have "starts w1 \<le> 1" using starts_mono le_trans by blast
  moreover have "single_step ok w1 w2" using step by (simp add: single_step_def)
  ultimately show ?case using step(3) by (auto intro: rtranclp.rtrancl_into_rtrancl)
qed simp

text \<open>
  C15: A worker that has been started at most once refines the executor. In every
  interleaving of its goroutine with callers of \<open>Post\<close>, timers and \<open>Stop\<close>, and whichever
  functions panic, what it has run and what it still holds is the result of taking functions
  over and running the first of them, one at a time.
\<close>

theorem worker_refines_executor:
  assumes "NewWorker n = Ret w0" and "(worker_step ok)\<^sup>*\<^sup>* w0 w" and "starts w \<le> 1"
  shows "executor_step\<^sup>*\<^sup>* idle_executor \<lparr>ran = finished w, waiting = flying w @ buf (fs w)\<rparr>"
proof -
  have "one_goroutine w0" "abs_worker w0 = idle_executor"
    using assms(1)
    by (auto simp: NewWorker_def one_goroutine_def actives_def abs_worker_def flying_def idle_executor_def
        split: if_splits)
  then show ?thesis using worker.runs [OF single_steps [OF assms(2,3)]] by (simp add: abs_worker_def)
qed

theorem worker_refines_executor_witness:
  "executor_step\<^sup>*\<^sup>* idle_executor \<lparr>ran = [False], waiting = [True]\<rparr>"
proof -
  obtain w0 where w0: "NewWorker 4 = Ret w0" "(worker_step id)\<^sup>*\<^sup>* w0 wk_crashed"
    using wk_crashed_reach by (auto simp: worker_reach_def)
  have "finished wk_crashed = [False]" "flying wk_crashed @ buf (fs wk_crashed) = [True]" "starts wk_crashed \<le> 1"
    by (simp_all add: wk_crashed_sel flying_def)
  with worker_refines_executor [OF w0] show ?thesis by simp
qed

end
