(* ===== verification/Network.thy ===== *)
theory Network
  imports Cluster Executor
begin

text \<open>
  Many nodes that call each other at the same time. The requests of all nodes, the messages
  on their way, the receiving goroutines and the two worker goroutines of each node interleave
  in any order, also between the look-up of a callback and its removal; a message may come
  late or never, but not twice: NATS delivers at most once. The specification is a machine
  that knows calls and their results only.
\<close>

section \<open>The specification: calls return\<close>

text \<open>
  A call is the node that makes it, its request id, the request and the callback. It
  returns at most once, with an answer to its own request.
\<close>

record ('m, 'c) rpc =
  issued :: "(string \<times> u32 \<times> 'm \<times> 'c) set"
  returned_calls :: "((string \<times> u32) \<times> 'c \<times> 'm) list"

definition no_calls :: "('m, 'c) rpc" where
  "no_calls = \<lparr>issued = {}, returned_calls = []\<rparr>"

inductive rpc_step :: "('h \<Rightarrow> 'm \<Rightarrow> 'm) \<Rightarrow> ('m, 'c) rpc \<Rightarrow> ('m, 'c) rpc \<Rightarrow> bool" for ans where
  Issue: "\<forall>(j, y, _) \<in> issued s. (j, y) \<noteq> (i, x) \<Longrightarrow>
    rpc_step ans s (s\<lparr>issued := insert (i, x, req, cb) (issued s)\<rparr>)"
| Complete: "\<lbrakk>(i, x, req, cb) \<in> issued s; (i, x) \<notin> set (map fst (returned_calls s))\<rbrakk> \<Longrightarrow>
    rpc_step ans s (s\<lparr>returned_calls := returned_calls s @ [((i, x), cb, ans h req)]\<rparr>)"

definition rpc_inv :: "('h \<Rightarrow> 'm \<Rightarrow> 'm) \<Rightarrow> ('m, 'c) rpc \<Rightarrow> bool" where
  "rpc_inv ans s \<longleftrightarrow>
     inj_on (\<lambda>(i, x, _). (i, x)) (issued s) \<and> distinct (map fst (returned_calls s)) \<and>
     (\<forall>((i, x), cb, a) \<in> set (returned_calls s). \<exists>req h. (i, x, req, cb) \<in> issued s \<and> a = ans h req)"

lemma rpc_inv_step:
  assumes "rpc_step ans s s'" and "rpc_inv ans s"
  shows "rpc_inv ans s'"
  using assms(1)
proof (cases rule: rpc_step.cases)
  case (Issue i x req cb)
  have "inj_on (\<lambda>(i, x, _). (i, x)) (insert (i, x, req, cb) (issued s))"
    using assms(2) Issue(2) by (force simp: rpc_inv_def inj_on_def)
  then show ?thesis using assms(2) Issue(1) by (fastforce simp: rpc_inv_def)
next
  case (Complete i x req cb h)
  then show ?thesis using assms(2) by (fastforce simp: rpc_inv_def)
qed

lemma rpc_inv_run: "(rpc_step ans)\<^sup>*\<^sup>* no_calls s \<Longrightarrow> rpc_inv ans s"
proof (induction rule: rtranclp_induct)
  case base
  show ?case by (simp add: rpc_inv_def no_calls_def)
qed (rule rpc_inv_step)

section \<open>The network\<close>

text \<open>
  \<open>jobs\<close> is what the worker goroutines of a node are at, \<open>transit\<close> what has been published and not
  been delivered yet. \<open>asked\<close> and \<open>answered\<close> record the calls made (node, id, target, request,
  callback) and the callbacks begun.
\<close>

type_synonym ('m, 'c) call = "string \<times> u32 \<times> string \<times> 'm \<times> 'c"

record ('t, 'm, 'h, 'c, 'l) net =
  net_nodes :: "string \<Rightarrow> ('t, 'm, 'h, 'c, 'l) node option"
  jobs :: "string \<Rightarrow> ('t, 'm, 'h) job list"
  transit :: "(string \<times> bytes) list"
  asked :: "('m, 'c) call list"
  answered :: "((string \<times> u32) \<times> 'c \<times> 'm) list"

definition request_of :: "('t, 'm, 'h, 'c, 'l) cluster_env \<Rightarrow> ('m, 'c) call \<Rightarrow> MsgCommon \<times> 'm" where
  "request_of E q = (case q of (i, x, k, req, cb) \<Rightarrow> (call_common i k x (route_of E req), req))"

definition answer_of ::
    "('t, 'm, 'h, 'c, 'l) cluster_env \<Rightarrow> ('h \<Rightarrow> 'm \<Rightarrow> 'm) \<Rightarrow> 'h \<Rightarrow> ('m, 'c) call \<Rightarrow> MsgCommon \<times> 'm" where
  "answer_of E ans h q =
     (case q of (i, x, k, req, cb) \<Rightarrow> (call_common k i x (route_of E (ans h req)), ans h req))"

text \<open>
  A service: requests and answers are of different types, and both fit a frame. Each handler
  answers a request once, with \<open>ans\<close>. Nothing is said of the callbacks: what they do to their
  node are further steps of it.
\<close>

definition call_ok ::
    "('t, 'm, 'h, 'c, 'l) cluster_env \<Rightarrow> ('h \<Rightarrow> 'm \<Rightarrow> 'm) \<Rightarrow> ('m \<Rightarrow> bool) \<Rightarrow> ('m, 'c) call \<Rightarrow> bool" where
  "call_ok E ans is_req q \<longleftrightarrow>
     is_req (snd (request_of E q)) \<and> fits E (fst (request_of E q)) (snd (request_of E q)) \<and>
     (\<forall>h. \<not> is_req (snd (answer_of E ans h q)) \<and> fits E (fst (answer_of E ans h q)) (snd (answer_of E ans h q)))"

definition answering :: "('t, 'm, 'h, 'c, 'l) cluster_env \<Rightarrow> ('h \<Rightarrow> 'm \<Rightarrow> 'm) \<Rightarrow> bool" where
  "answering E ans \<longleftrightarrow> proto_ok (lib E) \<and> inj (\<lambda>t. name_id (fname (lib E) t)) \<and>
     (\<forall>h. run_handler E h = (\<lambda>c m. Resp E c (ans h m)))"

text \<open>Request types have handlers of services, answer types the one of \<open>RegisterResponse\<close>.\<close>

definition roles ::
    "('t, 'm, 'h, 'c, 'l) cluster_env \<Rightarrow> ('m \<Rightarrow> bool) \<Rightarrow> ('t, 'm, 'h, 'c, 'l) node \<Rightarrow> bool" where
  "roles E is_req n \<longleftrightarrow>
     (\<forall>m. reqHandlers n (route_of E m) = Some RespHandler \<longrightarrow> \<not> is_req m) \<and>
     (\<forall>m t h. reqHandlers n (route_of E m) = Some (UserHandler t h) \<longrightarrow> is_req m) \<and>
     (\<forall>i h. reqHandlers n i \<noteq> Some (DefaultHandler h)) \<and>
     defaultHandler n \<in> {None, Some LogHandler}"

definition dot_free :: "string \<Rightarrow> bool" where
  "dot_free ty \<longleftrightarrow> CHR ''.'' \<notin> set ty"

definition site ::
    "('t, 'm, 'h, 'c, 'l) cluster_env \<Rightarrow> ('m \<Rightarrow> bool) \<Rightarrow> string \<Rightarrow> string \<Rightarrow> ('t, 'm, 'h, 'c, 'l) node \<Rightarrow> bool" where
  "site E is_req p i n \<longleftrightarrow> self_id n = i \<and> prefix n = p \<and>
     subject (natsSub n) = getRemoteSubject p (self_type n) i \<and> dot_free (self_type n) \<and>
     (\<forall>k ty. GetType (members n) k = Inr ty \<longrightarrow> dot_free ty) \<and>
     reg_wf (lib E) (types n) \<and> roles E is_req n"

text \<open>The callback that a task begins, if any, and the frames that an operation has added.\<close>

definition callback_run ::
    "string \<Rightarrow> ('t, 'm, 'h) task \<Rightarrow> ('t, 'm, 'h, 'c, 'l) node \<Rightarrow> ((string \<times> u32) \<times> 'c \<times> 'm) list" where
  "callback_run i t n =
     (case t of Task h c m \<Rightarrow>
        if h = Some RespHandler
        then (case find_callback (Mid c) (requester n) of Some cb \<Rightarrow> [((i, Mid c), cb, m)] | None \<Rightarrow> [])
        else [])"

definition emitted ::
    "('t, 'm, 'h, 'c, 'l) node \<Rightarrow> ('t, 'm, 'h, 'c, 'l) node \<Rightarrow> (string \<times> bytes) list" where
  "emitted n n' = drop (length (published n)) (published n')"

text \<open>
  \<open>Ask\<close> is \<open>requestAsync\<close>, and \<open>requestWait\<close> up to its select. \<open>Carry\<close> delivers a frame, once;
  a frame that is never carried is lost. A worker goroutine takes a task (\<open>Takes\<close>), begins it
  (\<open>Begins\<close>), and a callback ends by returning, after which its id is unregistered (\<open>Ends\<close>), by a
  panic, which skips that (\<open>Panics\<close>), or never. \<open>requestAsync\<close> and \<open>Resp\<close> are one step each: what
  they publish is delivered by a later step.
\<close>

inductive net_step ::
    "('t, 'm, 'h, 'c, 'l) cluster_env \<Rightarrow> ('h \<Rightarrow> 'm \<Rightarrow> 'm) \<Rightarrow> ('m \<Rightarrow> bool) \<Rightarrow>
     ('t, 'm, 'h, 'c, 'l) net \<Rightarrow> ('t, 'm, 'h, 'c, 'l) net \<Rightarrow> bool" for E ans is_req where
  Ask: "\<lbrakk>net_nodes s i = Some n; requestAsync E k req (Some cb) n = (n', r);
      call_ok E ans is_req (i, mid (requester n) + 1, k, req, cb)\<rbrakk> \<Longrightarrow>
    net_step E ans is_req s (s\<lparr>net_nodes := (net_nodes s)(i \<mapsto> n'), transit := transit s @ emitted n n',
      asked := asked s @ [(i, mid (requester n) + 1, k, req, cb)]\<rparr>)"
| Tell: "\<lbrakk>net_nodes s i = Some n; PublishMsg E k msg n = (n', r); call_ok E ans is_req (i, 0, k, msg, cb)\<rbrakk> \<Longrightarrow>
    net_step E ans is_req s (s\<lparr>net_nodes := (net_nodes s)(i \<mapsto> n'), transit := transit s @ emitted n n'\<rparr>)"
| Carry: "\<lbrakk>(subj, d) \<in> set (transit s); net_nodes s j = Some n\<rbrakk> \<Longrightarrow>
    net_step E ans is_req s (s\<lparr>net_nodes := (net_nodes s)(j \<mapsto> nats_deliver subj d n),
      transit := remove1 (subj, d) (transit s)\<rparr>)"
| Receive: "\<lbrakk>net_nodes s i = Some n; receive_turn E n = Some n'\<rbrakk> \<Longrightarrow>
    net_step E ans is_req s (s\<lparr>net_nodes := (net_nodes s)(i \<mapsto> n')\<rparr>)"
| Takes: "\<lbrakk>net_nodes s i = Some n; length (jobs s i) < worker_goroutines; take_task n = Some (t, n')\<rbrakk> \<Longrightarrow>
    net_step E ans is_req s (s\<lparr>net_nodes := (net_nodes s)(i \<mapsto> n'),
      jobs := (jobs s)(i := jobs s i @ [Holding t])\<rparr>)"
| Begins: "\<lbrakk>net_nodes s i = Some n; jobs s i = js @ Holding t # ks; start_job E t n = (n', new)\<rbrakk> \<Longrightarrow>
    net_step E ans is_req s (s\<lparr>net_nodes := (net_nodes s)(i \<mapsto> n'), jobs := (jobs s)(i := js @ new @ ks),
      transit := transit s @ emitted n n', answered := answered s @ callback_run i t n\<rparr>)"
| Ends: "\<lbrakk>net_nodes s i = Some n; jobs s i = js @ Calling x # ks\<rbrakk> \<Longrightarrow>
    net_step E ans is_req s (s\<lparr>net_nodes := (net_nodes s)(i \<mapsto>
      n\<lparr>requester := unregisterCallback x (requester n)\<rparr>), jobs := (jobs s)(i := js @ ks)\<rparr>)"
| Panics: "\<lbrakk>net_nodes s i = Some n; jobs s i = js @ Calling x # ks\<rbrakk> \<Longrightarrow>
    net_step E ans is_req s (s\<lparr>jobs := (jobs s)(i := js @ ks)\<rparr>)"
| Members: "\<lbrakk>net_nodes s i = Some n; \<forall>k ty. GetType tab k = Inr ty \<longrightarrow> dot_free ty\<rbrakk> \<Longrightarrow>
    net_step E ans is_req s (s\<lparr>net_nodes := (net_nodes s)(i \<mapsto> n\<lparr>members := tab\<rparr>)\<rparr>)"
| Runs: "net_nodes s i = Some n \<Longrightarrow>
    net_step E ans is_req s (s\<lparr>net_nodes := (net_nodes s)(i \<mapsto> n\<lparr>running := b\<rparr>)\<rparr>)"

section \<open>Invariant\<close>

text \<open>
  Every message on its way is a request of a recorded call or a notification, whose id is 0,
  or the answer of some handler to one of them.
\<close>

definition honest ::
    "('t, 'm, 'h, 'c, 'l) cluster_env \<Rightarrow> ('h \<Rightarrow> 'm \<Rightarrow> 'm) \<Rightarrow> ('m \<Rightarrow> bool) \<Rightarrow> ('m, 'c) call set \<Rightarrow>
     MsgCommon \<times> 'm \<Rightarrow> bool" where
  "honest E ans is_req A cm \<longleftrightarrow>
     (\<exists>q. call_ok E ans is_req q \<and> (q \<in> A \<or> fst (snd q) = 0) \<and>
        (cm = request_of E q \<or> (\<exists>h. cm = answer_of E ans h q)))"

lemma honest_mono: "honest E ans is_req A cm \<Longrightarrow> A \<subseteq> B \<Longrightarrow> honest E ans is_req B cm"
  unfolding honest_def by blast

lemma honest_fits:
  assumes "honest E ans is_req A (c, m)"
  shows "fits E c m \<and> Route c = route_of E m"
  using assms
  by (auto simp: honest_def call_ok_def request_of_def answer_of_def split: prod.splits)

text \<open>What a node does with a frame that fits: it drops it, or sees the message itself.\<close>

lemma read_fitting:
  assumes P: "proto_ok (lib E)" and inj: "inj (\<lambda>t. name_id (fname (lib E) t))" and "reg_wf (lib E) g"
    and "fits E c m" and "Route c = route_of E m"
  shows "\<exists>r. fst (ReadMessage (lib E) g (encode (lib E) (c, m), None)) = r \<and> (r = Inr (c, m) \<or> (\<exists>e. r = Inl e))"
proof -
  obtain rc rm where raw: "MarshalCommon (lib E) c = Inr rc" "Marshal (lib E) m = Inr rm"
      "length rc < 65536" "length rm < 65536"
    using assms(4) by (auto simp: fits_def)
  show ?thesis
  proof (cases "id2type g (Route c)")
    case None
    from read_unregistered [OF P raw this] show ?thesis by auto
  next
    case (Some t)
    then have t: "type2id g t = Some (Route c)" using reg_wfD(1) [OF assms(3)] by simp
    then have "name_id (fname (lib E) t) = name_id (fname (lib E) (mtype (lib E) m))"
      using reg_wfD(2) [OF assms(3)] assms(5) by metis
    then have "t = mtype (lib E) m" using inj by (simp add: inj_def)
    then have "sendable (lib E) g (c, m)" using t raw assms(3) P by (simp add: sendable_def)
    then show ?thesis using read_encode [of "lib E" g "(c, m)" "[]" None] by simp
  qed
qed

lemma read_honest:
  assumes "answering E ans" and "reg_wf (lib E) g" and "honest E ans is_req A (c, m)"
  shows "\<exists>r. fst (ReadMessage (lib E) g (encode (lib E) (c, m), None)) = r \<and> (r = Inr (c, m) \<or> (\<exists>e. r = Inl e))"
  using read_fitting [OF _ _ assms(2)] honest_fits [OF assms(3)] assms(1) by (simp add: answering_def)

text \<open>A frame is a frame of one message only.\<close>

lemma encode_inj:
  assumes P: "proto_ok (lib E)" and inj: "inj (\<lambda>t. name_id (fname (lib E) t))"
    and "fits E c m" "Route c = route_of E m" and "fits E c' m'" "Route c' = route_of E m'"
    and "encode (lib E) (c, m) = encode (lib E) (c', m')"
  shows "(c, m) = (c', m')"
proof -
  let ?g = "fst (RegisterMessage (lib E) (Some (mtype (lib E) m)) empty_registry)"
  have wf: "reg_wf (lib E) ?g" by (rule RegisterMessage_wf [OF reg_wf_empty])
  have "type2id ?g (mtype (lib E) m) = Some (Route c)"
    using assms(4) by (simp add: RegisterMessage_def)
  then have "sendable (lib E) ?g (c, m)" using P wf assms(3) by (auto simp: sendable_def fits_def)
  then have "fst (ReadMessage (lib E) ?g (encode (lib E) (c', m'), None)) = Inr (c, m)"
    using read_encode [of "lib E" ?g "(c, m)" "[]" None] assms(7) by simp
  then show ?thesis using read_fitting [OF P inj wf assms(5,6)] by auto
qed

definition handler_at :: "('t, 'm, 'h, 'c, 'l) node \<Rightarrow> u32 \<Rightarrow> ('t, 'h) handler option" where
  "handler_at n r = (case reqHandlers n r of Some h \<Rightarrow> Some h | None \<Rightarrow> defaultHandler n)"

lemma process_msg_at:
  "process_msg E data n =
     (case fst (ReadMessage (lib E) (types n) (data, None)) of
        Inl err \<Rightarrow> Some n
      | Inr (c, m) \<Rightarrow> post (Task (handler_at n (Route c)) c m) n)"
  by (cases "fst (ReadMessage (lib E) (types n) (data, None))") (auto simp: process_msg_def handler_at_def)

text \<open>Frames that were published, frames in the channel of node \<open>i\<close>, tasks in its queue.\<close>

definition sent_ok where
  "sent_ok E ans is_req p A f \<longleftrightarrow>
     (\<exists>cm ty. honest E ans is_req A cm \<and> dot_free ty \<and>
        f = (getRemoteSubject p ty (TargetId (fst cm)), encode (lib E) cm))"

definition got_ok where
  "got_ok E ans is_req i A d \<longleftrightarrow>
     (\<exists>cm. honest E ans is_req A cm \<and> TargetId (fst cm) = i \<and> d = encode (lib E) cm)"

fun due_ok where
  "due_ok E ans is_req i n A (Task h c m) \<longleftrightarrow>
     honest E ans is_req A (c, m) \<and> TargetId c = i \<and> h = handler_at n (route_of E m)"

lemma handler_at_frame [simp]:
  "handler_at (n\<lparr>types := g\<rparr>) = handler_at n" "handler_at (n\<lparr>published := fs'\<rparr>) = handler_at n"
  "handler_at (n\<lparr>requester := rq'\<rparr>) = handler_at n" "handler_at (n\<lparr>natsSub := sb\<rparr>) = handler_at n"
  "handler_at (n\<lparr>queue := q\<rparr>) = handler_at n" "handler_at (n\<lparr>members := tab\<rparr>) = handler_at n"
  "handler_at (n\<lparr>running := b\<rparr>) = handler_at n"
  by (auto simp: handler_at_def fun_eq_iff split: option.split)

lemma sent_ok_mono: "sent_ok E ans is_req p A f \<Longrightarrow> A \<subseteq> B \<Longrightarrow> sent_ok E ans is_req p B f"
  unfolding sent_ok_def using honest_mono by blast

lemma got_ok_mono: "got_ok E ans is_req i A d \<Longrightarrow> A \<subseteq> B \<Longrightarrow> got_ok E ans is_req i B d"
  unfolding got_ok_def using honest_mono by blast

lemma due_ok_mono:
  assumes "due_ok E ans is_req i n A t" and "A \<subseteq> B" and "handler_at n' = handler_at n"
  shows "due_ok E ans is_req i n' B t"
  using assms honest_mono [OF _ assms(2)] by (cases t) auto

text \<open>The tasks that worker goroutines have taken and not begun.\<close>

fun held_task :: "('t, 'm, 'h) job \<Rightarrow> ('t, 'm, 'h) task list" where
  "held_task (Holding t) = [t]"
| "held_task (Calling x) = []"

definition tasks_of :: "('t, 'm, 'h) job list \<Rightarrow> ('t, 'm, 'h) task list" where
  "tasks_of js = concat (map held_task js)"

lemma tasks_of_simps [simp]:
  "tasks_of [] = []" "tasks_of (j # js) = held_task j @ tasks_of js" "tasks_of (js @ ks) = tasks_of js @ tasks_of ks"
  by (simp_all add: tasks_of_def)

definition mine :: "('m, 'c) call list \<Rightarrow> string \<Rightarrow> ('m, 'c) call list" where
  "mine A i = filter (\<lambda>q. fst q = i) A"

definition node_ok where
  "node_ok E ans is_req p A i n js \<longleftrightarrow> site E is_req p i n \<and>
     (\<forall>d \<in> set (buf (ch (natsSub n))). got_ok E ans is_req i (set A) d) \<and>
     (\<forall>t \<in> set (buf (queue n) @ tasks_of js). due_ok E ans is_req i n (set A) t) \<and>
     (\<forall>x cb. handlers (requester n) x = Some cb \<longrightarrow> (\<exists>k req. (i, x, k, req, cb) \<in> set A)) \<and>
     mid (requester n) = of_nat (length (mine A i))"

lemma node_okD:
  assumes "node_ok E ans is_req p A i n js"
  shows "site E is_req p i n"
    and "d \<in> set (buf (ch (natsSub n))) \<Longrightarrow> got_ok E ans is_req i (set A) d"
    and "t \<in> set (buf (queue n) @ tasks_of js) \<Longrightarrow> due_ok E ans is_req i n (set A) t"
    and "handlers (requester n) x = Some cb \<Longrightarrow> \<exists>k req. (i, x, k, req, cb) \<in> set A"
    and "mid (requester n) = of_nat (length (mine A i))"
  using assms unfolding node_ok_def by blast+

lemma node_okI:
  assumes "site E is_req p i n"
    and "\<And>d. d \<in> set (buf (ch (natsSub n))) \<Longrightarrow> got_ok E ans is_req i (set A) d"
    and "\<And>t. t \<in> set (buf (queue n) @ tasks_of js) \<Longrightarrow> due_ok E ans is_req i n (set A) t"
    and "\<And>x cb. handlers (requester n) x = Some cb \<Longrightarrow> \<exists>k req. (i, x, k, req, cb) \<in> set A"
    and "mid (requester n) = of_nat (length (mine A i))"
  shows "node_ok E ans is_req p A i n js"
  using assms unfolding node_ok_def by blast

text \<open>A change of a node that leaves its handlers alone and brings no new message or callback.\<close>

lemma node_ok_less:
  assumes "node_ok E ans is_req p A i n js" and "site E is_req p i n'" and "handler_at n' = handler_at n"
    and "set (buf (ch (natsSub n'))) \<subseteq> set (buf (ch (natsSub n)))"
    and "set (buf (queue n') @ tasks_of js') \<subseteq> set (buf (queue n) @ tasks_of js)"
    and "\<And>x cb. handlers (requester n') x = Some cb \<Longrightarrow> handlers (requester n) x = Some cb"
    and "mid (requester n') = mid (requester n)"
  shows "node_ok E ans is_req p A i n' js'"
proof (rule node_okI [OF assms(2)])
  note D = node_okD [OF assms(1)]
  show "due_ok E ans is_req i n' (set A) t" if "t \<in> set (buf (queue n') @ tasks_of js')" for t
    using that assms(5) by (intro due_ok_mono [OF D(3) subset_refl assms(3)]) blast
qed (use node_okD [OF assms(1)] assms(4,6,7) in auto)

lemma site_frame [simp]:
  "site E is_req p i (n\<lparr>published := fs'\<rparr>) = site E is_req p i n"
  "site E is_req p i (n\<lparr>requester := rq'\<rparr>) = site E is_req p i n"
  "site E is_req p i (n\<lparr>queue := q\<rparr>) = site E is_req p i n"
  "site E is_req p i (n\<lparr>running := b\<rparr>) = site E is_req p i n"
  "site E is_req p i (n\<lparr>natsSub := (natsSub n)\<lparr>ch := c\<rparr>\<rparr>) = site E is_req p i n"
  by (simp_all add: site_def roles_def)

section \<open>What an operation sends\<close>

text \<open>
  Packing and sending change the registry and append at most one frame, for the node that
  the message is for.
\<close>

definition emits ::
    "('t, 'm, 'h, 'c, 'l) cluster_env \<Rightarrow> MsgCommon \<times> 'm \<Rightarrow> ('t, 'm, 'h, 'c, 'l) node \<Rightarrow>
     ('t, 'm, 'h, 'c, 'l) node \<Rightarrow> bool" where
  "emits E cm n n' \<longleftrightarrow>
     (\<exists>g out. n' = n\<lparr>types := g, published := published n @ out\<rparr> \<and> reg_wf (lib E) g \<and> length out \<le> 1 \<and>
        (\<forall>f \<in> set out. \<exists>ty. GetType (members n) (TargetId (fst cm)) = Inr ty \<and>
           f = (getRemoteSubject (prefix n) ty (TargetId (fst cm)), encode (lib E) cm)))"

lemma emits_types: "reg_wf (lib E) g \<Longrightarrow> emits E cm n (n\<lparr>types := g\<rparr>)"
  unfolding emits_def by (intro exI [of _ g] exI [of _ "[]"]) simp

lemma emits_refl: "reg_wf (lib E) (types n) \<Longrightarrow> emits E cm n n"
  using emits_types [of E "types n" cm n] by simp

lemma emits_frame:
  assumes "reg_wf (lib E) g" and "GetType (members n) (TargetId (fst cm)) = Inr ty"
  shows "emits E cm n (n\<lparr>types := g,
    published := published n @ [(getRemoteSubject (prefix n) ty (TargetId (fst cm)), encode (lib E) cm)]\<rparr>)"
  unfolding emits_def using assms
  by (intro exI [of _ g] exI [of _ "[(getRemoteSubject (prefix n) ty (TargetId (fst cm)), encode (lib E) cm)]"]) simp

lemma emits_SendBytes:
  assumes "reg_wf (lib E) g" and "TargetId (fst cm) = k"
  shows "emits E cm n (fst (SendBytes E k (encode (lib E) cm) (n\<lparr>types := g\<rparr>)))"
  using assms emits_types [OF assms(1), of cm n] emits_frame [OF assms(1), of n cm]
  by (auto simp: SendBytes_def natsConn_Publish_def split: sum.split option.split)

lemma pack_in_cases:
  assumes "proto_ok (lib E)" and "reg_wf (lib E) (types n)" and "fits E (c\<lparr>Route := route_of E m\<rparr>) m"
  obtains g r where "pack_in E c m n = (n\<lparr>types := g\<rparr>, r)" "reg_wf (lib E) g"
    "\<And>d. r = Ret (Inr d) \<Longrightarrow> d = encode (lib E) (c\<lparr>Route := route_of E m\<rparr>, m)"
proof -
  obtain g o1 where pk: "PackMessage (lib E) c m (types n) = (g, o1)"
    by (cases "PackMessage (lib E) c m (types n)")
  have wf: "reg_wf (lib E) g" using PackMessage_wf [OF assms(2), of c m] pk by simp
  have d: "d = encode (lib E) (c\<lparr>Route := route_of E m\<rparr>, m)" if "o1 = Ret (c', Inr d)" for c' d
  proof -
    have "c' = c\<lparr>Route := route_of E m\<rparr>"
      by (rule PackMessage_Ret [OF assms(2) pk [unfolded that]])
    moreover from this have "small_bodies (lib E) (c', m)"
      using assms(3) by (auto simp: fits_def small_bodies_def)
    ultimately show ?thesis using PackMessage_sendable [OF assms(1,2) pk [unfolded that]] by simp
  qed
  obtain r where p: "pack_in E c m n = (n\<lparr>types := g\<rparr>, r)"
    using pk by (cases o1) (auto simp: pack_in_def)
  show thesis
    by (rule that [OF p wf]) (use p pk d in \<open>auto simp: pack_in_def split: outcome.splits prod.splits\<close>)
qed

lemma emits_send_request:
  assumes "proto_ok (lib E)" and "reg_wf (lib E) (types n)"
    and "fits E (call_common (self_id n) k x (route_of E m)) m"
  shows "emits E (call_common (self_id n) k x (route_of E m), m) n (fst (send_request E k m x n))"
proof -
  let ?c = "new_common (self_id n) k x"
  have c: "?c\<lparr>Route := route_of E m\<rparr> = call_common (self_id n) k x (route_of E m)"
    by (simp add: call_common_def)
  obtain g r where p: "pack_in E ?c m n = (n\<lparr>types := g\<rparr>, r)" "reg_wf (lib E) g"
    "\<And>d. r = Ret (Inr d) \<Longrightarrow> d = encode (lib E) (call_common (self_id n) k x (route_of E m), m)"
    using pack_in_cases [OF assms(1,2), where c = ?c and m = m] assms(3) unfolding c by metis
  show ?thesis
    using p(1) emits_types [OF p(2)] emits_SendBytes [OF p(2), of "(call_common (self_id n) k x (route_of E m), m)" k n] p(3)
    by (auto simp: send_request_def split: outcome.split sum.split prod.split)
qed

lemma emits_PublishMsg:
  assumes "proto_ok (lib E)" and "reg_wf (lib E) (types n)"
    and "fits E (call_common (self_id n) k 0 (route_of E m)) m"
  shows "emits E (call_common (self_id n) k 0 (route_of E m), m) n (fst (PublishMsg E k m n))"
proof -
  let ?c = "new_common (self_id n) k 0"
  have c: "?c\<lparr>Route := route_of E m\<rparr> = call_common (self_id n) k 0 (route_of E m)"
    by (simp add: call_common_def)
  obtain g r where p: "pack_in E ?c m n = (n\<lparr>types := g\<rparr>, r)" "reg_wf (lib E) g"
    "\<And>d. r = Ret (Inr d) \<Longrightarrow> d = encode (lib E) (call_common (self_id n) k 0 (route_of E m), m)"
    using pack_in_cases [OF assms(1,2), where c = ?c and m = m] assms(3) unfolding c by metis
  show ?thesis
    using p(1) emits_types [OF p(2)] emits_refl [OF assms(2)] p(3)
      emits_frame [OF p(2), of n "(call_common (self_id n) k 0 (route_of E m), m)"]
    by (auto simp: PublishMsg_def natsConn_Publish_def split: outcome.split sum.split prod.split option.split)
qed

lemma emits_Resp:
  assumes "proto_ok (lib E)" and "reg_wf (lib E) (types n)"
    and "fits E (call_common k i x (route_of E m)) m"
  shows "emits E (call_common k i x (route_of E m), m) n (fst (Resp E (call_common i k x r) m n))"
proof -
  let ?c = "call_common k i x r"
  have c: "?c\<lparr>Route := route_of E m\<rparr> = call_common k i x (route_of E m)" by (rule call_common_Route)
  obtain g o1 where p: "pack_in E ?c m n = (n\<lparr>types := g\<rparr>, o1)" "reg_wf (lib E) g"
    "\<And>d. o1 = Ret (Inr d) \<Longrightarrow> d = encode (lib E) (call_common k i x (route_of E m), m)"
    using pack_in_cases [OF assms(1,2), where c = ?c and m = m] assms(3) unfolding c by metis
  show ?thesis
    using p(1) emits_types [OF p(2)] p(3)
      emits_SendBytes [OF p(2), of "(call_common k i x (route_of E m), m)" i n]
    by (auto simp: Resp_def call_common_eq split: outcome.split sum.split prod.split)
qed


section \<open>Preservation\<close>

lemma node_ok_emits:
  assumes "node_ok E ans is_req p A i n js" and "emits E cm n n'"
  shows "node_ok E ans is_req p A i n' js"
proof -
  obtain g out where n': "n' = n\<lparr>types := g, published := published n @ out\<rparr>" "reg_wf (lib E) g"
    using assms(2) unfolding emits_def by blast
  show ?thesis
    by (rule node_ok_less [OF assms(1)]) (use node_okD(1) [OF assms(1)] n' in \<open>simp_all add: site_def roles_def\<close>)
qed

text \<open>What is published is an honest frame, for the node that the message is for.\<close>

lemma emitted_ok:
  assumes "emits E cm n n'" and "site E is_req p i n" and "honest E ans is_req A cm"
  shows "length (emitted n n') \<le> 1"
    and "f \<in> set (emitted n n') \<Longrightarrow> sent_ok E ans is_req p A f \<and> snd f = encode (lib E) cm"
proof -
  obtain g out where n': "n' = n\<lparr>types := g, published := published n @ out\<rparr>" "length out \<le> 1"
    and out: "\<And>f. f \<in> set out \<Longrightarrow> \<exists>ty. GetType (members n) (TargetId (fst cm)) = Inr ty \<and>
      f = (getRemoteSubject (prefix n) ty (TargetId (fst cm)), encode (lib E) cm)"
    using assms(1) unfolding emits_def by blast
  have e: "emitted n n' = out" by (simp add: emitted_def n'(1))
  show "length (emitted n n') \<le> 1" using n'(2) e by simp
  assume "f \<in> set (emitted n n')"
  then obtain ty where "GetType (members n) (TargetId (fst cm)) = Inr ty"
    "f = (getRemoteSubject (prefix n) ty (TargetId (fst cm)), encode (lib E) cm)"
    using out e by blast
  then have "dot_free ty \<and> f = (getRemoteSubject p ty (TargetId (fst cm)), encode (lib E) cm)"
    using assms(2) unfolding site_def by blast
  then have f: "dot_free ty" "f = (getRemoteSubject p ty (TargetId (fst cm)), encode (lib E) cm)" by simp_all
  then have "sent_ok E ans is_req p A f" unfolding sent_ok_def using assms(3) by blast
  then show "sent_ok E ans is_req p A f \<and> snd f = encode (lib E) cm" by (simp add: f(2))
qed

lemma node_ok_grows:
  assumes "node_ok E ans is_req p A i n js" and "fst q \<noteq> i"
  shows "node_ok E ans is_req p (A @ [q]) i n js"
proof -
  have sub: "set A \<subseteq> set (A @ [q])" by auto
  note D = node_okD [OF assms(1)]
  show ?thesis
  proof (rule node_okI [OF D(1)])
    show "mid (requester n) = of_nat (length (mine (A @ [q]) i))"
      using D(5) assms(2) by (simp add: mine_def)
    show "\<exists>k req. (i, x, k, req, cb) \<in> set (A @ [q])" if "handlers (requester n) x = Some cb" for x cb
      using D(4) [OF that] by auto
  qed (use got_ok_mono [OF D(2) sub] due_ok_mono [OF D(3) sub refl] in blast)+
qed

text \<open>Registering the callback of a new call.\<close>

lemma node_ok_registers:
  assumes "node_ok E ans is_req p A i n js"
  shows "node_ok E ans is_req p (A @ [(i, mid (requester n) + 1, k, req, cb)]) i
    (n\<lparr>requester := snd (registerCallback (Some cb) (requester n))\<rparr>) js"
proof -
  let ?q = "(i, mid (requester n) + 1, k, req, cb)"
  let ?n = "n\<lparr>requester := snd (registerCallback (Some cb) (requester n))\<rparr>"
  have sub: "set A \<subseteq> set (A @ [?q])" by auto
  note D = node_okD [OF assms]
  show ?thesis
  proof (rule node_okI)
    show "site E is_req p i ?n" using D(1) by simp
    show "mid (requester ?n) = of_nat (length (mine (A @ [?q]) i))"
      using D(5) by (simp add: registerCallback_def mine_def add.commute)
    show "\<exists>k' req'. (i, x, k', req', cb') \<in> set (A @ [?q])"
      if "handlers (requester ?n) x = Some cb'" for x cb'
      using that D(4) [of x cb'] by (auto simp: registerCallback_def Let_def split: if_splits)
    show "got_ok E ans is_req i (set (A @ [?q])) d" if "d \<in> set (buf (ch (natsSub ?n)))" for d
      using got_ok_mono [OF D(2) sub] that by simp
    show "due_ok E ans is_req i ?n (set (A @ [?q])) t" if "t \<in> set (buf (queue ?n) @ tasks_of js)" for t
      using that by (intro due_ok_mono [OF D(3) sub]) simp_all
  qed
qed

text \<open>What \<open>requestAsync\<close> and \<open>PublishMsg\<close> send.\<close>

lemma requestAsync_emits:
  assumes "answering E ans" and "site E is_req p i n" and "call_ok E ans is_req (i, mid (requester n) + 1, k, req, cb)"
  shows "emits E (request_of E (i, mid (requester n) + 1, k, req, cb))
    (n\<lparr>requester := snd (registerCallback (Some cb) (requester n))\<rparr>) (fst (requestAsync E k req (Some cb) n))"
proof -
  let ?n = "n\<lparr>requester := snd (registerCallback (Some cb) (requester n))\<rparr>"
  have n: "self_id ?n = i" "reg_wf (lib E) (types ?n)" using assms(2) by (simp_all add: site_def)
  have f: "fits E (call_common (self_id ?n) k (mid (requester n) + 1) (route_of E req)) req"
    using assms(3) n(1) by (simp add: call_ok_def request_of_def)
  have P: "proto_ok (lib E)" using assms(1) by (simp add: answering_def)
  have "requestAsync E k req (Some cb) n = send_request E k req (mid (requester n) + 1) ?n"
    by (simp add: requestAsync_def registerCallback_def)
  then show ?thesis using emits_send_request [OF P n(2) f] n(1) by (simp add: request_of_def)
qed

lemma PublishMsg_emits:
  assumes "answering E ans" and "site E is_req p i n" and "call_ok E ans is_req (i, 0, k, msg, cb)"
  shows "emits E (request_of E (i, 0, k, msg, cb)) n (fst (PublishMsg E k msg n))"
proof -
  have n: "self_id n = i" "reg_wf (lib E) (types n)" using assms(2) by (simp_all add: site_def)
  have f: "fits E (call_common (self_id n) k 0 (route_of E msg)) msg"
    using assms(3) n(1) by (simp add: call_ok_def request_of_def)
  have P: "proto_ok (lib E)" using assms(1) by (simp add: answering_def)
  show ?thesis using emits_PublishMsg [OF P n(2) f] n(1) by (simp add: request_of_def)
qed

lemma honest_request: "call_ok E ans is_req q \<Longrightarrow> q \<in> A \<or> fst (snd q) = 0 \<Longrightarrow> honest E ans is_req A (request_of E q)"
  unfolding honest_def by blast

text \<open>A frame comes only to the node that its message is for.\<close>

lemma node_ok_deliver:
  assumes "node_ok E ans is_req p A j n js" and "sent_ok E ans is_req p (set A) (subj, d)"
  shows "node_ok E ans is_req p A j (nats_deliver subj d n) js"
proof (cases "subscription (natsSub n) \<and> subj = subject (natsSub n)")
  case True
  obtain cm ty where cm: "honest E ans is_req (set A) cm" "dot_free ty"
    "subj = getRemoteSubject p ty (TargetId (fst cm))" "d = encode (lib E) cm"
    using assms(2) unfolding sent_ok_def by blast
  have "getRemoteSubject p ty (TargetId (fst cm)) = getRemoteSubject p (self_type n) j" "dot_free (self_type n)"
    using True cm(3) assms(1) by (simp_all add: node_ok_def site_def)
  then have "TargetId (fst cm) = j" using cm(2) by (simp add: getRemoteSubject_inj dot_free_def)
  then have got: "got_ok E ans is_req j (set A) d" using cm(1,4) unfolding got_ok_def by blast
  note D = node_okD [OF assms(1)]
  show ?thesis
  proof (cases "chan_send d (ch (natsSub n))")
    case (Sent c)
    let ?n = "n\<lparr>natsSub := (natsSub n)\<lparr>ch := c\<rparr>\<rparr>"
    have "node_ok E ans is_req p A j ?n js"
    proof (rule node_okI)
      show "got_ok E ans is_req j (set A) d'" if "d' \<in> set (buf (ch (natsSub ?n)))" for d'
        using that Sent D(2) got by (auto simp: chan_simps)
      show "due_ok E ans is_req j ?n (set A) t" if "t \<in> set (buf (queue ?n) @ tasks_of js)" for t
        using that by (intro due_ok_mono [OF D(3) subset_refl]) simp_all
    qed (use D in simp_all)
    then show ?thesis using Sent True by (simp add: nats_deliver_def)
  qed (use assms(1) in \<open>auto simp: nats_deliver_def chan_send_def split: if_splits\<close>)
qed (use assms(1) in \<open>auto simp: nats_deliver_def\<close>)

text \<open>What the next task of a node can be.\<close>

lemma due_cases:
  assumes "due_ok E ans is_req i n A (Task h c m)" and "site E is_req p i n"
  obtains (request) q t u where "h = Some (UserHandler t u)" "call_ok E ans is_req q"
      "q \<in> A \<or> fst (snd q) = 0" "(c, m) = request_of E q"
    | (answer) q u where "h = Some RespHandler" "call_ok E ans is_req q" "q \<in> A \<or> fst (snd q) = 0"
      "(c, m) = answer_of E ans u q"
    | (none) "h = None \<or> h = Some LogHandler"
proof -
  have hon: "honest E ans is_req A (c, m)" and h: "h = handler_at n (route_of E m)" using assms(1) by simp_all
  obtain q where q: "call_ok E ans is_req q" "q \<in> A \<or> fst (snd q) = 0"
    "(c, m) = request_of E q \<or> (\<exists>u. (c, m) = answer_of E ans u q)"
    using hon unfolding honest_def by blast
  have r: "roles E is_req n" using assms(2) by (simp add: site_def)
  show thesis
  proof (cases h)
    case None
    then show thesis using none by simp
  next
    case (Some f)
    then have at: "reqHandlers n (route_of E m) = Some f \<or> f = LogHandler"
      using h r by (auto simp: handler_at_def roles_def split: option.splits)
    show thesis
    proof (cases f)
      case (UserHandler t u)
      then have "is_req m" using at r by (auto simp: roles_def)
      then have "(c, m) = request_of E q" using q(1,3) unfolding call_ok_def by (metis snd_conv)
      then show thesis using request Some UserHandler q by blast
    next
      case RespHandler
      then have "\<not> is_req m" using at r by (auto simp: roles_def)
      then obtain u where "(c, m) = answer_of E ans u q"
        using q(1,3) unfolding call_ok_def by (metis snd_conv)
      then show thesis using answer Some RespHandler q by blast
    next
      case (DefaultHandler d)
      then show thesis using at r by (auto simp: roles_def)
    qed (use none Some in blast)
  qed
qed


text \<open>The receiving goroutine throws the message away or posts its task.\<close>

lemma receive_turn_effect:
  assumes "answering E ans" and "node_ok E ans is_req p A i n js" and "receive_turn E n = Some n'"
  obtains d ds c m where "buf (ch (natsSub n)) = d # ds" "honest E ans is_req (set A) (c, m)" "TargetId c = i"
    "d = encode (lib E) (c, m)"
    "n' = n\<lparr>natsSub := (natsSub n)\<lparr>ch := (ch (natsSub n))\<lparr>buf := ds\<rparr>\<rparr>\<rparr> \<or>
     n' = n\<lparr>natsSub := (natsSub n)\<lparr>ch := (ch (natsSub n))\<lparr>buf := ds\<rparr>\<rparr>,
       queue := (queue n)\<lparr>buf := buf (queue n) @ [Task (handler_at n (route_of E m)) c m]\<rparr>\<rparr>"
proof -
  note D = node_okD [OF assms(2)]
  obtain d b where rec: "chan_recv (ch (natsSub n)) = Received d b"
    "process_msg E d (n\<lparr>natsSub := (natsSub n)\<lparr>ch := b\<rparr>\<rparr>) = Some n'"
    using assms(3) by (auto simp: receive_turn_def split: chan_recv.splits)
  obtain ds where b: "buf (ch (natsSub n)) = d # ds" "b = (ch (natsSub n))\<lparr>buf := ds\<rparr>"
    using rec(1) by (auto simp: chan_simps)
  let ?n = "n\<lparr>natsSub := (natsSub n)\<lparr>ch := b\<rparr>\<rparr>"
  obtain c m where cm: "honest E ans is_req (set A) (c, m)" "TargetId c = i" "d = encode (lib E) (c, m)"
    using D(2) [of d] b unfolding got_ok_def by auto
  have wf: "reg_wf (lib E) (types ?n)" using D(1) by (simp add: site_def)
  have rt: "Route c = route_of E m" using honest_fits [OF cm(1)] by simp
  have "n' = ?n \<or> n' = ?n\<lparr>queue := (queue n)\<lparr>buf := buf (queue n) @ [Task (handler_at n (route_of E m)) c m]\<rparr>\<rparr>"
  proof (cases "fst (ReadMessage (lib E) (types ?n) (d, None))")
    case (Inl e)
    then show ?thesis using rec(2) by (simp add: process_msg_def)
  next
    case (Inr x)
    then have "x = (c, m)" using read_honest [OF assms(1) wf cm(1)] cm(3) by auto
    then have "post (Task (handler_at ?n (route_of E m)) c m) ?n = Some n'"
      using rec(2) Inr rt by (simp add: process_msg_at)
    then show ?thesis by (auto simp: post_def chan_send_def split: if_splits)
  qed
  then show thesis using that [OF b(1) cm] by (simp add: b(2))
qed

lemma node_ok_receive:
  assumes "answering E ans" and "node_ok E ans is_req p A i n js" and "receive_turn E n = Some n'"
  shows "node_ok E ans is_req p A i n' js"
proof -
  note D = node_okD [OF assms(2)]
  from assms show ?thesis
  proof (rule receive_turn_effect)
    fix d ds c m
    let ?n = "n\<lparr>natsSub := (natsSub n)\<lparr>ch := (ch (natsSub n))\<lparr>buf := ds\<rparr>\<rparr>\<rparr>"
    let ?t = "Task (handler_at n (route_of E m)) c m"
    let ?q = "(queue n)\<lparr>buf := buf (queue n) @ [?t]\<rparr>"
    assume d: "buf (ch (natsSub n)) = d # ds" "honest E ans is_req (set A) (c, m)" "TargetId c = i"
      and n': "n' = ?n \<or> n' = ?n\<lparr>queue := ?q\<rparr>"
    have ok: "node_ok E ans is_req p A i ?n js"
      by (rule node_ok_less [OF assms(2)]) (use D(1) d(1) in auto)
    have "node_ok E ans is_req p A i (?n\<lparr>queue := ?q\<rparr>) js"
    proof (rule node_okI)
      show "due_ok E ans is_req i (?n\<lparr>queue := ?q\<rparr>) (set A) t"
        if "t \<in> set (buf (queue (?n\<lparr>queue := ?q\<rparr>)) @ tasks_of js)" for t
      proof (cases "t = ?t")
        case False
        then show ?thesis using that by (intro due_ok_mono [OF D(3) subset_refl]) auto
      qed (use d in simp)
    qed (use node_okD [OF ok] in simp_all)
    then show ?thesis using ok n' by blast
  qed
qed

text \<open>
  A task that is begun answers a request, begins the callback of an answer, or does nothing.
\<close>

lemma start_job_effect:
  assumes "answering E ans" and "site E is_req p i n" and "due_ok E ans is_req i n A (Task h c m)"
    and "start_job E (Task h c m) n = (n', new)"
  obtains (request) q u where "(c, m) = request_of E q" "call_ok E ans is_req q" "q \<in> A \<or> fst (snd q) = 0"
      "emits E (answer_of E ans u q) n n'" "new = []" "callback_run i (Task h c m) n = []"
    | (answer) q u cb where "(c, m) = answer_of E ans u q" "call_ok E ans is_req q" "q \<in> A \<or> fst (snd q) = 0"
      "n' = n" "new = [Calling (Mid c)]" "handlers (requester n) (Mid c) = Some cb"
      "callback_run i (Task h c m) n = [((i, Mid c), cb, m)]"
    | (nothing) "n' = n" "new = []" "callback_run i (Task h c m) n = []"
proof -
  have P: "proto_ok (lib E)" "\<And>u. run_handler E u = (\<lambda>c m. Resp E c (ans u m))"
    using assms(1) by (simp_all add: answering_def)
  have wf: "reg_wf (lib E) (types n)" using assms(2) by (simp add: site_def)
  from assms(3,2) show thesis
  proof (cases rule: due_cases)
    case (request q ty u)
    obtain j x k req cb where q: "q = (j, x, k, req, cb)" by (cases q)
    have cm: "c = call_common j k x (route_of E req)" "m = req" using request(4) q by (simp_all add: request_of_def)
    have f: "fits E (call_common k j x (route_of E (ans u req))) (ans u req)"
      using request(2) q by (auto simp: call_ok_def answer_of_def)
    have e: "emits E (answer_of E ans u q) n (fst (Resp E c (ans u m) n))"
      using emits_Resp [OF P(1) wf f, of "route_of E req"] q cm by (simp add: answer_of_def)
    have h: "callback_run i (Task h c m) n = []" "new = []" "n' = fst (call_handler E h c m n)"
      using assms(4) request(1) by (auto simp: callback_run_def start_job_def)
    show thesis
    proof (cases "mtype (lib E) m = ty")
      case True
      then have "n' = fst (Resp E c (ans u m) n)" using h(3) request(1) P(2) by simp
      then show thesis using that(1) [OF request(4,2,3)] e h by blast
    next
      case False
      then show thesis using that(3) h request(1) by simp
    qed
  next
    case (answer q u)
    show thesis
    proof (cases "handlers (requester n) (Mid c)")
      case None
      then show thesis using that(3) assms(4) answer(1) by (auto simp: start_job_def callback_run_def)
    next
      case (Some cb)
      then show thesis using that(2) [OF answer(4,2,3)] assms(4) answer(1)
        by (auto simp: start_job_def callback_run_def)
    qed
  next
    case none
    then show thesis using that(3) assms(4) by (auto simp: start_job_def callback_run_def)
  qed
qed

lemma node_ok_start:
  assumes "answering E ans" and "node_ok E ans is_req p A i n (js @ Holding t # ks)"
    and "start_job E t n = (n', new)"
  shows "node_ok E ans is_req p A i n' (js @ new @ ks)"
proof -
  obtain h c m where t: "t = Task h c m" by (cases t)
  note D = node_okD [OF assms(2)]
  have due: "due_ok E ans is_req i n (set A) (Task h c m)" using D(3) [of t] by (simp add: t)
  have less: "node_ok E ans is_req p A i n (js @ new' @ ks)" if "tasks_of new' = []" for new'
    by (rule node_ok_less [OF assms(2) D(1)]) (use that in auto)
  from assms(1) D(1) due assms(3) [unfolded t] show ?thesis
  proof (cases rule: start_job_effect)
    case (request q u)
    show ?thesis using node_ok_emits [OF less [of "[]"] request(4)] request(5) by simp
  next
    case answer
    show ?thesis using less [of "[Calling (Mid c)]"] answer(4,5) by simp
  next
    case nothing
    then have "n' = n" "new = []" by blast+
    then show ?thesis using less [of "[]"] by simp
  qed
qed

section \<open>The invariant of the network\<close>

definition numbered :: "('m, 'c) call list \<Rightarrow> bool" where
  "numbered A \<longleftrightarrow> (\<forall>i. map (\<lambda>q. fst (snd q)) (mine A i) = map of_nat [1..<Suc (length (mine A i))])"

definition call_id :: "('m, 'c) call \<Rightarrow> string \<times> u32" where
  "call_id q = (fst q, fst (snd q))"

lemma numbered_snoc:
  assumes "numbered A" and "x = of_nat (length (mine A i)) + 1"
  shows "numbered (A @ [(i, x, k, req, cb)])"
  using assms by (auto simp: numbered_def mine_def add.commute)

lemma numbered_id:
  assumes "numbered A" and "q \<in> set A"
  shows "\<exists>j. 1 \<le> j \<and> j \<le> length (mine A (fst q)) \<and> fst (snd q) = of_nat j"
proof -
  have "fst (snd q) \<in> set (map (\<lambda>q. fst (snd q)) (mine A (fst q)))"
    using assms(2) by (simp add: mine_def)
  also have "\<dots> = set (map of_nat [1..<Suc (length (mine A (fst q)))])"
    using assms(1) unfolding numbered_def by metis
  finally show ?thesis by auto
qed

lemma mine_le: "length (mine A i) \<le> length A"
  by (simp add: mine_def)

text \<open>Fewer than \<open>2 ^ 32\<close> calls have different ids, none of them 0.\<close>

lemma numbered_nonzero:
  assumes "numbered A" and "length A < 2 ^ 32" and "q \<in> set A"
  shows "fst (snd q) \<noteq> 0"
proof -
  obtain j where j: "1 \<le> j" "j \<le> length (mine A (fst q))" "fst (snd q) = of_nat j"
    using numbered_id [OF assms(1,3)] by blast
  have "j < 2 ^ 32" using j(2) mine_le [of A "fst q"] assms(2) by simp
  then show ?thesis using j of_nat_u32_inj [of j 0] by auto
qed

lemma numbered_fresh:
  assumes "numbered A" and "length A + 1 < 2 ^ 32" and "q \<in> set A"
  shows "call_id q \<noteq> (i, of_nat (length (mine A i)) + 1)"
proof
  assume eq: "call_id q = (i, of_nat (length (mine A i)) + 1)"
  obtain j where j: "1 \<le> j" "j \<le> length (mine A i)" "fst (snd q) = of_nat j"
    using numbered_id [OF assms(1,3)] eq by (auto simp: call_id_def)
  have "(of_nat j :: u32) = of_nat (length (mine A i) + 1)" using j(3) eq by (simp add: call_id_def)
  moreover have "j < 2 ^ 32" "length (mine A i) + 1 < 2 ^ 32"
    using j(2) mine_le [of A i] assms(2) by simp_all
  ultimately show False using of_nat_u32_inj [of j "length (mine A i) + 1"] j(2) by auto
qed


section \<open>Each answer is there once\<close>

text \<open>
  The call that a message belongs to. A call is in the network as its request, then as the
  answer, then as the callback begun: never more than one of these.
\<close>

definition cid :: "('m \<Rightarrow> bool) \<Rightarrow> MsgCommon \<times> 'm \<Rightarrow> string \<times> u32" where
  "cid is_req cm = (if is_req (snd cm) then SourceId (fst cm) else TargetId (fst cm), Mid (fst cm))"

definition carries ::
    "('t, 'm, 'h, 'c, 'l) cluster_env \<Rightarrow> ('m \<Rightarrow> bool) \<Rightarrow> string \<times> u32 \<Rightarrow> bytes \<Rightarrow> bool" where
  "carries E is_req y d \<longleftrightarrow>
     (\<exists>c m. fits E c m \<and> Route c = route_of E m \<and> d = encode (lib E) (c, m) \<and> cid is_req (c, m) = y)"

definition frames_for where
  "frames_for E is_req y ds = length (filter (carries E is_req y) ds)"

fun task_for :: "('m \<Rightarrow> bool) \<Rightarrow> string \<times> u32 \<Rightarrow> ('t, 'm, 'h) task \<Rightarrow> bool" where
  "task_for is_req y (Task h c m) \<longleftrightarrow> cid is_req (c, m) = y"

definition at_node where
  "at_node E is_req y n js =
     frames_for E is_req y (buf (ch (natsSub n))) + length (filter (task_for is_req y) (buf (queue n) @ tasks_of js))"

definition held where
  "held E is_req s y j = (case net_nodes s j of None \<Rightarrow> 0 | Some n \<Rightarrow> at_node E is_req y n (jobs s j))"

definition begun :: "string \<times> u32 \<Rightarrow> ((string \<times> u32) \<times> 'c \<times> 'm) list \<Rightarrow> nat" where
  "begun y rs = count_list (map fst rs) y"

lemma frames_for_simps [simp]:
  "frames_for E is_req y [] = 0"
  "frames_for E is_req y (d # ds) = (if carries E is_req y d then 1 else 0) + frames_for E is_req y ds"
  "frames_for E is_req y (ds @ ds') = frames_for E is_req y ds + frames_for E is_req y ds'"
  by (simp_all add: frames_for_def)

lemma begun_simps [simp]: "begun y [] = 0" "begun y (rs @ rs') = begun y rs + begun y rs'"
  "begun y [(y', r)] = (if y' = y then 1 else 0)"
  by (simp_all add: begun_def)

lemma begun_zero: "begun y rs = 0 \<longleftrightarrow> y \<notin> fst ` set rs"
  by (simp add: begun_def count_list_0_iff)

lemma frames_for_remove:
  assumes "f \<in> set fs'"
  shows "frames_for E is_req y (map snd fs') =
    frames_for E is_req y (map snd (remove1 f fs')) + (if carries E is_req y (snd f) then 1 else 0)"
  using assms by (induction fs') auto

lemma carries_honest:
  assumes "answering E ans" and "honest E ans is_req A cm"
  shows "carries E is_req y (encode (lib E) cm) \<longleftrightarrow> cid is_req cm = y"
proof -
  obtain c m where cm: "cm = (c, m)" by (cases cm)
  have f: "fits E c m" "Route c = route_of E m" using honest_fits [of E ans is_req A c m] assms(2) by (simp_all add: cm)
  have P: "proto_ok (lib E)" "inj (\<lambda>t. name_id (fname (lib E) t))" using assms(1) by (simp_all add: answering_def)
  have "(c, m) = (c', m')" if "fits E c' m'" "Route c' = route_of E m'"
    "encode (lib E) (c, m) = encode (lib E) (c', m')" for c' m'
    by (rule encode_inj [OF P f that])
  then show ?thesis using f unfolding carries_def cm by blast
qed

text \<open>A message with an id belongs to a call made, and is for its caller or its target.\<close>

lemma honest_cid:
  assumes "honest E ans is_req A cm" and "snd (cid is_req cm) \<noteq> 0"
  shows "\<exists>q \<in> A. call_id q = cid is_req cm \<and> TargetId (fst cm) \<in> {fst q, fst (snd (snd q))}"
proof -
  obtain q where q: "call_ok E ans is_req q" "q \<in> A \<or> fst (snd q) = 0"
    "cm = request_of E q \<or> (\<exists>h. cm = answer_of E ans h q)"
    using assms(1) unfolding honest_def by blast
  obtain i x k req cb where qq: "q = (i, x, k, req, cb)" by (cases q)
  have "cid is_req cm = (i, x) \<and> TargetId (fst cm) \<in> {i, k}"
    using q(1,3) by (auto simp: qq call_ok_def cid_def request_of_def answer_of_def call_common_eq)
  moreover from this have "q \<in> A" using q(2) assms(2) by (simp add: qq)
  ultimately show ?thesis by (intro bexI [of _ q]) (simp_all add: qq call_id_def)
qed

definition net_inv where
  "net_inv E ans is_req p s \<longleftrightarrow>
     (\<forall>i n. net_nodes s i = Some n \<longrightarrow> node_ok E ans is_req p (asked s) i n (jobs s i)) \<and>
     (\<forall>f \<in> set (transit s). sent_ok E ans is_req p (set (asked s)) f) \<and>
     numbered (asked s) \<and> inj_on call_id (set (asked s)) \<and>
     fst ` set (answered s) \<subseteq> call_id ` set (asked s) \<and>
     (\<forall>q \<in> set (asked s). frames_for E is_req (call_id q) (map snd (transit s)) +
        (\<Sum>j \<in> {fst q, fst (snd (snd q))}. held E is_req s (call_id q) j) + begun (call_id q) (answered s) \<le> 1)"

lemma net_invD:
  assumes "net_inv E ans is_req p s"
  shows "net_nodes s i = Some n \<Longrightarrow> node_ok E ans is_req p (asked s) i n (jobs s i)"
    and "f \<in> set (transit s) \<Longrightarrow> sent_ok E ans is_req p (set (asked s)) f"
    and "numbered (asked s)" and "inj_on call_id (set (asked s))"
    and "fst ` set (answered s) \<subseteq> call_id ` set (asked s)"
    and "q \<in> set (asked s) \<Longrightarrow> frames_for E is_req (call_id q) (map snd (transit s)) +
      (\<Sum>j \<in> {fst q, fst (snd (snd q))}. held E is_req s (call_id q) j) + begun (call_id q) (answered s) \<le> 1"
  using assms unfolding net_inv_def by blast+

lemma net_invI:
  assumes "\<And>i n. net_nodes s i = Some n \<Longrightarrow> node_ok E ans is_req p (asked s) i n (jobs s i)"
    and "\<And>f. f \<in> set (transit s) \<Longrightarrow> sent_ok E ans is_req p (set (asked s)) f"
    and "numbered (asked s)" and "inj_on call_id (set (asked s))"
    and "fst ` set (answered s) \<subseteq> call_id ` set (asked s)"
    and "\<And>q. q \<in> set (asked s) \<Longrightarrow> frames_for E is_req (call_id q) (map snd (transit s)) +
      (\<Sum>j \<in> {fst q, fst (snd (snd q))}. held E is_req s (call_id q) j) + begun (call_id q) (answered s) \<le> 1"
  shows "net_inv E ans is_req p s"
  using assms unfolding net_inv_def by blast

text \<open>Nothing of a call is at a node other than its caller and its target.\<close>

lemma held_cases:
  assumes "answering E ans" and "net_inv E ans is_req p s" and "snd y \<noteq> 0" and "0 < held E is_req s y j"
  shows "\<exists>q \<in> set (asked s). call_id q = y \<and> j \<in> {fst q, fst (snd (snd q))}"
proof -
  obtain n where n: "net_nodes s j = Some n" "0 < at_node E is_req y n (jobs s j)"
    using assms(4) by (auto simp: held_def split: option.splits)
  note D = node_okD [OF net_invD(1) [OF assms(2) n(1)]]
  have "\<exists>cm. honest E ans is_req (set (asked s)) cm \<and> TargetId (fst cm) = j \<and> cid is_req cm = y"
  proof (cases "frames_for E is_req y (buf (ch (natsSub n))) = 0")
    case False
    then obtain d where d: "d \<in> set (buf (ch (natsSub n)))" "carries E is_req y d"
      by (auto simp: frames_for_def filter_empty_conv)
    then show ?thesis using D(2) [OF d(1)] carries_honest [OF assms(1)] unfolding got_ok_def by blast
  next
    case True
    then obtain t where t: "t \<in> set (buf (queue n) @ tasks_of (jobs s j))" "task_for is_req y t"
      using n(2) by (auto simp: at_node_def filter_empty_conv)
    obtain h c m where "t = Task h c m" by (cases t)
    then show ?thesis using D(3) [OF t(1)] t(2) by (intro exI [of _ "(c, m)"]) simp
  qed
  then show ?thesis using honest_cid [of E ans is_req "set (asked s)"] assms(3) by metis
qed

lemma transit_cases:
  assumes "answering E ans" and "net_inv E ans is_req p s" and "snd y \<noteq> 0"
    and "0 < frames_for E is_req y (map snd (transit s))"
  shows "y \<in> call_id ` set (asked s)"
proof -
  obtain f where f: "f \<in> set (transit s)" "carries E is_req y (snd f)"
    using assms(4) by (auto simp: frames_for_def filter_empty_conv)
  then obtain cm where "honest E ans is_req (set (asked s)) cm" "cid is_req cm = y"
    using net_invD(2) [OF assms(2) f(1)] carries_honest [OF assms(1)] unfolding sent_ok_def by fastforce
  then show ?thesis using honest_cid [of E ans is_req "set (asked s)" cm] assms(3) by force
qed

text \<open>
  A step of one node that makes no call: for no call there may be more of it afterwards, on the
  way, at the node, or begun.
\<close>

lemma net_inv_turn:
  assumes "answering E ans" and inv: "net_inv E ans is_req p s" and "length (asked s) < 2 ^ 32"
    and n: "net_nodes s i = Some n" and ok: "node_ok E ans is_req p (asked s) i n' js"
    and sent: "\<And>f. f \<in> set fs' \<Longrightarrow> sent_ok E ans is_req p (set (asked s)) f"
    and run: "fst ` set rs \<subseteq> call_id ` set (asked s)"
    and less: "\<And>y. snd y \<noteq> 0 \<Longrightarrow> frames_for E is_req y (map snd fs') + at_node E is_req y n' js + begun y rs
      \<le> frames_for E is_req y (map snd (transit s)) + at_node E is_req y n (jobs s i)"
  shows "net_inv E ans is_req p (s\<lparr>net_nodes := (net_nodes s)(i \<mapsto> n'), jobs := (jobs s)(i := js),
    transit := fs', answered := answered s @ rs\<rparr>)"
proof (rule net_invI)
  let ?s = "s\<lparr>net_nodes := (net_nodes s)(i \<mapsto> n'), jobs := (jobs s)(i := js),
    transit := fs', answered := answered s @ rs\<rparr>"
  note I = net_invD [OF inv]
  show "node_ok E ans is_req p (asked ?s) j m (jobs ?s j)" if "net_nodes ?s j = Some m" for j m
    using that ok I(1) [of j m] by (auto split: if_splits)
  show "fst ` set (answered ?s) \<subseteq> call_id ` set (asked ?s)" using I(5) run by auto
  show "frames_for E is_req (call_id q) (map snd (transit ?s)) +
      (\<Sum>j \<in> {fst q, fst (snd (snd q))}. held E is_req ?s (call_id q) j) + begun (call_id q) (answered ?s) \<le> 1"
    if "q \<in> set (asked ?s)" for q
  proof -
    let ?y = "call_id q" and ?J = "{fst q, fst (snd (snd q))}"
    have q: "q \<in> set (asked s)" using that by simp
    have y: "snd ?y \<noteq> 0" using numbered_nonzero [OF I(3) assms(3) q] by (simp add: call_id_def)
    have other: "held E is_req ?s ?y j = held E is_req s ?y j" if "j \<noteq> i" for j
      using that by (simp add: held_def cong: option.case_cong)
    have here: "held E is_req s ?y i = at_node E is_req ?y n (jobs s i)" "held E is_req ?s ?y i = at_node E is_req ?y n' js"
      using n by (simp_all add: held_def)
    have "frames_for E is_req ?y (map snd fs') + (\<Sum>j \<in> ?J. held E is_req ?s ?y j) + begun ?y rs
        \<le> frames_for E is_req ?y (map snd (transit s)) + (\<Sum>j \<in> ?J. held E is_req s ?y j)"
    proof (cases "i \<in> ?J")
      case True
      have "(\<Sum>j \<in> ?J. held E is_req ?s ?y j) = at_node E is_req ?y n' js + (\<Sum>j \<in> ?J - {i}. held E is_req s ?y j)"
        using True here(2) other by (subst sum.remove [of _ i]) (auto intro!: sum.cong)
      moreover have "(\<Sum>j \<in> ?J. held E is_req s ?y j) = at_node E is_req ?y n (jobs s i) + (\<Sum>j \<in> ?J - {i}. held E is_req s ?y j)"
        using True here(1) by (subst sum.remove [of _ i]) auto
      ultimately show ?thesis using less [OF y] by simp
    next
      case False
      then have "(\<Sum>j \<in> ?J. held E is_req ?s ?y j) = (\<Sum>j \<in> ?J. held E is_req s ?y j)"
        by (intro sum.cong refl other) auto
      moreover have "held E is_req s ?y i = 0"
      proof (rule ccontr)
        assume "held E is_req s ?y i \<noteq> 0"
        then obtain q' where "q' \<in> set (asked s)" "call_id q' = ?y" "i \<in> {fst q', fst (snd (snd q'))}"
          using held_cases [OF assms(1) inv y, of i] by auto
        then show False using inj_onD [OF I(4), of q' q] q False by simp
      qed
      ultimately show ?thesis using less [OF y] here(1) by simp
    qed
    then show ?thesis using I(6) [OF q] by simp
  qed
qed (use net_invD(3,4) [OF inv] sent in simp_all)

text \<open>A new call is in the network at most as its request.\<close>

lemma net_inv_ask:
  assumes "answering E ans" and inv: "net_inv E ans is_req p s" and n: "net_nodes s i = Some n"
    and r: "requestAsync E k req (Some cb) n = (n', r)"
    and c: "call_ok E ans is_req (i, mid (requester n) + 1, k, req, cb)"
    and small: "length (asked s) + 1 < 2 ^ 32"
  shows "net_inv E ans is_req p (s\<lparr>net_nodes := (net_nodes s)(i \<mapsto> n'), transit := transit s @ emitted n n',
    asked := asked s @ [(i, mid (requester n) + 1, k, req, cb)]\<rparr>)"
proof -
  let ?x = "mid (requester n) + 1"
  let ?q = "(i, ?x, k, req, cb)"
  let ?n = "n\<lparr>requester := snd (registerCallback (Some cb) (requester n))\<rparr>"
  let ?s = "s\<lparr>net_nodes := (net_nodes s)(i \<mapsto> n'), transit := transit s @ emitted n n', asked := asked s @ [?q]\<rparr>"
  note I = net_invD [OF inv]
  have ok: "node_ok E ans is_req p (asked s) i n (jobs s i)" by (rule I(1) [OF n])
  have x: "?x = of_nat (length (mine (asked s) i)) + 1" using node_okD(5) [OF ok] by simp
  have fresh: "call_id ?q \<notin> call_id ` set (asked s)"
    using numbered_fresh [OF I(3) small] x by (auto simp: call_id_def) metis
  have e: "emits E (request_of E ?q) ?n n'"
    using requestAsync_emits [OF assms(1) node_okD(1) [OF ok] c] r by simp
  have ok': "node_ok E ans is_req p (asked s @ [?q]) i n' (jobs s i)"
    by (rule node_ok_emits [OF node_ok_registers [OF ok] e])
  have hon: "honest E ans is_req (set (asked s @ [?q])) (request_of E ?q)" by (rule honest_request [OF c]) simp
  have "emitted ?n n' = emitted n n'" by (simp add: emitted_def)
  then have out: "length (emitted n n') \<le> 1"
    "\<And>f. f \<in> set (emitted n n') \<Longrightarrow> sent_ok E ans is_req p (set (asked s @ [?q])) f \<and> snd f = encode (lib E) (request_of E ?q)"
    using emitted_ok [OF e _ hon, of p i] node_okD(1) [OF ok] by auto
  have "cid is_req (request_of E ?q) = call_id ?q"
    using c by (simp add: call_ok_def cid_def request_of_def call_id_def call_common_eq)
  then have carry: "carries E is_req y (snd f) \<longleftrightarrow> y = call_id ?q" if "f \<in> set (emitted n n')" for f y
    using out(2) [OF that] carries_honest [OF assms(1) hon] by auto
  have same: "queue n' = queue n" "natsSub n' = natsSub n" using e by (auto simp: emits_def)
  have held: "held E is_req ?s y j = held E is_req s y j" for y j
    using n same by (simp add: held_def at_node_def cong: option.case_cong)
  have flow: "frames_for E is_req y (map snd (transit ?s)) =
      frames_for E is_req y (map snd (transit s)) + frames_for E is_req y (map snd (emitted n n'))"
    "answered ?s = answered s" "(\<Sum>j \<in> J. 0) = (0 :: nat)" for y and J :: "string set"
    by simp_all
  have new: "frames_for E is_req y (map snd (emitted n n')) \<le> (if y = call_id ?q then 1 else 0)" for y
    using out(1) carry by (cases "emitted n n'") auto
  have x0: "snd (call_id ?q) \<noteq> 0"
    using numbered_nonzero [OF numbered_snoc [OF I(3) x, of k req cb], of ?q] small x by (simp add: call_id_def)
  show ?thesis
  proof (rule net_invI)
    show "node_ok E ans is_req p (asked ?s) j v (jobs ?s j)" if "net_nodes ?s j = Some v" for j v
      using that ok' I(1) [of j v] node_ok_grows [of E ans is_req p "asked s" j v "jobs s j" ?q]
      by (auto split: if_splits)
    show "sent_ok E ans is_req p (set (asked ?s)) f" if "f \<in> set (transit ?s)" for f
      using that out(2) [of f] sent_ok_mono [OF I(2) [of f], of "set (asked s @ [?q])"] by auto
    show "numbered (asked ?s)" using numbered_snoc [OF I(3) x] by simp
    show "inj_on call_id (set (asked ?s))" using I(4) fresh by auto
    show "fst ` set (answered ?s) \<subseteq> call_id ` set (asked ?s)" using I(5) by auto
    show "frames_for E is_req (call_id q) (map snd (transit ?s)) +
        (\<Sum>j \<in> {fst q, fst (snd (snd q))}. held E is_req ?s (call_id q) j) + begun (call_id q) (answered ?s) \<le> 1"
      if "q \<in> set (asked ?s)" for q
    proof (cases "q = ?q")
      case True
      have none: "held E is_req ?s (call_id q) j = 0" for j
        using held_cases [OF assms(1) inv x0, of j] fresh unfolding held True by (metis gr0I imageI)
      have "frames_for E is_req (call_id q) (map snd (transit s)) = 0"
        using transit_cases [OF assms(1) inv x0] fresh unfolding True by (metis gr0I)
      moreover have "begun (call_id q) (answered s) = 0"
        using contra_subsetD [OF I(5) fresh] unfolding begun_zero True .
      moreover have "frames_for E is_req (call_id q) (map snd (emitted n n')) \<le> 1"
        using new [of "call_id q"] unfolding True by simp
      ultimately show ?thesis unfolding flow none by linarith
    next
      case False
      then have q: "q \<in> set (asked s)" using that by simp
      then have "call_id q \<noteq> call_id ?q" using fresh by (metis imageI)
      then have "frames_for E is_req (call_id q) (map snd (emitted n n')) = 0" using new [of "call_id q"] by simp
      then show ?thesis using I(6) [OF q] unfolding flow held by linarith
    qed
  qed
qed

text \<open>No operation of a node but a call makes more of a call than there was.\<close>

lemma emits_other_fields:
  assumes "emits E cm n n'"
  shows "requester n' = requester n" "queue n' = queue n" "natsSub n' = natsSub n"
  using assms by (auto simp: emits_def)

lemma emitted_count:
  assumes "answering E ans" and "emits E cm n n'" and "site E is_req p i n" and "honest E ans is_req A cm"
  shows "frames_for E is_req y (map snd (emitted n n')) \<le> (if y = cid is_req cm then 1 else 0)"
proof -
  note out = emitted_ok [OF assms(2-4)]
  have "carries E is_req y (snd f) \<longleftrightarrow> cid is_req cm = y" if "f \<in> set (emitted n n')" for f
    using out(2) [OF that] carries_honest [OF assms(1,4)] by simp
  then show ?thesis using out(1) by (cases "emitted n n'") auto
qed

lemma emitted_id: "call_ok E ans is_req q \<Longrightarrow> cid is_req (request_of E q) = call_id q"
  "call_ok E ans is_req q \<Longrightarrow> cid is_req (answer_of E ans u q) = call_id q"
  by (auto simp: call_ok_def cid_def request_of_def answer_of_def call_id_def call_common_eq split: prod.splits)

lemma receive_count:
  assumes "answering E ans" and "node_ok E ans is_req p A i n js" and "receive_turn E n = Some n'"
  shows "at_node E is_req y n' js \<le> at_node E is_req y n js"
  using assms
proof (rule receive_turn_effect)
  fix d ds c m
  assume "buf (ch (natsSub n)) = d # ds" "honest E ans is_req (set A) (c, m)" "d = encode (lib E) (c, m)"
    and n': "n' = n\<lparr>natsSub := (natsSub n)\<lparr>ch := (ch (natsSub n))\<lparr>buf := ds\<rparr>\<rparr>\<rparr> \<or>
     n' = n\<lparr>natsSub := (natsSub n)\<lparr>ch := (ch (natsSub n))\<lparr>buf := ds\<rparr>\<rparr>,
       queue := (queue n)\<lparr>buf := buf (queue n) @ [Task (handler_at n (route_of E m)) c m]\<rparr>\<rparr>"
  then show ?thesis using carries_honest [OF assms(1), of is_req "set A" "(c, m)" y]
    by (elim disjE) (simp_all add: at_node_def)
qed

lemma start_count:
  assumes "answering E ans" and "node_ok E ans is_req p A i n (js @ Holding t # ks)" and "start_job E t n = (n', new)"
  shows "frames_for E is_req y (map snd (emitted n n')) + at_node E is_req y n' (js @ new @ ks) +
    begun y (callback_run i t n) \<le> at_node E is_req y n (js @ Holding t # ks)"
proof -
  obtain h c m where t: "t = Task h c m" by (cases t)
  note D = node_okD [OF assms(2)]
  have due: "due_ok E ans is_req i n (set A) (Task h c m)" using D(3) [of t] by (simp add: t)
  from assms(1) D(1) due assms(3) [unfolded t] show ?thesis
  proof (cases rule: start_job_effect)
    case (request q u)
    have "honest E ans is_req (set A) (answer_of E ans u q)" using request(2,3) unfolding honest_def by blast
    from emitted_count [OF assms(1) request(4) D(1) this, of y]
    show ?thesis using emits_other_fields [OF request(4)] request(5,6) emitted_id [OF request(2)]
      by (simp add: at_node_def t request(1) split: if_splits)
  next
    case (answer q u cb)
    have "\<not> is_req m" using answer(1,2) by (metis call_ok_def snd_conv)
    moreover have "TargetId c = i" using due by simp
    ultimately have "cid is_req (c, m) = (i, Mid c)" by (simp add: cid_def)
    then show ?thesis using answer(4,5,7) by (simp add: at_node_def t emitted_def)
  next
    case nothing
    then have "n' = n" "new = []" "callback_run i (Task h c m) n = []" by blast+
    then show ?thesis by (simp add: at_node_def t emitted_def)
  qed
qed

text \<open>The callback that a task begins is that of a call made.\<close>

lemma callback_run_asked:
  assumes "node_ok E ans is_req p A i n js"
  shows "fst ` set (callback_run i t n) \<subseteq> call_id ` set A"
proof (cases t)
  case (Task h c m)
  have "(i, x) \<in> call_id ` set A" if "handlers (requester n) x = Some cb" for x cb
    using node_okD(4) [OF assms that] by (force simp: call_id_def)
  then show ?thesis
    by (cases "handlers (requester n) (Mid c)"; cases "h = Some RespHandler") (simp_all add: Task callback_run_def)
qed

lemma nats_deliver_count:
  "at_node E is_req y (nats_deliver subj d n) js \<le> at_node E is_req y n js + (if carries E is_req y d then 1 else 0)"
  by (auto simp: nats_deliver_def at_node_def chan_send_def)

lemma net_inv_step:
  assumes "net_step E ans is_req s s'" and A: "answering E ans" and inv: "net_inv E ans is_req p s"
    and len: "length (asked s') < 2 ^ 32"
  shows "net_inv E ans is_req p s'"
  using assms(1)
proof (cases rule: net_step.cases)
  case (Ask i n k req cb n' r)
  show ?thesis unfolding Ask(1)
    by (rule net_inv_ask [OF A inv Ask(2,3,4)]) (use len Ask(1) in simp)
next
  case (Tell i n k msg n' r cb)
  have small: "length (asked s) < 2 ^ 32" using len Tell(1) by simp
  have ok: "node_ok E ans is_req p (asked s) i n (jobs s i)" by (rule net_invD(1) [OF inv Tell(2)])
  have e: "emits E (request_of E (i, 0, k, msg, cb)) n n'"
    using PublishMsg_emits [OF A node_okD(1) [OF ok] Tell(4)] Tell(3) by simp
  have hon: "honest E ans is_req (set (asked s)) (request_of E (i, 0, k, msg, cb))"
    by (rule honest_request [OF Tell(4)]) simp
  have "frames_for E is_req y (map snd (emitted n n')) = 0" if "snd y \<noteq> 0" for y
    using emitted_count [OF A e node_okD(1) [OF ok] hon, of y] that emitted_id(1) [OF Tell(4)]
    by (auto simp: call_id_def split: if_splits)
  then have "net_inv E ans is_req p (s\<lparr>net_nodes := (net_nodes s)(i \<mapsto> n'), jobs := (jobs s)(i := jobs s i),
      transit := transit s @ emitted n n', answered := answered s @ []\<rparr>)"
    by (intro net_inv_turn [OF A inv small Tell(2) node_ok_emits [OF ok e]])
      (use emitted_ok(2) [OF e node_okD(1) [OF ok] hon] net_invD(2) [OF inv] emits_other_fields [OF e] in \<open>auto simp: at_node_def\<close>)
  then show ?thesis by (simp add: Tell(1))
next
  case (Carry subj d j n)
  have small: "length (asked s) < 2 ^ 32" using len Carry(1) by simp
  have ok: "node_ok E ans is_req p (asked s) j (nats_deliver subj d n) (jobs s j)"
    by (rule node_ok_deliver [OF net_invD(1) [OF inv Carry(3)] net_invD(2) [OF inv Carry(2)]])
  have "net_inv E ans is_req p (s\<lparr>net_nodes := (net_nodes s)(j \<mapsto> nats_deliver subj d n), jobs := (jobs s)(j := jobs s j),
      transit := remove1 (subj, d) (transit s), answered := answered s @ []\<rparr>)"
  proof (rule net_inv_turn [OF A inv small Carry(3) ok])
    show "sent_ok E ans is_req p (set (asked s)) f" if "f \<in> set (remove1 (subj, d) (transit s))" for f
      using that net_invD(2) [OF inv, of f] set_remove1_subset by fast
    show "frames_for E is_req y (map snd (remove1 (subj, d) (transit s))) + at_node E is_req y (nats_deliver subj d n) (jobs s j) +
        begun y [] \<le> frames_for E is_req y (map snd (transit s)) + at_node E is_req y n (jobs s j)" for y
      using frames_for_remove [OF Carry(2), of E is_req y] nats_deliver_count [of E is_req y subj d n "jobs s j"] by simp
  qed simp
  then show ?thesis by (simp add: Carry(1))
next
  case (Receive i n n')
  have small: "length (asked s) < 2 ^ 32" using len Receive(1) by simp
  have ok: "node_ok E ans is_req p (asked s) i n (jobs s i)" by (rule net_invD(1) [OF inv Receive(2)])
  have "net_inv E ans is_req p (s\<lparr>net_nodes := (net_nodes s)(i \<mapsto> n'), jobs := (jobs s)(i := jobs s i),
      transit := transit s, answered := answered s @ []\<rparr>)"
    by (rule net_inv_turn [OF A inv small Receive(2) node_ok_receive [OF A ok Receive(3)]])
      (use net_invD(2) [OF inv] receive_count [OF A ok Receive(3)] in auto)
  then show ?thesis by (simp add: Receive(1))
next
  case (Takes i n t n')
  have small: "length (asked s) < 2 ^ 32" using len Takes(1) by simp
  have ok: "node_ok E ans is_req p (asked s) i n (jobs s i)" by (rule net_invD(1) [OF inv Takes(2)])
  obtain ts where t: "buf (queue n) = t # ts" "n' = n\<lparr>queue := (queue n)\<lparr>buf := ts\<rparr>\<rparr>"
    using Takes(4) by (auto simp: take_task_def chan_simps split: chan_recv.splits)
  have "node_ok E ans is_req p (asked s) i n' (jobs s i @ [Holding t])"
    by (rule node_ok_less [OF ok]) (use node_okD(1) [OF ok] t in auto)
  then have "net_inv E ans is_req p (s\<lparr>net_nodes := (net_nodes s)(i \<mapsto> n'), jobs := (jobs s)(i := jobs s i @ [Holding t]),
      transit := transit s, answered := answered s @ []\<rparr>)"
    by (intro net_inv_turn [OF A inv small Takes(2)]) (use net_invD(2) [OF inv] t in \<open>auto simp: at_node_def\<close>)
  then show ?thesis by (simp add: Takes(1))
next
  case (Begins i n js t ks n' new)
  have small: "length (asked s) < 2 ^ 32" using len Begins(1) by simp
  have ok: "node_ok E ans is_req p (asked s) i n (js @ Holding t # ks)"
    using net_invD(1) [OF inv Begins(2)] Begins(3) by simp
  have sent: "sent_ok E ans is_req p (set (asked s)) f" if f: "f \<in> set (emitted n n')" for f
  proof -
    obtain h c m where t: "t = Task h c m" by (cases t)
    have due: "due_ok E ans is_req i n (set (asked s)) (Task h c m)" using node_okD(3) [OF ok, of t] by (simp add: t)
    from A node_okD(1) [OF ok] due Begins(4) [unfolded t] show ?thesis
    proof (cases rule: start_job_effect)
      case (request q u)
      have "honest E ans is_req (set (asked s)) (answer_of E ans u q)" using request(2,3) unfolding honest_def by blast
      from emitted_ok(2) [OF request(4) node_okD(1) [OF ok] this f] show ?thesis ..
    qed (use f in \<open>simp_all add: emitted_def\<close>)
  qed
  have "net_inv E ans is_req p (s\<lparr>net_nodes := (net_nodes s)(i \<mapsto> n'), jobs := (jobs s)(i := js @ new @ ks),
      transit := transit s @ emitted n n', answered := answered s @ callback_run i t n\<rparr>)"
    by (rule net_inv_turn [OF A inv small Begins(2) node_ok_start [OF A ok Begins(4)]])
      (use sent net_invD(2) [OF inv] callback_run_asked [OF ok] start_count [OF A ok Begins(4)] Begins(3) in \<open>auto simp: add.assoc\<close>)
  then show ?thesis by (simp add: Begins(1))
next
  case (Ends i n js x ks)
  have small: "length (asked s) < 2 ^ 32" using len Ends(1) by simp
  have ok: "node_ok E ans is_req p (asked s) i n (js @ Calling x # ks)"
    using net_invD(1) [OF inv Ends(2)] Ends(3) by simp
  let ?n = "n\<lparr>requester := unregisterCallback x (requester n)\<rparr>"
  have "node_ok E ans is_req p (asked s) i ?n (js @ ks)"
    by (rule node_ok_less [OF ok]) (use node_okD(1) [OF ok] in \<open>auto simp: unregisterCallback_def split: if_splits\<close>)
  then have "net_inv E ans is_req p (s\<lparr>net_nodes := (net_nodes s)(i \<mapsto> ?n), jobs := (jobs s)(i := js @ ks),
      transit := transit s, answered := answered s @ []\<rparr>)"
    by (intro net_inv_turn [OF A inv small Ends(2)]) (use net_invD(2) [OF inv] Ends(3) in \<open>auto simp: at_node_def\<close>)
  then show ?thesis by (simp add: Ends(1))
next
  case (Panics i n js x ks)
  have small: "length (asked s) < 2 ^ 32" using len Panics(1) by simp
  have ok: "node_ok E ans is_req p (asked s) i n (js @ Calling x # ks)"
    using net_invD(1) [OF inv Panics(2)] Panics(3) by simp
  have "node_ok E ans is_req p (asked s) i n (js @ ks)"
    by (rule node_ok_less [OF ok]) (use node_okD(1) [OF ok] in auto)
  then have "net_inv E ans is_req p (s\<lparr>net_nodes := (net_nodes s)(i \<mapsto> n), jobs := (jobs s)(i := js @ ks),
      transit := transit s, answered := answered s @ []\<rparr>)"
    by (intro net_inv_turn [OF A inv small Panics(2)]) (use net_invD(2) [OF inv] Panics(3) in \<open>auto simp: at_node_def\<close>)
  then show ?thesis using Panics(2) by (simp add: Panics(1) fun_upd_idem)
next
  case (Members i n tab)
  have small: "length (asked s) < 2 ^ 32" using len Members(1) by simp
  have ok: "node_ok E ans is_req p (asked s) i n (jobs s i)" by (rule net_invD(1) [OF inv Members(2)])
  have "node_ok E ans is_req p (asked s) i (n\<lparr>members := tab\<rparr>) (jobs s i)"
    by (rule node_ok_less [OF ok]) (use node_okD(1) [OF ok] Members(3) in \<open>simp_all add: site_def roles_def\<close>)
  then have "net_inv E ans is_req p (s\<lparr>net_nodes := (net_nodes s)(i \<mapsto> n\<lparr>members := tab\<rparr>), jobs := (jobs s)(i := jobs s i),
      transit := transit s, answered := answered s @ []\<rparr>)"
    by (intro net_inv_turn [OF A inv small Members(2)]) (use net_invD(2) [OF inv] in \<open>auto simp: at_node_def\<close>)
  then show ?thesis by (simp add: Members(1))
next
  case (Runs i n b)
  have small: "length (asked s) < 2 ^ 32" using len Runs(1) by simp
  have ok: "node_ok E ans is_req p (asked s) i n (jobs s i)" by (rule net_invD(1) [OF inv Runs(2)])
  have "node_ok E ans is_req p (asked s) i (n\<lparr>running := b\<rparr>) (jobs s i)"
    by (rule node_ok_less [OF ok]) (use node_okD(1) [OF ok] in simp_all)
  then have "net_inv E ans is_req p (s\<lparr>net_nodes := (net_nodes s)(i \<mapsto> n\<lparr>running := b\<rparr>), jobs := (jobs s)(i := jobs s i),
      transit := transit s, answered := answered s @ []\<rparr>)"
    by (intro net_inv_turn [OF A inv small Runs(2)]) (use net_invD(2) [OF inv] in \<open>auto simp: at_node_def\<close>)
  then show ?thesis by (simp add: Runs(1))
qed

section \<open>The network implements the specification\<close>

definition abs_net :: "('t, 'm, 'h, 'c, 'l) net \<Rightarrow> ('m, 'c) rpc" where
  "abs_net s = \<lparr>issued = (\<lambda>(i, x, k, req, cb). (i, x, req, cb)) ` set (asked s),
     returned_calls = answered s\<rparr>"

text \<open>Fewer than \<open>2 ^ 32\<close> calls are made altogether.\<close>

definition small_net_step where
  "small_net_step E ans is_req s s' \<longleftrightarrow> net_step E ans is_req s s' \<and> length (asked s') < 2 ^ 32"

lemma abs_net_ask:
  assumes "net_inv E ans is_req p s" and "net_inv E ans is_req p s'"
    and "asked s' = asked s @ [(i, x, k, req, cb)]" and "answered s' = answered s"
    and "(i, x) \<notin> call_id ` set (asked s)"
  shows "rpc_step ans (abs_net s) (abs_net s')"
proof -
  have "rpc_step ans (abs_net s) ((abs_net s)\<lparr>issued := insert (i, x, req, cb) (issued (abs_net s))\<rparr>)"
    by (rule Issue) (use assms(5) in \<open>force simp: abs_net_def call_id_def\<close>)
  then show ?thesis by (simp add: abs_net_def assms(3,4))
qed

text \<open>A callback that is begun was registered for the call whose request was answered, and is begun first now.\<close>

lemma callback_run_right:
  assumes A: "answering E ans" and inv: "net_inv E ans is_req p s" and small: "length (asked s) < 2 ^ 32"
    and n: "net_nodes s i = Some n" and js: "jobs s i = js @ Holding t # ks"
    and run: "callback_run i t n = [((j, x), cb, m)]"
  obtains k req u where "(j, x, k, req, cb) \<in> set (asked s)" "m = ans u req" "(j, x) \<notin> fst ` set (answered s)"
proof -
  note I = net_invD [OF inv]
  note D = node_okD [OF I(1) [OF n]]
  obtain c where t: "t = Task (Some RespHandler) c m" and x: "Mid c = x" "j = i" and cb: "handlers (requester n) x = Some cb"
    using run by (auto simp: callback_run_def split: task.splits if_splits option.splits)
  have due: "due_ok E ans is_req i n (set (asked s)) (Task (Some RespHandler) c m)"
    using D(3) [of t] js t by simp
  obtain k req where mine: "(i, x, k, req, cb) \<in> set (asked s)" using D(4) [OF cb] by blast
  have x0: "x \<noteq> 0" using numbered_nonzero [OF I(3) small mine] by simp
  from due D(1) show thesis
  proof (cases rule: due_cases)
    case (answer w u)
    obtain j' y k' req' cb' where w: "w = (j', y, k', req', cb')" by (cases w)
    have at: "TargetId c = i" "c = call_common k' j' y (route_of E (ans u req'))" "m = ans u req'"
      using due answer(4) w by (simp_all add: answer_of_def)
    then have id: "j' = i" "y = x" using x by simp_all
    then have "w \<in> set (asked s)" using answer(3) w x0 by simp
    then have "w = (i, x, k, req, cb)"
      using inj_onD [OF I(4), of w "(i, x, k, req, cb)"] mine w id by (simp add: call_id_def)
    then have m: "m = ans u req" using w at(3) by simp
    have "cid is_req (c, m) = (i, x)"
      using emitted_id(2) [OF answer(2), of u] unfolding answer(4) [symmetric] by (simp add: w id call_id_def)
    then have "1 \<le> held E is_req s (i, x) i" using n js t by (simp add: held_def at_node_def)
    moreover have "held E is_req s (i, x) i \<le> (\<Sum>a \<in> {i, k}. held E is_req s (i, x) a)"
      by (rule member_le_sum) simp_all
    ultimately have "begun (i, x) (answered s) = 0" using I(6) [OF mine] by (simp add: call_id_def)
    then show thesis using that [of k req u] mine m x(2) by (simp add: begun_zero)
  qed simp_all
qed

lemma callback_run_cases: "callback_run i t n = [] \<or> (\<exists>x cb m. callback_run i t n = [((i, x), cb, m)])"
  by (auto simp: callback_run_def split: task.split option.split)

lemma abs_net_step:
  assumes "net_inv E ans is_req p s" and "answering E ans" and "small_net_step E ans is_req s s'"
  shows "abs_net s' = abs_net s \<or> rpc_step ans (abs_net s) (abs_net s')"
proof -
  have step: "net_step E ans is_req s s'" and len: "length (asked s') < 2 ^ 32"
    using assms(3) by (simp_all add: small_net_step_def)
  have inv': "net_inv E ans is_req p s'" by (rule net_inv_step [OF step assms(2,1) len])
  from step show ?thesis
  proof (cases rule: net_step.cases)
    case (Ask i n k req cb n' r)
    have "(i, mid (requester n) + 1) \<notin> call_id ` set (asked s)"
      using numbered_fresh [OF net_invD(3) [OF assms(1)], of _ i] len
        node_okD(5) [OF net_invD(1) [OF assms(1) Ask(2)]] by (auto simp: Ask(1)) metis
    then have "rpc_step ans (abs_net s) (abs_net s')"
      by (intro abs_net_ask [OF assms(1) inv']) (simp_all add: Ask(1))
    then show ?thesis ..
  next
    case (Begins i n js t ks n' new)
    from callback_run_cases [of i t n] show ?thesis
    proof (elim disjE exE)
      fix x cb m
      assume run: "callback_run i t n = [((i, x), cb, m)]"
      have small: "length (asked s) < 2 ^ 32" using len Begins(1) by simp
      obtain k req u where call: "(i, x, k, req, cb) \<in> set (asked s)" "m = ans u req"
        "(i, x) \<notin> fst ` set (answered s)"
        using callback_run_right [OF assms(2,1) small Begins(2,3) run] by blast
      then have new: "(i, x) \<notin> set (map fst (returned_calls (abs_net s)))" by (simp add: abs_net_def)
      have "(i, x, req, cb) \<in> issued (abs_net s)" using call(1) by (force simp: abs_net_def)
      from Complete [OF this new, of ans u] have "rpc_step ans (abs_net s) (abs_net s')"
        by (simp add: abs_net_def Begins(1) run call(2))
      then show ?thesis ..
    qed (simp add: abs_net_def Begins(1))
  qed (simp_all add: abs_net_def)
qed

interpretation net: implements "small_net_step E ans is_req" "rpc_step ans" abs_net
    "\<lambda>s. net_inv E ans is_req p s \<and> answering E ans" for E ans is_req p
proof unfold_locales
  fix c d
  assume g: "net_inv E ans is_req p c \<and> answering E ans" and st: "small_net_step E ans is_req c d"
  show "abs_net d = abs_net c \<or> rpc_step ans (abs_net c) (abs_net d)"
    using g st abs_net_step [of E ans is_req p c d] by blast
  show "net_inv E ans is_req p d \<and> answering E ans"
    using g st net_inv_step [of E ans is_req c d p] unfolding small_net_step_def by blast
qed


lemma small_steps:
  assumes "(net_step E ans is_req)\<^sup>*\<^sup>* s s'" and "length (asked s') < 2 ^ 32"
  shows "(small_net_step E ans is_req)\<^sup>*\<^sup>* s s'"
  using assms
proof (induction rule: rtranclp_induct)
  case (step s1 s2)
  have "length (asked s1) \<le> length (asked s2)"
    using step(2) by (cases rule: net_step.cases) simp_all
  then have "(small_net_step E ans is_req)\<^sup>*\<^sup>* s s1" using step by simp
  moreover have "small_net_step E ans is_req s1 s2" using step by (simp add: small_net_step_def)
  ultimately show ?case by (rule rtranclp.rtrancl_into_rtrancl)
qed simp

text \<open>Nodes that have been set up and have not done anything yet.\<close>

definition fresh_net where
  "fresh_net E is_req p s \<longleftrightarrow> asked s = [] \<and> answered s = [] \<and> transit s = [] \<and> (\<forall>i. jobs s i = []) \<and>
     (\<forall>i n. net_nodes s i = Some n \<longrightarrow> site E is_req p i n \<and>
        buf (ch (natsSub n)) = [] \<and> buf (queue n) = [] \<and> requester n = newRpcHandlerMgr)"

lemma fresh_net_inv:
  assumes "fresh_net E is_req p s"
  shows "net_inv E ans is_req p s" and "abs_net s = no_calls"
proof -
  show "net_inv E ans is_req p s"
  proof (rule net_invI)
    show "node_ok E ans is_req p (asked s) i n (jobs s i)" if "net_nodes s i = Some n" for i n
      by (rule node_okI) (use assms that in \<open>auto simp: fresh_net_def newRpcHandlerMgr_def mine_def\<close>)
  qed (use assms in \<open>simp_all add: fresh_net_def numbered_def mine_def\<close>)
  show "abs_net s = no_calls" using assms by (simp add: abs_net_def no_calls_def fresh_net_def)
qed

lemma net_run:
  assumes "fresh_net E is_req p s0" and "answering E ans" and "(net_step E ans is_req)\<^sup>*\<^sup>* s0 s"
    and "length (asked s) < 2 ^ 32"
  shows "(rpc_step ans)\<^sup>*\<^sup>* no_calls (abs_net s) \<and> net_inv E ans is_req p s"
  using net.runs [OF small_steps [OF assms(3,4)], where p = p] fresh_net_inv [OF assms(1)] assms(2) by metis

section \<open>Properties\<close>

text \<open>
  C3: The cluster implements remote calls. Whatever the nodes of a cluster ask each other at
  the same time, with two worker goroutines each, in whichever order their messages arrive,
  late or lost, whether callbacks return, panic or never end, and however the member tables
  change meanwhile, the calls made and the callbacks begun are a run of the machine that
  issues calls and completes each at most once, with an answer to its own request. NATS
  delivers a message at most once, each handler answers once, requests and answers are of
  different types, fewer than \<open>2 ^ 32\<close> calls are made, and no client's request, whose id the
  client chose, is among them: Collision has that case, and \<open>two_answers_run_callback_twice\<close>
  below shows what a second answer does.
\<close>

theorem network_refines_rpc:
  assumes "fresh_net E is_req p s0" and "answering E ans" and "(net_step E ans is_req)\<^sup>*\<^sup>* s0 s"
    and "length (asked s) < 2 ^ 32"
  shows "(rpc_step ans)\<^sup>*\<^sup>* \<lparr>issued = {}, returned_calls = []\<rparr>
    \<lparr>issued = (\<lambda>(i, x, k, req, cb). (i, x, req, cb)) ` set (asked s), returned_calls = answered s\<rparr>"
  using net_run [OF assms] by (simp add: abs_net_def no_calls_def)

text \<open>
  C4: An answer reaches the callback of its own request. Under the same conditions, two worker
  goroutines per node and any end of the callbacks among them, no callback is run twice,
  and the message it is run with is the answer of a handler to the request that this callback,
  and no other call of that node with that id, was registered for.
\<close>

theorem answers_find_their_callers:
  assumes "fresh_net E is_req p s0" and "answering E ans" and "(net_step E ans is_req)\<^sup>*\<^sup>* s0 s"
    and "length (asked s) < 2 ^ 32"
  shows "distinct (map fst (answered s)) \<and>
    (\<forall>((i, x), cb, m) \<in> set (answered s). \<exists>k req u. (i, x, k, req, cb) \<in> set (asked s) \<and> m = ans u req \<and>
       (\<forall>q \<in> set (asked s). (fst q, fst (snd q)) = (i, x) \<longrightarrow> q = (i, x, k, req, cb)))"
proof -
  note run = net_run [OF assms]
  have inj: "inj_on call_id (set (asked s))" using run net_invD(4) by blast
  have R: "rpc_inv ans (abs_net s)" using rpc_inv_run run by blast
  have d: "distinct (map fst (answered s))"
    and ret: "\<forall>((i, x), cb, a) \<in> set (answered s). \<exists>req h. (i, x, req, cb) \<in> issued (abs_net s) \<and> a = ans h req"
    using R by (simp_all add: rpc_inv_def abs_net_def)
  have one: "\<exists>k req u. (i, x, k, req, cb) \<in> set (asked s) \<and> m = ans u req \<and>
      (\<forall>q \<in> set (asked s). (fst q, fst (snd q)) = (i, x) \<longrightarrow> q = (i, x, k, req, cb))"
    if a: "((i, x), cb, m) \<in> set (answered s)" for i x cb m
  proof -
    obtain req u where c: "(i, x, req, cb) \<in> issued (abs_net s)" "m = ans u req"
      using bspec [OF ret a] by auto
    then obtain k where k: "(i, x, k, req, cb) \<in> set (asked s)"
      by (auto simp: abs_net_def)
    have "q = (i, x, k, req, cb)" if "q \<in> set (asked s)" "(fst q, fst (snd q)) = (i, x)" for q
      using inj_onD [OF inj, of q "(i, x, k, req, cb)"] that k by (simp add: call_id_def)
    then show ?thesis using k c(2) by blast
  qed
  show ?thesis
  proof (intro conjI d ballI, clarify)
    fix i x cb m
    assume "((i, x), cb, m) \<in> set (answered s)"
    then show "\<exists>k req u. (i, x, k, req, cb) \<in> set (asked s) \<and> m = ans u req \<and>
        (\<forall>q \<in> set (asked s). (fst q, fst (snd q)) = (i, x) \<longrightarrow> q = (i, x, k, req, cb))" by (rule one)
  qed
qed

section \<open>A call between idle nodes\<close>

text \<open>
  A frame that comes to a node is received and its task is run; so a call between two nodes
  that know each other and have nothing else to do can be made and returns.
\<close>

lemma net_serves:
  assumes "(subj, d) \<in> set (transit s)" and "net_nodes s j = Some n2" and "jobs s j = []"
    and "receive_turn E (nats_deliver subj d n2) = Some n3" and "take_task n3 = Some (t, n4)"
    and "start_job E t n4 = (n5, new)"
  shows "(net_step E ans is_req)\<^sup>*\<^sup>* s (s\<lparr>net_nodes := (net_nodes s)(j \<mapsto> n5), jobs := (jobs s)(j := new),
    transit := remove1 (subj, d) (transit s) @ emitted n4 n5, answered := answered s @ callback_run j t n4\<rparr>)"
proof -
  let ?s1 = "s\<lparr>net_nodes := (net_nodes s)(j \<mapsto> nats_deliver subj d n2), transit := remove1 (subj, d) (transit s)\<rparr>"
  let ?s2 = "?s1\<lparr>net_nodes := (net_nodes ?s1)(j \<mapsto> n3)\<rparr>"
  let ?s3 = "?s2\<lparr>net_nodes := (net_nodes ?s2)(j \<mapsto> n4), jobs := (jobs ?s2)(j := jobs ?s2 j @ [Holding t])\<rparr>"
  let ?s4 = "?s3\<lparr>net_nodes := (net_nodes ?s3)(j \<mapsto> n5), jobs := (jobs ?s3)(j := [] @ new @ []),
    transit := transit ?s3 @ emitted n4 n5, answered := answered ?s3 @ callback_run j t n4\<rparr>"
  have "net_step E ans is_req s ?s1" by (rule Carry [OF assms(1,2)])
  moreover have "net_step E ans is_req ?s1 ?s2" by (rule Receive [OF _ assms(4)]) simp
  moreover have "net_step E ans is_req ?s2 ?s3"
    by (rule Takes [OF _ _ assms(5)]) (simp_all add: assms(3) worker_goroutines_def)
  moreover have "net_step E ans is_req ?s3 ?s4"
    by (rule Begins [OF _ _ assms(6)]) (simp_all add: assms(3))
  ultimately have "(net_step E ans is_req)\<^sup>*\<^sup>* s ?s4" by (meson rtranclp.rtrancl_into_rtrancl rtranclp.rtrancl_refl)
  moreover have "?s4 = s\<lparr>net_nodes := (net_nodes s)(j \<mapsto> n5), jobs := (jobs s)(j := new),
    transit := remove1 (subj, d) (transit s) @ emitted n4 n5, answered := answered s @ callback_run j t n4\<rparr>"
    by (rule net.equality) simp_all
  ultimately show ?thesis by metis
qed

lemma idle_ask:
  assumes "answering E ans" and "publish_error E = (\<lambda>_ _. None)"
    and "net_nodes s i = Some A" and "self_id A = i" and "self_id B = j"
    and "node_ready A" and "node_ready B" and "knows A B"
    and "reg_wf (lib E) (types A)" and "type_free E req A"
    and "call_ok E ans is_req (i, mid (requester A) + 1, j, req, cb)"
  obtains g A1 where "A1 = requested A B cb g (encode (lib E) (call_common i j (mid (requester A) + 1) (route_of E req), req))"
    "reg_wf (lib E) g" "\<And>t i. type2id (types A) t = Some i \<Longrightarrow> type2id g t = Some i"
    "net_step E ans is_req s (s\<lparr>net_nodes := (net_nodes s)(i \<mapsto> A1), transit := transit s @ emitted A A1,
      asked := asked s @ [(i, mid (requester A) + 1, j, req, cb)]\<rparr>)"
proof -
  have P: "proto_ok (lib E)" using assms(1) by (simp add: answering_def)
  have f: "fits E (call_common (self_id A) (self_id B) (mid (requester A) + 1) (route_of E req)) req"
    using assms(4,5,11) by (simp add: call_ok_def request_of_def)
  obtain g where g: "requestAsync E j req (Some cb) A =
      (requested A B cb g (encode (lib E) (call_common i j (mid (requester A) + 1) (route_of E req), req)), Ret None)"
    "reg_wf (lib E) g" "\<And>t i. type2id (types A) t = Some i \<Longrightarrow> type2id g t = Some i"
    using request_step [OF P assms(2,9,6,7,8,10) f, of cb] assms(4,5) by auto
  from that [OF refl g(2,3) Ask [OF assms(3) g(1) assms(11)]] show thesis .
qed

lemma idle_call_returns:
  assumes "answering E ans" and "publish_error E = (\<lambda>_ _. None)"
    and nodes: "net_nodes s i = Some A" "net_nodes s j = Some B" "i \<noteq> j" "self_id A = i" "self_id B = j"
    and idle: "jobs s i = []" "jobs s j = []"
    and ready: "node_ready A" "node_ready B" "knows A B" "knows B A"
    and wf: "reg_wf (lib E) (types A)" "reg_wf (lib E) (types B)"
    and free: "type_free E req A" "type_free E (ans h req) B"
    and tB: "type2id (types B) (mtype (lib E) req) = Some (route_of E req)"
    and hB: "reqHandlers B (route_of E req) = Some (UserHandler (mtype (lib E) req) h)"
    and tA: "type2id (types A) (mtype (lib E) (ans h req)) = Some (route_of E (ans h req))"
    and hA: "reqHandlers A (route_of E (ans h req)) = Some RespHandler"
    and ok: "call_ok E ans is_req (i, mid (requester A) + 1, j, req, cb)"
  obtains s' where "(net_step E ans is_req)\<^sup>*\<^sup>* s s'"
    "asked s' = asked s @ [(i, mid (requester A) + 1, j, req, cb)]"
    "answered s' = answered s @ [((i, mid (requester A) + 1), cb, ans h req)]"
proof -
  let ?x = "mid (requester A) + 1" and ?r = "ans h req"
  let ?c1 = "call_common i j ?x (route_of E req)" and ?c2 = "call_common j i ?x (route_of E ?r)"
  let ?d1 = "encode (lib E) (?c1, req)" and ?d2 = "encode (lib E) (?c2, ?r)"
  have P: "proto_ok (lib E)" "run_handler E h = (\<lambda>c m. Resp E c (ans h m))"
    using assms(1) by (simp_all add: answering_def)
  have f: "fits E ?c1 req" "fits E ?c2 ?r" using ok by (auto simp: call_ok_def request_of_def answer_of_def)
  obtain g A1 where A1: "A1 = requested A B cb g ?d1" "reg_wf (lib E) g"
    "\<And>t i. type2id (types A) t = Some i \<Longrightarrow> type2id g t = Some i"
    and ask: "net_step E ans is_req s (s\<lparr>net_nodes := (net_nodes s)(i \<mapsto> A1), transit := transit s @ emitted A A1,
      asked := asked s @ [(i, ?x, j, req, cb)]\<rparr>)"
    by (rule idle_ask [OF assms(1,2) nodes(1,4,5) ready(1-3) wf(1) free(1) ok]) blast
  let ?s1 = "s\<lparr>net_nodes := (net_nodes s)(i \<mapsto> A1), transit := transit s @ emitted A A1,
    asked := asked s @ [(i, ?x, j, req, cb)]\<rparr>"
  let ?t1 = "Task (Some (UserHandler (mtype (lib E) req) h)) ?c1 req"
  let ?B3 = "B\<lparr>queue := (queue B)\<lparr>buf := [?t1]\<rparr>\<rparr>" and ?B4 = "B\<lparr>queue := (queue B)\<lparr>buf := []\<rparr>\<rparr>"
  have "sendable (lib E) (types B) (?c1, req)" using P(1) wf(2) tB f(1) by (auto simp: sendable_def fits_def)
  then have rB: "receive_turn E (nats_deliver (subject (natsSub B)) ?d1 B) = Some ?B3"
    using hB by (intro receive_frame [OF ready(2)]) simp_all
  obtain B1 where B1: "serve_one E (subject (natsSub B)) ?d1 B = (B1, Ret ())"
    "published B1 = published B @ [(subject (natsSub A), ?d2)]"
    using answer_step [OF P(1) assms(2) wf(2) ready(1,2,4) free(2) tB hB P(2), of ?x] f nodes(4,5) by metis
  have tkB: "take_task ?B3 = Some (?t1, ?B4)" by (simp add: take_task_def chan_recv_def)
  have stB: "start_job E ?t1 ?B4 = (B1, [])"
    using B1(1) rB by (simp add: serve_one_def work_turn_def chan_recv_def start_job_def)
  have eA: "emitted A A1 = [(subject (natsSub B), ?d1)]" by (simp add: A1(1) requested_def emitted_def)
  have eB: "emitted ?B4 B1 = [(subject (natsSub A), ?d2)]" using B1(2) by (simp add: emitted_def)
  let ?w = "remove1 (subject (natsSub B), ?d1) (transit ?s1) @ emitted ?B4 B1"
  let ?s2 = "?s1\<lparr>net_nodes := (net_nodes ?s1)(j \<mapsto> B1), jobs := (jobs s)(j := []), transit := ?w\<rparr>"
  have "callback_run j ?t1 ?B4 = []" by (simp add: callback_run_def)
  then have toB: "(net_step E ans is_req)\<^sup>*\<^sup>* ?s1 ?s2"
    using net_serves [of "subject (natsSub B)" ?d1 ?s1 j B E ?B3 ?t1 ?B4 B1 "[]" ans is_req] rB tkB stB nodes idle eA
    by simp
  let ?t2 = "Task (Some RespHandler) ?c2 ?r"
  let ?A3 = "A1\<lparr>queue := (queue A1)\<lparr>buf := [?t2]\<rparr>\<rparr>" and ?A4 = "A1\<lparr>queue := (queue A1)\<lparr>buf := []\<rparr>\<rparr>"
  have readyA: "node_ready A1" using ready(1) by (simp add: A1(1) requested_def node_ready_def)
  have "sendable (lib E) (types A1) (?c2, ?r)"
    using P(1) A1(2) A1(3) [OF tA] f(2) by (auto simp: sendable_def fits_def A1(1) requested_def)
  then have rA: "receive_turn E (nats_deliver (subject (natsSub A)) ?d2 A1) = Some ?A3"
    using receive_frame [OF readyA, of E ?c2 ?r RespHandler] hA by (simp add: A1(1) requested_def)
  have tkA: "take_task ?A3 = Some (?t2, ?A4)" by (simp add: take_task_def chan_recv_def)
  have cbA: "find_callback ?x (requester ?A4) = Some cb"
    by (simp add: A1(1) requested_def registerCallback_def)
  then have stA: "start_job E ?t2 ?A4 = (?A4, [Calling ?x])" "callback_run i ?t2 ?A4 = [((i, ?x), cb, ?r)]"
    by (simp_all add: start_job_def callback_run_def)
  have in2: "(subject (natsSub A), ?d2) \<in> set (transit ?s2)" "net_nodes ?s2 i = Some A1" "jobs ?s2 i = []"
    using eB nodes(3) idle by simp_all
  from net_serves [OF in2 rA tkA stA(1), of ans is_req]
  obtain s3 where s3: "(net_step E ans is_req)\<^sup>*\<^sup>* ?s2 s3" "asked s3 = asked ?s1"
    "answered s3 = answered s @ [((i, ?x), cb, ?r)]"
    unfolding stA(2) by force
  show thesis
  proof (rule that)
    show "(net_step E ans is_req)\<^sup>*\<^sup>* s s3"
      using ask toB s3(1) by (meson converse_rtranclp_into_rtranclp rtranclp_trans)
  qed (simp_all add: s3(2,3))
qed

section \<open>A second answer\<close>

text \<open>
  What \<open>answering\<close> and NATS exclude: two answers under one id in the queue. The two worker
  goroutines take one each, both look the callback up before either removes it, and it runs
  twice, where one goroutine would have panicked on the second answer.
\<close>

theorem two_answers_run_callback_twice:
  assumes "net_nodes s i = Some n" and "jobs s i = []" and "handlers (requester n) x = Some cb"
    and "buf (queue n) = Task (Some RespHandler) c1 m1 # Task (Some RespHandler) c2 m2 # ts"
    and "Mid c1 = x" and "Mid c2 = x"
  shows "\<exists>s'. (net_step E ans is_req)\<^sup>*\<^sup>* s s' \<and>
    answered s' = answered s @ [((i, x), cb, m1), ((i, x), cb, m2)]"
proof -
  let ?t1 = "Task (Some RespHandler) c1 m1" and ?t2 = "Task (Some RespHandler) c2 m2"
  let ?n1 = "n\<lparr>queue := (queue n)\<lparr>buf := ?t2 # ts\<rparr>\<rparr>" and ?n2 = "n\<lparr>queue := (queue n)\<lparr>buf := ts\<rparr>\<rparr>"
  let ?s1 = "s\<lparr>net_nodes := (net_nodes s)(i \<mapsto> ?n1), jobs := (jobs s)(i := jobs s i @ [Holding ?t1])\<rparr>"
  let ?s2 = "?s1\<lparr>net_nodes := (net_nodes ?s1)(i \<mapsto> ?n2), jobs := (jobs ?s1)(i := jobs ?s1 i @ [Holding ?t2])\<rparr>"
  let ?s3 = "?s2\<lparr>net_nodes := (net_nodes ?s2)(i \<mapsto> ?n2), jobs := (jobs ?s2)(i := [] @ [Calling x] @ [Holding ?t2]),
    transit := transit ?s2 @ emitted ?n2 ?n2, answered := answered ?s2 @ callback_run i ?t1 ?n2\<rparr>"
  let ?s4 = "?s3\<lparr>net_nodes := (net_nodes ?s3)(i \<mapsto> ?n2), jobs := (jobs ?s3)(i := [Calling x] @ [Calling x] @ []),
    transit := transit ?s3 @ emitted ?n2 ?n2, answered := answered ?s3 @ callback_run i ?t2 ?n2\<rparr>"
  have take: "take_task n = Some (?t1, ?n1)" "take_task ?n1 = Some (?t2, ?n2)"
    using assms(4) by (simp_all add: take_task_def chan_recv_def)
  have start: "start_job E ?t1 ?n2 = (?n2, [Calling x])" "start_job E ?t2 ?n2 = (?n2, [Calling x])"
    using assms(3,5,6) by (simp_all add: start_job_def)
  have "net_step E ans is_req s ?s1"
    by (rule Takes [OF assms(1) _ take(1)]) (simp add: assms(2) worker_goroutines_def)
  moreover have "net_step E ans is_req ?s1 ?s2"
    by (rule Takes [OF _ _ take(2)]) (simp_all add: assms(2) worker_goroutines_def)
  moreover have "net_step E ans is_req ?s2 ?s3" by (rule Begins [OF _ _ start(1)]) (simp_all add: assms(2))
  moreover have "net_step E ans is_req ?s3 ?s4" by (rule Begins [OF _ _ start(2)]) simp_all
  ultimately have "(net_step E ans is_req)\<^sup>*\<^sup>* s ?s4" by (meson rtranclp.rtrancl_into_rtrancl rtranclp.rtrancl_refl)
  moreover have "answered ?s4 = answered s @ [((i, x), cb, m1), ((i, x), cb, m2)]"
    using assms(3,5,6) by (simp add: callback_run_def)
  ultimately show ?thesis by blast
qed

section \<open>A sample network\<close>

definition sample_net :: "(pb_type, pb_msg, unit, string, unit) net" where
  "sample_net = \<lparr>net_nodes = [''g'' \<mapsto> sample_gate, ''a'' \<mapsto> sample_auth], jobs = \<lambda>_. [], transit = [], asked = [], answered = []\<rparr>"

definition asks_sum :: "pb_msg \<Rightarrow> bool" where
  "asks_sum m \<longleftrightarrow> pb_msg_type m = TGtGaReqAB"

lemma sample_answering: "answering sample_env (\<lambda>_. sum_answer)"
  using crc32_full_name_inj by (auto simp: answering_def proto_ok_sample sample_run_handler inj_def simp del: full_name.simps)

lemma sample_fresh: "fresh_net sample_env asks_sum ''node'' sample_net"
proof -
  have id: "name_id (full_name t) = name_id (full_name u) \<longleftrightarrow> t = u" for t u
    using crc32_full_name_inj [of t u] by blast
  have "site sample_env asks_sum ''node'' i n" if "n = sample_node i ty t h" "(t, h) \<in> {(TGtGaRspAB, RespHandler),
      (TGtGaReqAB, UserHandler TGtGaReqAB ())}" "ty \<in> {''gate'', ''auth''}" for i n ty t h
  proof -
    have "reg_wf sample_lib (types n)"
      unfolding that(1) by (simp add: sample_node_def RegisterMessage_wf reg_wf_empty del: full_name.simps)
    moreover have "roles sample_env asks_sum n"
      using that(2) by (auto simp: that(1) roles_def sample_node_def asks_sum_def id split: if_splits simp del: full_name.simps)
    moreover have "dot_free ty'" if "GetType (members n) k = Inr ty'" for k ty'
      using that by (auto simp: \<open>n = _\<close> sample_node_def GetType_def GetMember_def dot_free_def split: if_splits option.splits)
    ultimately show ?thesis using that(3)
      by (auto simp: site_def that(1) sample_node_def newNatsSubject_def dot_free_def)
  qed
  from this [of _ "''g''" "''gate''" TGtGaRspAB RespHandler]
    this [of _ "''a''" "''auth''" TGtGaReqAB "UserHandler TGtGaReqAB ()"]
  show ?thesis
    by (auto simp: fresh_net_def sample_net_def sample_gate_def sample_auth_def split: if_splits)
      (auto simp: sample_node_def newNatsSubject_def)
qed


lemma sample_routes:
  "type2id (types sample_auth) (mtype (lib sample_env) sample_req) = Some (route_of sample_env sample_req)"
  "reqHandlers sample_auth (route_of sample_env sample_req) = Some (UserHandler (mtype (lib sample_env) sample_req) ())"
  "type2id (types sample_gate) (mtype (lib sample_env) (sum_answer sample_req)) =
     Some (route_of sample_env (sum_answer sample_req))"
  "reqHandlers sample_gate (route_of sample_env (sum_answer sample_req)) = Some RespHandler"
  using sample_types by (simp_all add: sample_req_def del: full_name.simps)
    (simp_all add: sample_node_def sample_gate_def sample_auth_def del: full_name.simps)

lemma sample_call_ok:
  "call_ok sample_env (\<lambda>_. sum_answer) asks_sum (''g'', mid (requester sample_gate) + 1, ''a'', sample_req, ''cb'')"
proof -
  have "fits sample_env (call_common a b x m) sample_req" "fits sample_env (call_common a b x m) (sum_answer sample_req)"
    if "length a = 1" "length b = 1" for a b x m
    using that by (simp_all add: fits_def sample_req_def length_enc_common)
  then show ?thesis
    by (simp add: call_ok_def request_of_def answer_of_def asks_sum_def sample_req_def del: full_name.simps)
qed

text \<open>The gate asks for a sum, the auth node answers, the gate runs its callback.\<close>

lemma sample_net_run:
  "\<exists>s. (net_step sample_env (\<lambda>_. sum_answer) asks_sum)\<^sup>*\<^sup>* sample_net s \<and>
     asked s = [(''g'', 1, ''a'', sample_req, ''cb'')] \<and> answered s = [((''g'', 1), ''cb'', sum_answer sample_req)]"
proof -
  have k: "net_nodes sample_net ''g'' = Some sample_gate" "net_nodes sample_net ''a'' = Some sample_auth"
    "''g'' \<noteq> ''a''" "self_id sample_gate = ''g''" "self_id sample_auth = ''a''"
    and x: "mid (requester sample_gate) = 0"
    and idle: "jobs sample_net ''g'' = []" "jobs sample_net ''a'' = []"
    by (simp_all add: sample_net_def sample_node_defs)
  have wf: "reg_wf (lib sample_env) (types sample_gate)" "reg_wf (lib sample_env) (types sample_auth)"
    using sample_wf by (simp_all add: handlers_wf_def)
  have free: "type_free sample_env sample_req sample_gate" "type_free sample_env (sum_answer sample_req) sample_auth"
    using sample_ids by (auto simp: type_free_def sample_types sample_req_def simp del: full_name.simps)
  show ?thesis
    using idle_call_returns [where ans = "\<lambda>_. sum_answer", OF sample_answering sample_env_simps(2) k idle
        sample_ready wf free sample_routes sample_call_ok] x by (auto simp: sample_net_def)
qed

theorem network_refines_rpc_witness:
  "(rpc_step (\<lambda>_ :: unit. sum_answer))\<^sup>*\<^sup>* \<lparr>issued = {}, returned_calls = []\<rparr>
    \<lparr>issued = {(''g'', 1, sample_req, ''cb'')}, returned_calls = [((''g'', 1), ''cb'', sum_answer sample_req)]\<rparr>"
proof -
  obtain s where s: "(net_step sample_env (\<lambda>_. sum_answer) asks_sum)\<^sup>*\<^sup>* sample_net s"
    "asked s = [(''g'', 1, ''a'', sample_req, ''cb'')]" "answered s = [((''g'', 1), ''cb'', sum_answer sample_req)]"
    using sample_net_run by blast
  from network_refines_rpc [OF sample_fresh sample_answering s(1)] s(2,3) show ?thesis by simp
qed

theorem answers_find_their_callers_witness:
  "\<exists>s. (net_step sample_env (\<lambda>_. sum_answer) asks_sum)\<^sup>*\<^sup>* sample_net s \<and>
     ((''g'', 1), ''cb'', sum_answer sample_req) \<in> set (answered s) \<and> distinct (map fst (answered s))"
proof -
  obtain s where s: "(net_step sample_env (\<lambda>_. sum_answer) asks_sum)\<^sup>*\<^sup>* sample_net s"
    "asked s = [(''g'', 1, ''a'', sample_req, ''cb'')]" "answered s = [((''g'', 1), ''cb'', sum_answer sample_req)]"
    using sample_net_run by blast
  from answers_find_their_callers [OF sample_fresh sample_answering s(1)] s show ?thesis by auto
qed

theorem two_answers_run_callback_twice_witness:
  "let t = Task (Some RespHandler) (call_common ''a'' ''g'' 1 0) sample_req;
       n = sample_gate\<lparr>requester := snd (registerCallback (Some ''cb'') newRpcHandlerMgr),
         queue := \<lparr>buf = [t, t], cap = 2, isclosed = False\<rparr>\<rparr>
   in \<exists>s'. (net_step sample_env (\<lambda>_. sum_answer) asks_sum)\<^sup>*\<^sup>* (sample_net\<lparr>net_nodes := [''g'' \<mapsto> n]\<rparr>) s' \<and>
     answered s' = [((''g'', 1), ''cb'', sample_req), ((''g'', 1), ''cb'', sample_req)]"
proof -
  let ?c = "call_common ''a'' ''g'' 1 0"
  let ?t = "Task (Some RespHandler) ?c sample_req"
  let ?n = "sample_gate\<lparr>requester := snd (registerCallback (Some ''cb'') newRpcHandlerMgr),
    queue := \<lparr>buf = [?t, ?t], cap = 2, isclosed = False\<rparr>\<rparr>"
  let ?s = "sample_net\<lparr>net_nodes := [''g'' \<mapsto> ?n]\<rparr>"
  have k: "net_nodes ?s ''g'' = Some ?n" "jobs ?s ''g'' = []" "handlers (requester ?n) 1 = Some ''cb''"
    "buf (queue ?n) = [?t, ?t]" "Mid ?c = 1" "answered ?s = []"
    by (simp_all add: sample_net_def registerCallback_def newRpcHandlerMgr_def call_common_eq)
  from two_answers_run_callback_twice [OF k(1-5) k(5), of sample_env "\<lambda>_. sum_answer" asks_sum] k(6)
  show ?thesis by (simp add: Let_def)
qed

end
