(* ===== verification/Logger.thy ===== *)
theory Logger
  imports Prelude
begin

text \<open>
  \<^verbatim>\<open>framework/logger\<close>: the levels with their order, the console encoding of a level,
  the choice of cores from the configuration and \<open>Init\<close>. The cores themselves are the
  zap library's; a core is its encoder with the configuration of that, where it writes, and
  its level. The level names that zap parses are a parameter.
\<close>

section \<open>Levels\<close>

text \<open>zap orders the levels by their numbers, from debug to fatal.\<close>

datatype level = DebugLevel | InfoLevel | WarnLevel | ErrorLevel | DPanicLevel | PanicLevel | FatalLevel

fun level_no :: "level \<Rightarrow> int" where
  "level_no DebugLevel = - 1"
| "level_no InfoLevel = 0"
| "level_no WarnLevel = 1"
| "level_no ErrorLevel = 2"
| "level_no DPanicLevel = 3"
| "level_no PanicLevel = 4"
| "level_no FatalLevel = 5"

lemma level_no_inj: "level_no a = level_no b \<Longrightarrow> a = b"
  by (cases a; cases b) simp_all

instantiation level :: linorder
begin

definition less_eq_level :: "level \<Rightarrow> level \<Rightarrow> bool" where
  "less_eq_level a b \<longleftrightarrow> level_no a \<le> level_no b"

definition less_level :: "level \<Rightarrow> level \<Rightarrow> bool" where
  "less_level a b \<longleftrightarrow> level_no a < level_no b"

instance
  by standard (auto simp: less_eq_level_def less_level_def intro: level_no_inj)

end

fun CapitalString :: "level \<Rightarrow> string" where
  "CapitalString DebugLevel = ''DEBUG''"
| "CapitalString InfoLevel = ''INFO''"
| "CapitalString WarnLevel = ''WARN''"
| "CapitalString ErrorLevel = ''ERROR''"
| "CapitalString DPanicLevel = ''DPANIC''"
| "CapitalString PanicLevel = ''PANIC''"
| "CapitalString FatalLevel = ''FATAL''"

section \<open>Console encoding\<close>

definition ansi :: "string \<Rightarrow> string" where
  "ansi code = char_of (27 :: nat) # ''['' @ code @ ''m''"

definition red :: string where "red = ansi ''31''"
definition yellow :: string where "yellow = ansi ''33''"
definition blue :: string where "blue = ansi ''36''"
definition green :: string where "green = ansi ''32''"
definition resetColor :: string where "resetColor = ansi ''0''"

lemmas ansi_defs = red_def yellow_def blue_def green_def resetColor_def ansi_def

text \<open>The default branch of the switch is for numbers that are no level.\<close>

fun getColorByLevel :: "level option \<Rightarrow> string" where
  "getColorByLevel (Some DebugLevel) = blue"
| "getColorByLevel (Some InfoLevel) = green"
| "getColorByLevel (Some WarnLevel) = yellow"
| "getColorByLevel (Some ErrorLevel) = red"
| "getColorByLevel (Some DPanicLevel) = red"
| "getColorByLevel (Some PanicLevel) = red"
| "getColorByLevel (Some FatalLevel) = red"
| "getColorByLevel None = resetColor"

definition encodeLevel :: "level \<Rightarrow> string" where
  "encodeLevel l =
     sprintf ''%s%s%s'' [ArgS (getColorByLevel (Some l)), ArgS (CapitalString l), ArgS resetColor]"

section \<open>Configuration and cores\<close>

record ZapConfig =
  Level :: string
  EnableConsoleWriter :: bool
  EnableFileWriter :: bool
  Filename :: string

text \<open>
  zap's encoders by name; \<open>CustomLevelEncoder\<close> calls \<open>encodeLevel\<close> of this package. The line
  ending is zap's default, a newline.
\<close>

datatype level_encoder = CustomLevelEncoder "level \<Rightarrow> string" | LowercaseLevelEncoder

datatype time_encoder = ISO8601TimeEncoder

datatype duration_encoder = StringDurationEncoder | SecondsDurationEncoder

datatype caller_encoder = ShortCallerEncoder

record EncoderConfig =
  TimeKey :: string
  LevelKey :: string
  NameKey :: string
  CallerKey :: string
  MessageKey :: string
  StacktraceKey :: string
  LineEnding :: string
  EncodeLevel :: level_encoder
  EncodeTime :: time_encoder
  EncodeDuration :: duration_encoder
  EncodeCaller :: caller_encoder

datatype encoder = ConsoleEncoder EncoderConfig | JSONEncoder EncoderConfig

datatype sink = Stdout | RotateLog string

datatype core = NewCore encoder sink level

definition console_encoding :: EncoderConfig where
  "console_encoding =
     \<lparr>TimeKey = ''ts'', LevelKey = ''level'', NameKey = ''logger'', CallerKey = ''caller'',
      MessageKey = ''msg'', StacktraceKey = ''stacktrace'', LineEnding = [CHR 0x0A],
      EncodeLevel = CustomLevelEncoder encodeLevel, EncodeTime = ISO8601TimeEncoder,
      EncodeDuration = StringDurationEncoder, EncodeCaller = ShortCallerEncoder\<rparr>"

definition file_encoding :: EncoderConfig where
  "file_encoding =
     \<lparr>TimeKey = ''ts'', LevelKey = ''level'', NameKey = ''logger'', CallerKey = ''caller'',
      MessageKey = ''msg'', StacktraceKey = ''stacktrace'', LineEnding = [CHR 0x0A],
      EncodeLevel = LowercaseLevelEncoder, EncodeTime = ISO8601TimeEncoder,
      EncodeDuration = SecondsDurationEncoder, EncodeCaller = ShortCallerEncoder\<rparr>"

abbreviation ConsoleCore :: "level \<Rightarrow> core" where
  "ConsoleCore \<equiv> NewCore (ConsoleEncoder console_encoding) Stdout"

abbreviation FileCore :: "level \<Rightarrow> string \<Rightarrow> core" where
  "FileCore l name \<equiv> NewCore (JSONEncoder file_encoding) (RotateLog name) l"

definition core_level :: "(string \<Rightarrow> level option) \<Rightarrow> ZapConfig \<Rightarrow> level" where
  "core_level parse config = (case parse (Level config) of Some l \<Rightarrow> l | None \<Rightarrow> DebugLevel)"

definition newConsoleCore :: "(string \<Rightarrow> level option) \<Rightarrow> ZapConfig \<Rightarrow> core" where
  "newConsoleCore parse config =
     NewCore (ConsoleEncoder console_encoding) Stdout (core_level parse config)"

definition newFileCore :: "(string \<Rightarrow> level option) \<Rightarrow> ZapConfig \<Rightarrow> core" where
  "newFileCore parse config =
     NewCore (JSONEncoder file_encoding) (RotateLog (Filename config)) (core_level parse config)"

text \<open>
  \<open>defaultLogger\<close> is the list of its cores, \<open>None\<close> for the development logger of the
  package's own \<open>init\<close>. \<open>Init\<close> writes the file name back into the configuration its
  caller shares.
\<close>

definition Init ::
    "(string \<Rightarrow> level option) \<Rightarrow> string \<Rightarrow> string \<Rightarrow> ZapConfig \<Rightarrow> core list option \<Rightarrow>
     ZapConfig \<times> core list option" where
  "Init parse nodeId nodeType logCfg defaultLogger =
     (let cores0 = (if EnableConsoleWriter logCfg then [newConsoleCore parse logCfg] else []);
          logCfg' = (if EnableFileWriter logCfg
                     then logCfg\<lparr>Filename := sprintf (Filename logCfg) [ArgS nodeType, ArgS nodeId]\<rparr>
                     else logCfg);
          cores = cores0 @ (if EnableFileWriter logCfg then [newFileCore parse logCfg'] else [])
      in (logCfg', if length cores > 0 then Some cores else defaultLogger))"

fun admits :: "level \<Rightarrow> core \<Rightarrow> bool" where
  "admits l (NewCore enc out m) \<longleftrightarrow> m \<le> l"

section \<open>Lines\<close>

text \<open>
  The functions of the package hand their operands to the method of the same name of the
  default logger. zap's sugared logger is the parameter \<open>zap\<close>: it gets the cores, the level
  and the operands in the way of the method's family, acts on the output \<open>'w\<close> and returns,
  panics or ends the process.
\<close>

datatype 'a log_operands = Print "'a list" | Template string "'a list" | Fields string "'a list"

type_synonym ('a, 'w) zap = "core list option \<Rightarrow> level \<Rightarrow> 'a log_operands \<Rightarrow> ('w, unit) proc"

definition log_Flush :: "(core list option \<Rightarrow> 'w \<Rightarrow> 'w) \<Rightarrow> core list option \<Rightarrow> 'w \<Rightarrow> 'w" where
  "log_Flush sync defaultLogger = sync defaultLogger"

definition log_Debug :: "('a, 'w) zap \<Rightarrow> core list option \<Rightarrow> 'a list \<Rightarrow> ('w, unit) proc" where
  "log_Debug zap defaultLogger args = zap defaultLogger DebugLevel (Print args)"

definition log_Info :: "('a, 'w) zap \<Rightarrow> core list option \<Rightarrow> 'a list \<Rightarrow> ('w, unit) proc" where
  "log_Info zap defaultLogger args = zap defaultLogger InfoLevel (Print args)"

definition log_Warn :: "('a, 'w) zap \<Rightarrow> core list option \<Rightarrow> 'a list \<Rightarrow> ('w, unit) proc" where
  "log_Warn zap defaultLogger args = zap defaultLogger WarnLevel (Print args)"

definition log_Error :: "('a, 'w) zap \<Rightarrow> core list option \<Rightarrow> 'a list \<Rightarrow> ('w, unit) proc" where
  "log_Error zap defaultLogger args = zap defaultLogger ErrorLevel (Print args)"

definition log_DPanic :: "('a, 'w) zap \<Rightarrow> core list option \<Rightarrow> 'a list \<Rightarrow> ('w, unit) proc" where
  "log_DPanic zap defaultLogger args = zap defaultLogger DPanicLevel (Print args)"

definition log_Panic :: "('a, 'w) zap \<Rightarrow> core list option \<Rightarrow> 'a list \<Rightarrow> ('w, unit) proc" where
  "log_Panic zap defaultLogger args = zap defaultLogger PanicLevel (Print args)"

definition log_Fatal :: "('a, 'w) zap \<Rightarrow> core list option \<Rightarrow> 'a list \<Rightarrow> ('w, unit) proc" where
  "log_Fatal zap defaultLogger args = zap defaultLogger FatalLevel (Print args)"

definition log_Debugf :: "('a, 'w) zap \<Rightarrow> core list option \<Rightarrow> string \<Rightarrow> 'a list \<Rightarrow> ('w, unit) proc" where
  "log_Debugf zap defaultLogger tmpl args = zap defaultLogger DebugLevel (Template tmpl args)"

definition log_Infof :: "('a, 'w) zap \<Rightarrow> core list option \<Rightarrow> string \<Rightarrow> 'a list \<Rightarrow> ('w, unit) proc" where
  "log_Infof zap defaultLogger tmpl args = zap defaultLogger InfoLevel (Template tmpl args)"

definition log_Warnf :: "('a, 'w) zap \<Rightarrow> core list option \<Rightarrow> string \<Rightarrow> 'a list \<Rightarrow> ('w, unit) proc" where
  "log_Warnf zap defaultLogger tmpl args = zap defaultLogger WarnLevel (Template tmpl args)"

definition log_Errorf :: "('a, 'w) zap \<Rightarrow> core list option \<Rightarrow> string \<Rightarrow> 'a list \<Rightarrow> ('w, unit) proc" where
  "log_Errorf zap defaultLogger tmpl args = zap defaultLogger ErrorLevel (Template tmpl args)"

definition log_DPanicf :: "('a, 'w) zap \<Rightarrow> core list option \<Rightarrow> string \<Rightarrow> 'a list \<Rightarrow> ('w, unit) proc" where
  "log_DPanicf zap defaultLogger tmpl args = zap defaultLogger DPanicLevel (Template tmpl args)"

definition log_Panicf :: "('a, 'w) zap \<Rightarrow> core list option \<Rightarrow> string \<Rightarrow> 'a list \<Rightarrow> ('w, unit) proc" where
  "log_Panicf zap defaultLogger tmpl args = zap defaultLogger PanicLevel (Template tmpl args)"

definition log_Fatalf :: "('a, 'w) zap \<Rightarrow> core list option \<Rightarrow> string \<Rightarrow> 'a list \<Rightarrow> ('w, unit) proc" where
  "log_Fatalf zap defaultLogger tmpl args = zap defaultLogger FatalLevel (Template tmpl args)"

definition log_Debugw :: "('a, 'w) zap \<Rightarrow> core list option \<Rightarrow> string \<Rightarrow> 'a list \<Rightarrow> ('w, unit) proc" where
  "log_Debugw zap defaultLogger msg kvs = zap defaultLogger DebugLevel (Fields msg kvs)"

definition log_Infow :: "('a, 'w) zap \<Rightarrow> core list option \<Rightarrow> string \<Rightarrow> 'a list \<Rightarrow> ('w, unit) proc" where
  "log_Infow zap defaultLogger msg kvs = zap defaultLogger InfoLevel (Fields msg kvs)"

definition log_Warnw :: "('a, 'w) zap \<Rightarrow> core list option \<Rightarrow> string \<Rightarrow> 'a list \<Rightarrow> ('w, unit) proc" where
  "log_Warnw zap defaultLogger msg kvs = zap defaultLogger WarnLevel (Fields msg kvs)"

definition log_Errorw :: "('a, 'w) zap \<Rightarrow> core list option \<Rightarrow> string \<Rightarrow> 'a list \<Rightarrow> ('w, unit) proc" where
  "log_Errorw zap defaultLogger msg kvs = zap defaultLogger ErrorLevel (Fields msg kvs)"

definition log_DPanicw :: "('a, 'w) zap \<Rightarrow> core list option \<Rightarrow> string \<Rightarrow> 'a list \<Rightarrow> ('w, unit) proc" where
  "log_DPanicw zap defaultLogger msg kvs = zap defaultLogger DPanicLevel (Fields msg kvs)"

definition log_Panicw :: "('a, 'w) zap \<Rightarrow> core list option \<Rightarrow> string \<Rightarrow> 'a list \<Rightarrow> ('w, unit) proc" where
  "log_Panicw zap defaultLogger msg kvs = zap defaultLogger PanicLevel (Fields msg kvs)"

definition log_Fatalw :: "('a, 'w) zap \<Rightarrow> core list option \<Rightarrow> string \<Rightarrow> 'a list \<Rightarrow> ('w, unit) proc" where
  "log_Fatalw zap defaultLogger msg kvs = zap defaultLogger FatalLevel (Fields msg kvs)"

lemmas log_defs = log_Debug_def log_Info_def log_Warn_def log_Error_def log_DPanic_def
  log_Panic_def log_Fatal_def log_Debugf_def log_Infof_def log_Warnf_def log_Errorf_def
  log_DPanicf_def log_Panicf_def log_Fatalf_def log_Debugw_def log_Infow_def log_Warnw_def
  log_Errorw_def log_DPanicw_def log_Panicw_def log_Fatalw_def

text \<open>
  What zap documents: a line goes to the cores of the tee that admit its level; then
  \<open>Fatal\<close> ends the process and \<open>Panic\<close> panics, and \<open>DPanic\<close> does in a development logger.
  The output is the list of the lines of each core.
\<close>

definition log_end :: "core list option \<Rightarrow> level \<Rightarrow> unit outcome" where
  "log_end lg l =
     (if l = FatalLevel then Exit []
      else if l = PanicLevel \<or> l = DPanicLevel \<and> lg = None then Panic []
      else Ret ())"

definition zap_ok :: "('a, (core \<times> level \<times> 'a log_operands) list) zap \<Rightarrow> bool" where
  "zap_ok zap \<longleftrightarrow> (\<forall>cores l x out.
     fst (zap (Some cores) l x out) = out @ map (\<lambda>c. (c, l, x)) (filter (admits l) cores) \<and>
     (snd (zap (Some cores) l x out) = Ret ()) = (log_end (Some cores) l = Ret ()))"

text \<open>
  After \<open>Init\<close> a debug line reaches the writers that are on exactly if the configured level,
  or the one that stands in for a level that does not parse, is the lowest. An error line returns.
\<close>

theorem lines_after_Init:
  assumes "zap_ok zap" and "EnableConsoleWriter cfg \<or> EnableFileWriter cfg"
    and "Init parse k ty cfg lg = (cfg', lg')"
  shows "map fst (fst (log_Debugf zap lg' tmpl args [])) =
      (if core_level parse cfg = DebugLevel
       then (if EnableConsoleWriter cfg then [ConsoleCore DebugLevel] else []) @
         (if EnableFileWriter cfg then [FileCore DebugLevel (Filename cfg')] else [])
       else [])"
    and "snd (log_Error zap lg' args []) = Ret ()"
proof -
  let ?l = "core_level parse cfg"
  have low: "?l \<le> DebugLevel \<longleftrightarrow> ?l = DebugLevel"
    by (cases ?l) (simp_all add: less_eq_level_def)
  obtain cores where lg': "lg' = Some cores" and
    cores: "cores = (if EnableConsoleWriter cfg then [ConsoleCore ?l] else []) @
      (if EnableFileWriter cfg then [FileCore ?l (Filename cfg')] else [])"
    using assms(2,3) by (auto simp: Init_def newConsoleCore_def newFileCore_def core_level_def Let_def split: if_splits)
  show "map fst (fst (log_Debugf zap lg' tmpl args [])) =
      (if ?l = DebugLevel
       then (if EnableConsoleWriter cfg then [ConsoleCore DebugLevel] else []) @
         (if EnableFileWriter cfg then [FileCore DebugLevel (Filename cfg')] else [])
       else [])"
    using assms(1) low by (simp add: zap_ok_def lg' log_defs cores comp_def)
  show "snd (log_Error zap lg' args []) = Ret ()"
    using assms(1) by (simp add: zap_ok_def lg' log_defs log_end_def)
qed

section \<open>Properties\<close>

text \<open>
  The console text of a level is its capital name between a colour and the reset, and
  different levels are told apart.
\<close>

theorem encodeLevel_inj: "encodeLevel a = encodeLevel b \<longleftrightarrow> a = b"
proof -
  have e: "encodeLevel l = getColorByLevel (Some l) @ CapitalString l @ resetColor" for l
    by (simp add: encodeLevel_def sprintf.simps fmt_verb_def)
  show ?thesis unfolding e
    by (cases a; cases b) (simp_all add: ansi_defs)
qed

lemma sprintf_no_verb:
  "CHR ''%'' \<notin> set f \<Longrightarrow> sprintf f [ArgS a, ArgS b] =
   f @ ''%!(EXTRA string='' @ a @ '', string='' @ b @ '')''"
  using sprintf_append_plain [of f "[]" "[ArgS a, ArgS b]"] by (simp add: sprintf.simps)

lemma sprintf_file:
  "CHR ''%'' \<notin> set p \<Longrightarrow> CHR ''%'' \<notin> set q \<Longrightarrow> CHR ''%'' \<notin> set r \<Longrightarrow>
   sprintf (p @ ''%s'' @ q @ ''%s'' @ r) [ArgS a, ArgS b] = p @ a @ q @ b @ r"
proof -
  assume plain: "CHR ''%'' \<notin> set p" "CHR ''%'' \<notin> set q" "CHR ''%'' \<notin> set r"
  have "sprintf r [] = r"
    using sprintf_append_plain [OF plain(3), of "[]" "[]"] by (simp add: sprintf.simps)
  then show ?thesis
    by (simp add: sprintf_append_plain plain sprintf.simps fmt_verb_def)
qed

text \<open>
  \<open>Init\<close> fills the file name of the configuration in place, so it must run once per
  configuration. The first call names the file after type and id; a second one takes the
  finished name as a format and appends the surplus operands to it.
\<close>

theorem Init_twice_spoils_file_name:
  assumes "EnableFileWriter cfg" and "Filename cfg = p @ ''%s'' @ q @ ''%s'' @ r"
    and "CHR ''%'' \<notin> set (p @ q @ r)" "CHR ''%'' \<notin> set ty" "CHR ''%'' \<notin> set k"
    and "Init parse k ty cfg lg = (cfg1, lg1)" and "Init parse k ty cfg1 lg1 = (cfg2, lg2)"
  shows "Filename cfg1 = p @ ty @ q @ k @ r \<and>
    Filename cfg2 = Filename cfg1 @ ''%!(EXTRA string='' @ ty @ '', string='' @ k @ '')''"
proof -
  have 1: "Filename cfg1 = p @ ty @ q @ k @ r" "EnableFileWriter cfg1"
    using assms(1-3,6) sprintf_file [of p q r ty k] by (auto simp: Init_def)
  have "CHR ''%'' \<notin> set (Filename cfg1)" using assms(3-5) 1(1) by simp
  then have "Filename cfg2 = Filename cfg1 @ ''%!(EXTRA string='' @ ty @ '', string='' @ k @ '')''"
    using assms(7) 1(2) sprintf_no_verb [of "Filename cfg1" ty k] by (auto simp: Init_def)
  with 1(1) show ?thesis by simp
qed

definition sample_config :: ZapConfig where
  "sample_config = \<lparr>Level = ''debug'', EnableConsoleWriter = True, EnableFileWriter = True,
     Filename = ''./logs/%s-%s.log''\<rparr>"

theorem Init_twice_spoils_file_name_witness:
  "let cfg1 = fst (Init (\<lambda>_. Some DebugLevel) ''gate1'' ''gate'' sample_config None);
       cfg2 = fst (Init (\<lambda>_. Some DebugLevel) ''gate1'' ''gate'' cfg1 None)
   in Filename cfg1 = ''./logs/gate-gate1.log'' \<and>
      Filename cfg2 = ''./logs/gate-gate1.log%!(EXTRA string=gate, string=gate1)''"
proof -
  obtain cfg1 lg1 where 1: "Init (\<lambda>_. Some DebugLevel) ''gate1'' ''gate'' sample_config None = (cfg1, lg1)"
    by (cases "Init (\<lambda>_. Some DebugLevel) ''gate1'' ''gate'' sample_config None")
  obtain cfg2 lg2 where 2: "Init (\<lambda>_. Some DebugLevel) ''gate1'' ''gate'' cfg1 lg1 = (cfg2, lg2)"
    by (cases "Init (\<lambda>_. Some DebugLevel) ''gate1'' ''gate'' cfg1 lg1")
  have "fst (Init (\<lambda>_. Some DebugLevel) ''gate1'' ''gate'' cfg1 None) = cfg2"
    using 2 by (auto simp: Init_def)
  then show ?thesis
    using Init_twice_spoils_file_name [OF _ _ _ _ _ 1 2, of "''./logs/''" "''-''" "''.log''"] 1
    by (simp add: sample_config_def)
qed

end
