(* ===== verification/Profile.thy ===== *)
theory Profile
  imports Errors Logger
begin

text \<open>
  \<^verbatim>\<open>framework/profile/profile.go\<close>: the configuration of a cluster and of its nodes. Reading
  the file and decoding its JSON are calls of the standard library; their outcomes are
  arguments. The settings of the etcd client are opaque, \<open>'e\<close>.
\<close>

definition NodeTypeGate :: string where "NodeTypeGate = ''gate''"
definition NodeTypeAuth :: string where "NodeTypeAuth = ''auth''"
definition NodeTypeGame :: string where "NodeTypeGame = ''game''"
definition NodeTypeEntity :: string where "NodeTypeEntity = ''entity''"

record NodeCfg =
  Cfg_NodeId :: string
  Cfg_NodeType :: string
  Ports :: "string \<Rightarrow> int option"
  IsGate :: bool
  Log :: ZapConfig

record NatsCfg =
  Nats_Address :: string
  User :: string
  Password :: string
  ReconnectDelay :: int

record 'e ClusterCfg =
  Project :: string
  Etcd :: 'e
  Nodes :: "NodeCfg list"
  Nats :: NatsCfg

fun find_node :: "string \<Rightarrow> NodeCfg list \<Rightarrow> NodeCfg option" where
  "find_node nodeId [] = None"
| "find_node nodeId (node # nodes) =
     (if Cfg_NodeId node = nodeId then Some node else find_node nodeId nodes)"

definition FindNode :: "'e ClusterCfg \<Rightarrow> string \<Rightarrow> NodeCfg option" where
  "FindNode c nodeId = find_node nodeId (Nodes c)"

definition GetListenPorts :: "NodeCfg \<Rightarrow> string \<Rightarrow> int option" where
  "GetListenPorts n = Ports n"

definition GetNodeId :: "NodeCfg \<Rightarrow> string" where
  "GetNodeId n = Cfg_NodeId n"

definition GetNodeType :: "NodeCfg \<Rightarrow> string" where
  "GetNodeType n = Cfg_NodeType n"

definition ParseProfile ::
    "(string \<Rightarrow> bytes result) \<Rightarrow> (bytes \<Rightarrow> 'e ClusterCfg result) \<Rightarrow> string \<Rightarrow> 'e ClusterCfg result" where
  "ParseProfile ReadFile Unmarshal_json path =
     (case ReadFile path of
        Inl err \<Rightarrow> Inl err
      | Inr fileData \<Rightarrow>
          (case Unmarshal_json fileData of Inl err \<Rightarrow> Inl err | Inr cfg \<Rightarrow> Inr cfg))"

lemma find_node_eq: "find_node k ns = find (\<lambda>n. Cfg_NodeId n = k) ns"
  by (induction ns) auto

lemma FindNode_Some:
  "FindNode c k = Some n \<Longrightarrow> n \<in> set (Nodes c) \<and> GetNodeId n = k"
  by (auto simp: FindNode_def find_node_eq GetNodeId_def find_Some_iff)

lemma FindNode_None: "FindNode c k = None \<longleftrightarrow> k \<notin> Cfg_NodeId ` set (Nodes c)"
  by (auto simp: FindNode_def find_node_eq find_None_iff)

text \<open>The nodes of one profile that can be started are those with the first entry of their id.\<close>

lemma FindNode_first:
  assumes "Nodes c = as @ n # bs" and "Cfg_NodeId n \<notin> Cfg_NodeId ` set as"
  shows "FindNode c (Cfg_NodeId n) = Some n"
proof -
  have "find_node (Cfg_NodeId n) (as @ n # bs) = Some n"
    using assms(2) by (induction as) auto
  then show ?thesis by (simp add: FindNode_def assms(1))
qed

end
