(* ===== verification/Application.thy ===== *)
theory Application
  imports Util Profile
begin

text \<open>
  \<^verbatim>\<open>framework/application.go\<close> and \<^verbatim>\<open>framework/facade/component.go\<close>: an application is a
  list of named components that \<open>Startup\<close> initialises in order and stops in reverse
  order. Components are of any type \<open>'c\<close>, shutdown functions of any type \<open>'f\<close>; what
  their methods do to the application and to the \<open>world\<close> behind it are parameters.
\<close>

section \<open>State\<close>

record ('c, 'f, 'w) app =
  app_node :: NodeCfg
  isFrontend :: bool
  app_running :: "32 word"
  onShutdownFn :: "'f list"
  components :: "'c list"
  app_worker :: "'c option"
  app_discovery :: "'c option"
  app_cluster :: "'c option"
  netParser :: "'c option"
  world :: 'w

text \<open>
  The methods of \<open>IComponent\<close>, the \<open>Start\<close> and \<open>Stop\<close> of the worker that the
  application embeds, the \<open>Connectors\<close> of its parser, and calling a shutdown function.
\<close>

record ('c, 'f, 'w) app_env =
  comp_name :: "'c \<Rightarrow> string"
  comp_Set :: "'c \<Rightarrow> (('c, 'f, 'w) app, unit) proc"
  comp_Init :: "'c \<Rightarrow> (('c, 'f, 'w) app, unit) proc"
  comp_OnAfterInit :: "'c \<Rightarrow> (('c, 'f, 'w) app, unit) proc"
  comp_OnBeforeStop :: "'c \<Rightarrow> (('c, 'f, 'w) app, unit) proc"
  comp_OnStop :: "'c \<Rightarrow> (('c, 'f, 'w) app, unit) proc"
  worker_Start :: "'c \<Rightarrow> (('c, 'f, 'w) app, unit) proc"
  worker_Stop :: "'c \<Rightarrow> (('c, 'f, 'w) app, unit) proc"
  comp_Connectors :: "'c \<Rightarrow> ('c, 'f, 'w) app \<Rightarrow> 'c option list"
  run_fn :: "'f \<Rightarrow> (('c, 'f, 'w) app, unit) proc"

text \<open>
  The methods of the embedded \<open>facade.Component\<close>, which a component that does not
  define its own gets: all but \<open>Set\<close> and \<open>App\<close> do nothing.
\<close>

record 'a base_component =
  base_app :: "'a option"

definition base_Name :: "'a base_component \<Rightarrow> string" where
  "base_Name c = []"

definition base_App :: "'a base_component \<Rightarrow> 'a option" where
  "base_App c = base_app c"

definition base_Set :: "'a \<Rightarrow> 'a base_component \<Rightarrow> 'a base_component" where
  "base_Set a c = c\<lparr>base_app := Some a\<rparr>"

definition base_Init :: "('s, unit) proc" where "base_Init s = (s, Ret ())"
definition base_OnAfterInit :: "('s, unit) proc" where "base_OnAfterInit s = (s, Ret ())"
definition base_OnBeforeStop :: "('s, unit) proc" where "base_OnBeforeStop s = (s, Ret ())"
definition base_OnStop :: "('s, unit) proc" where "base_OnStop s = (s, Ret ())"

section \<open>The component list\<close>

definition IsFrontend :: "('c, 'f, 'w) app \<Rightarrow> bool" where
  "IsFrontend a = isFrontend a"

definition Running :: "('c, 'f, 'w) app \<Rightarrow> bool" where
  "Running a \<longleftrightarrow> 0 < sint (app_running a)"

fun find_component :: "('c \<Rightarrow> string) \<Rightarrow> string \<Rightarrow> 'c list \<Rightarrow> 'c option" where
  "find_component nm name [] = None"
| "find_component nm name (c # cs) = (if nm c = name then Some c else find_component nm name cs)"

definition Find :: "('c, 'f, 'w) app_env \<Rightarrow> string \<Rightarrow> ('c, 'f, 'w) app \<Rightarrow> 'c option" where
  "Find E name a = (if name = [] then None else find_component (comp_name E) name (components a))"

text \<open>The loop of \<open>Register\<close>; \<open>None\<close> is a nil component. A bad one ends the loop.\<close>

fun register_from ::
    "('c, 'f, 'w) app_env \<Rightarrow> 'c option list \<Rightarrow> ('c, 'f, 'w) app \<Rightarrow> ('c, 'f, 'w) app" where
  "register_from E [] a = a"
| "register_from E (None # cs) a = a"
| "register_from E (Some c # cs) a =
     (if comp_name E c = [] then a
      else case Find E (comp_name E c) a of
             Some _ \<Rightarrow> a
           | None \<Rightarrow> register_from E cs (a\<lparr>components := components a @ [c]\<rparr>))"

definition Register ::
    "('c, 'f, 'w) app_env \<Rightarrow> 'c option list \<Rightarrow> ('c, 'f, 'w) app \<Rightarrow> ('c, 'f, 'w) app" where
  "Register E cs a = (if Running a then a else register_from E cs a)"

text \<open>
  \<open>Remove\<close> cuts every component of that name out of the list and returns the last one.
\<close>

fun remove_loop :: "('c \<Rightarrow> string) \<Rightarrow> string \<Rightarrow> 'c option \<Rightarrow> 'c list \<Rightarrow> 'c option \<times> 'c list" where
  "remove_loop nm name r [] = (r, [])"
| "remove_loop nm name r (c # cs) =
     (if nm c = name then remove_loop nm name (Some c) cs
      else case remove_loop nm name r cs of (r', cs') \<Rightarrow> (r', c # cs'))"

definition Remove ::
    "('c, 'f, 'w) app_env \<Rightarrow> string \<Rightarrow> ('c, 'f, 'w) app \<Rightarrow> ('c, 'f, 'w) app \<times> 'c option" where
  "Remove E name a =
     (if name = [] then (a, None)
      else case remove_loop (comp_name E) name None (components a) of
             (r, cs) \<Rightarrow> (a\<lparr>components := cs\<rparr>, r))"

definition All :: "('c, 'f, 'w) app \<Rightarrow> 'c list" where
  "All a = components a"

definition OnShutdown :: "'f list \<Rightarrow> ('c, 'f, 'w) app \<Rightarrow> ('c, 'f, 'w) app" where
  "OnShutdown fns a = a\<lparr>onShutdownFn := onShutdownFn a @ fns\<rparr>"

definition SetDiscovery :: "'c \<Rightarrow> ('c, 'f, 'w) app \<Rightarrow> ('c, 'f, 'w) app" where
  "SetDiscovery c a = a\<lparr>app_discovery := Some c\<rparr>"

definition SetCluster :: "'c \<Rightarrow> ('c, 'f, 'w) app \<Rightarrow> ('c, 'f, 'w) app" where
  "SetCluster c a = a\<lparr>app_cluster := Some c\<rparr>"

definition SetNetParser :: "'c \<Rightarrow> ('c, 'f, 'w) app \<Rightarrow> ('c, 'f, 'w) app" where
  "SetNetParser c a = a\<lparr>netParser := Some c\<rparr>"

section \<open>Startup\<close>

text \<open>
  A loop over a slice that calls a method of each element. Go takes the slice when the
  loop begins, so a method that registers a component does not lengthen the loop it runs in.
\<close>

fun for_each :: "('c \<Rightarrow> ('s, unit) proc) \<Rightarrow> 'c list \<Rightarrow> ('s, unit) proc" where
  "for_each f [] s = (s, Ret ())"
| "for_each f (c # cs) s = seq_proc (f c) (\<lambda>_. for_each f cs) s"

definition nil_text :: string where
  "nil_text = ''runtime error: invalid memory address or nil pointer dereference''"

definition start_worker :: "('c, 'f, 'w) app_env \<Rightarrow> (('c, 'f, 'w) app, unit) proc" where
  "start_worker E a = (case app_worker a of None \<Rightarrow> (a, Panic nil_text) | Some w \<Rightarrow> worker_Start E w a)"

definition register_connectors ::
    "('c, 'f, 'w) app_env \<Rightarrow> ('c, 'f, 'w) app \<Rightarrow> ('c, 'f, 'w) app" where
  "register_connectors E a =
     (case netParser a of
        None \<Rightarrow> a
      | Some p \<Rightarrow> fold (\<lambda>c. Register E [c]) (comp_Connectors E p a) a)"

text \<open>
  \<open>Startup\<close> up to its select: false when it returned because the application runs
  already, true when it now waits for a signal or for \<open>Shutdown\<close>.
\<close>

definition Startup_begin :: "('c, 'f, 'w) app_env \<Rightarrow> (('c, 'f, 'w) app, bool) proc" where
  "Startup_begin E a =
     (if Running a then (a, Ret False)
      else seq_proc (\<lambda>a. for_each (comp_Set E) (components a) a)
       (\<lambda>_. seq_proc (\<lambda>a. for_each (comp_Init E) (components a) a)
       (\<lambda>_. seq_proc (\<lambda>a. for_each (comp_OnAfterInit E) (components a) a)
       (\<lambda>_. seq_proc (start_worker E)
       (\<lambda>_ a. (a\<lparr>app_running := app_running a + 1\<rparr>, Ret True)))))
       (register_connectors E a))"

section \<open>The end of Startup\<close>

definition index_text :: string where
  "index_text = ''runtime error: index out of range''"

text \<open>
  One component of the two stop loops. The component is read from the list by its index,
  in the function that \<open>Try\<close> runs and again in the one that logs the panic.
\<close>

definition stop_one ::
    "('c \<Rightarrow> (('c, 'f, 'w) app, unit) proc) \<Rightarrow> nat \<Rightarrow> (('c, 'f, 'w) app, bool) proc" where
  "stop_one m i =
     Try (\<lambda>a. if i < length (components a) then m (components a ! i) a else (a, Panic index_text))
         (\<lambda>_ a. if i < length (components a) then (a, Ret ()) else (a, Panic index_text))"

fun stop_loop ::
    "('c \<Rightarrow> (('c, 'f, 'w) app, unit) proc) \<Rightarrow> nat \<Rightarrow> (('c, 'f, 'w) app, unit) proc" where
  "stop_loop m 0 a = (a, Ret ())"
| "stop_loop m (Suc i) a = seq_proc (stop_one m i) (\<lambda>_. stop_loop m i) a"

definition stop_all ::
    "('c \<Rightarrow> (('c, 'f, 'w) app, unit) proc) \<Rightarrow> (('c, 'f, 'w) app, unit) proc" where
  "stop_all m a = stop_loop m (length (components a)) a"

definition try_fn :: "('c, 'f, 'w) app_env \<Rightarrow> 'f \<Rightarrow> (('c, 'f, 'w) app, unit) proc" where
  "try_fn E f = seq_proc (Try (run_fn E f) (\<lambda>_ a. (a, Ret ()))) (\<lambda>_ a. (a, Ret ()))"

definition Startup_end :: "('c, 'f, 'w) app_env \<Rightarrow> (('c, 'f, 'w) app, unit) proc" where
  "Startup_end E a =
     seq_proc (\<lambda>a. for_each (try_fn E) (onShutdownFn a) a)
      (\<lambda>_. seq_proc (stop_all (comp_OnBeforeStop E))
      (\<lambda>_. stop_all (comp_OnStop E)))
      (a\<lparr>app_running := 0\<rparr>)"

text \<open>\<open>Shutdown\<close> up to its send on \<open>dieChan\<close>.\<close>

definition Shutdown_stop :: "('c, 'f, 'w) app_env \<Rightarrow> (('c, 'f, 'w) app, unit) proc" where
  "Shutdown_stop E a = (case app_worker a of None \<Rightarrow> (a, Panic nil_text) | Some w \<Rightarrow> worker_Stop E w a)"

section \<open>The end of Startup, as one fold\<close>

text \<open>What a method leaves of the state, its panic set aside.\<close>

definition effect :: "('c \<Rightarrow> ('s, 'a) proc) \<Rightarrow> 'c \<Rightarrow> 's \<Rightarrow> 's" where
  "effect m c s = fst (m c s)"

text \<open>
  Methods that leave the list of components alone and do not end the process; they may
  panic.
\<close>

definition calm :: "('x \<Rightarrow> (('c, 'f, 'w) app, unit) proc) \<Rightarrow> bool" where
  "calm m \<longleftrightarrow> (\<forall>c a. components (fst (m c a)) = components a \<and> (\<forall>t. snd (m c a) \<noteq> Exit t))"

lemma calmD:
  "calm m \<Longrightarrow> components (fst (m c a)) = components a" "calm m \<Longrightarrow> snd (m c a) \<noteq> Exit t"
  by (simp_all add: calm_def)

lemma effect_components: "calm m \<Longrightarrow> components (effect m c a) = components a"
  by (simp add: effect_def calmD)

lemma fold_components: "calm m \<Longrightarrow> components (fold (effect m) cs a) = components a"
  by (induction cs arbitrary: a) (simp_all add: effect_components)

lemma seq_proc_Ret: "p s = (s', Ret x) \<Longrightarrow> seq_proc p k s = k x s'"
  by simp

lemma try_fn_calm:
  assumes "calm (run_fn E)"
  shows "try_fn E f a = (effect (run_fn E) f a, Ret ())"
proof (cases "run_fn E f a")
  case (Pair a' r)
  then show ?thesis using calmD(2) [OF assms, of f a]
    by (cases r) (auto simp: try_fn_def effect_def Try_def panicked_def)
qed

lemma for_each_Ret:
  assumes "\<And>c s. f c s = (effect g c s, Ret ())"
  shows "for_each f cs s = (fold (effect g) cs s, Ret ())"
  by (induction cs arbitrary: s) (simp_all add: assms)

lemma stop_one_calm:
  assumes "calm m" and "i < length (components a)"
  shows "\<exists>b. stop_one m i a = (effect m (components a ! i) a, Ret b)"
proof (cases "m (components a ! i) a")
  case (Pair a' r)
  then show ?thesis using calmD(2) [OF assms(1), of "components a ! i" a]
    calmD(1) [OF assms(1), of "components a ! i" a] assms(2)
    by (cases r) (auto simp: stop_one_def effect_def Try_def panicked_def)
qed

lemma stop_loop_calm:
  assumes "calm m"
  shows "n \<le> length (components a) \<Longrightarrow>
    stop_loop m n a = (fold (effect m) (rev (take n (components a))) a, Ret ())"
proof (induction n arbitrary: a)
  case (Suc i)
  let ?a = "effect m (components a ! i) a"
  obtain b where "stop_one m i a = (?a, Ret b)" using stop_one_calm [OF assms, of i a] Suc.prems by auto
  moreover have "components ?a = components a" by (rule effect_components [OF assms])
  ultimately show ?case using Suc.IH [of ?a] Suc.prems by (simp add: take_Suc_conv_app_nth)
qed simp

lemma stop_all_calm:
  "calm m \<Longrightarrow> stop_all m a = (fold (effect m) (rev (components a)) a, Ret ())"
  by (simp add: stop_all_def stop_loop_calm)

lemma Startup_end_calm:
  assumes "calm (run_fn E)" "calm (comp_OnBeforeStop E)" "calm (comp_OnStop E)"
  shows "Startup_end E a =
    (fold (effect (comp_OnStop E)) (rev (components a))
      (fold (effect (comp_OnBeforeStop E)) (rev (components a))
        (fold (effect (run_fn E)) (onShutdownFn a) (a\<lparr>app_running := 0\<rparr>))), Ret ())"
proof -
  let ?a1 = "fold (effect (run_fn E)) (onShutdownFn a) (a\<lparr>app_running := 0\<rparr>)"
  have "for_each (try_fn E) (onShutdownFn a) (a\<lparr>app_running := 0\<rparr>) = (?a1, Ret ())"
    by (rule for_each_Ret) (rule try_fn_calm [OF assms(1)])
  moreover have "components ?a1 = components a" using fold_components [OF assms(1)] by simp
  ultimately show ?thesis
    by (simp add: Startup_end_def stop_all_calm assms(2,3) fold_components)
qed

text \<open>
  C10: Nothing gets in the way of a shutdown. When it runs, every shutdown function is
  called in the order of registration, then \<open>OnBeforeStop\<close> and then \<open>OnStop\<close> of every
  component, each in reverse order, whichever of these calls panic; \<open>Startup\<close> returns.
\<close>

theorem shutdown_reaches_every_component:
  assumes "calm (run_fn E)" "calm (comp_OnBeforeStop E)" "calm (comp_OnStop E)"
  shows "Startup_end E a =
    (fold (effect (comp_OnStop E)) (rev (components a))
      (fold (effect (comp_OnBeforeStop E)) (rev (components a))
        (fold (effect (run_fn E)) (onShutdownFn a) (a\<lparr>app_running := 0\<rparr>))), Ret ())"
  by (rule Startup_end_calm [OF assms])

section \<open>The component list as an interface\<close>

text \<open>
  What the components rely on when they look each other up: a component is found under its
  name from its registration to its removal, and registering others does not hide it.
\<close>

locale component_directory =
  fixes nm :: "'c \<Rightarrow> string"
    and wf :: "'s \<Rightarrow> bool"
    and find_it :: "string \<Rightarrow> 's \<Rightarrow> 'c option"
    and add :: "'c \<Rightarrow> 's \<Rightarrow> 's"
    and remove :: "string \<Rightarrow> 's \<Rightarrow> 's"
  assumes wf_add: "wf s \<Longrightarrow> wf (add c s)"
    and wf_remove: "wf s \<Longrightarrow> wf (remove k s)"
    and find_name: "wf s \<Longrightarrow> find_it k s = Some c \<Longrightarrow> nm c = k \<and> k \<noteq> []"
    and find_add: "wf s \<Longrightarrow> find_it k (add c s) =
      (if find_it k s = None \<and> nm c = k \<and> k \<noteq> [] then Some c else find_it k s)"
    and find_remove: "wf s \<Longrightarrow> find_it j (remove k s) = (if j = k then None else find_it j s)"
begin

lemma wf_fold: "wf s \<Longrightarrow> wf (fold add cs s)"
  by (induction cs arbitrary: s) (auto intro: wf_add)

lemma find_fold:
  "wf s \<Longrightarrow> find_it k (fold add cs s) =
     (case find_it k s of
        Some c \<Rightarrow> Some c
      | None \<Rightarrow> if k = [] then None else find (\<lambda>c. nm c = k) cs)"
proof (induction cs arbitrary: s)
  case (Cons c cs)
  then show ?case by (auto simp: wf_add find_add split: option.splits)
qed (simp split: option.split)

text \<open>Components with different names are found whatever the order they were added in.\<close>

lemma order_irrelevant:
  assumes "wf s" and "distinct (map nm cs)" and "set cs = set cs'" and "distinct (map nm cs')"
  shows "find_it k (fold add cs s) = find_it k (fold add cs' s)"
proof -
  have "find (\<lambda>c. nm c = k) cs = find (\<lambda>c. nm c = k) cs'" if "k \<noteq> []"
  proof (cases "find (\<lambda>c. nm c = k) cs")
    case None
    then have "\<not> (\<exists>c. c \<in> set cs' \<and> nm c = k)" using assms(3) by (simp add: find_None_iff)
    then have "find (\<lambda>c. nm c = k) cs' = None" by (simp only: find_None_iff) blast
    then show ?thesis using None by simp
  next
    case (Some c)
    then have "c \<in> set cs" "nm c = k" by (auto simp: find_Some_iff)
    then have c: "c \<in> set cs'" "nm c = k" using assms(3) by auto
    then obtain d where d: "find (\<lambda>c. nm c = k) cs' = Some d"
      by (cases "find (\<lambda>c. nm c = k) cs'") (auto simp: find_None_iff)
    then have "d \<in> set cs'" "nm d = k" by (auto simp: find_Some_iff)
    then have "d = c" using c assms(4) by (simp add: distinct_map inj_on_def)
    then show ?thesis using Some d by simp
  qed
  then show ?thesis by (simp add: find_fold [OF assms(1)] split: option.split)
qed

lemma still_found: "wf s \<Longrightarrow> find_it k s = Some c \<Longrightarrow> find_it k (fold add cs s) = Some c"
  by (simp add: find_fold)

end

text \<open>The components have different names, none empty, and the application is not running.\<close>

definition comps_wf :: "('c, 'f, 'w) app_env \<Rightarrow> ('c, 'f, 'w) app \<Rightarrow> bool" where
  "comps_wf E a \<longleftrightarrow> distinct (map (comp_name E) (components a)) \<and>
     [] \<notin> comp_name E ` set (components a)"

definition comps_open :: "('c, 'f, 'w) app_env \<Rightarrow> ('c, 'f, 'w) app \<Rightarrow> bool" where
  "comps_open E a \<longleftrightarrow> comps_wf E a \<and> \<not> Running a"

lemma find_append:
  "find P (xs @ ys) = (case find P xs of Some x \<Rightarrow> Some x | None \<Rightarrow> find P ys)"
  by (induction xs) auto

lemma find_filter: "find P (filter Q xs) = find (\<lambda>x. Q x \<and> P x) xs"
  by (induction xs) auto

lemma find_component_eq: "find_component nm k cs = find (\<lambda>c. nm c = k) cs"
  by (induction cs) auto

lemma remove_loop_snd: "snd (remove_loop nm k r cs) = filter (\<lambda>c. nm c \<noteq> k) cs"
  by (induction nm k r cs rule: remove_loop.induct) (auto split: prod.split)

lemma remove_loop_fst:
  "fst (remove_loop nm k r cs) =
     (case filter (\<lambda>c. nm c = k) cs of [] \<Rightarrow> r | xs \<Rightarrow> Some (last xs))"
  by (induction nm k r cs rule: remove_loop.induct) (auto split: prod.split list.split)

lemma Remove_fst:
  "fst (Remove E k a) =
     (if k = [] then a else a\<lparr>components := filter (\<lambda>c. comp_name E c \<noteq> k) (components a)\<rparr>)"
  using remove_loop_snd [of "comp_name E" k None "components a"]
  by (auto simp: Remove_def split: prod.split)

lemma Running_components [simp]: "Running (a\<lparr>components := cs\<rparr>) = Running a"
  by (simp add: Running_def)

lemma Find_None: "k \<noteq> [] \<Longrightarrow> Find E k a = None \<longleftrightarrow> k \<notin> comp_name E ` set (components a)"
  by (auto simp: Find_def find_component_eq find_None_iff)

lemma Find_Some:
  assumes "comps_wf E a"
  shows "Find E k a = Some c \<longleftrightarrow> k \<noteq> [] \<and> c \<in> set (components a) \<and> comp_name E c = k"
proof
  assume "Find E k a = Some c"
  then show "k \<noteq> [] \<and> c \<in> set (components a) \<and> comp_name E c = k"
    by (auto simp: Find_def find_component_eq find_Some_iff split: if_splits)
next
  assume r: "k \<noteq> [] \<and> c \<in> set (components a) \<and> comp_name E c = k"
  then obtain d where d: "Find E k a = Some d" using Find_None [of k E a] by (cases "Find E k a") auto
  then have "d \<in> set (components a)" "comp_name E d = k"
    by (auto simp: Find_def find_component_eq find_Some_iff split: if_splits)
  then have "d = c" using r assms by (simp add: comps_wf_def distinct_map inj_on_def)
  then show "Find E k a = Some c" using d by simp
qed

lemma comps_wf_register_from: "comps_wf E a \<Longrightarrow> comps_wf E (register_from E cs a)"
proof (induction E cs a rule: register_from.induct)
  case (3 E c cs a)
  have "comps_wf E (a\<lparr>components := components a @ [c]\<rparr>)"
    if "comp_name E c \<noteq> []" "Find E (comp_name E c) a = None"
    using 3(2) that by (auto simp: comps_wf_def Find_None)
  then show ?case using 3 by (auto split: option.split)
qed auto

lemma comps_keeps [inv_intros]:
  "comps_wf E a \<Longrightarrow> comps_wf E (Register E cs a)"
  "comps_wf E a \<Longrightarrow> comps_wf E (fst (Remove E k a))"
  by (auto simp: Register_def comps_wf_register_from Remove_fst) 
    (auto simp: comps_wf_def distinct_map_filter)

lemma Running_register_from [simp]: "Running (register_from E cs a) = Running a"
  by (induction E cs a rule: register_from.induct) (auto split: option.split)

lemma Running_Register [simp]: "Running (Register E cs a) = Running a"
  by (simp add: Register_def)

lemma Running_Remove [simp]: "Running (fst (Remove E k a)) = Running a"
  by (simp add: Remove_fst)

interpretation dir: component_directory "comp_name E" "comps_open E" "Find E"
    "\<lambda>c. Register E [Some c]" "\<lambda>k a. fst (Remove E k a)" for E :: "('c, 'f, 'w) app_env"
proof unfold_locales
  fix s :: "('c, 'f, 'w) app" and c k j
  assume s: "comps_open E s"
  show "comps_open E (Register E [Some c] s)" using s by (simp add: comps_open_def comps_keeps)
  show "comps_open E (fst (Remove E k s))" using s by (simp add: comps_open_def comps_keeps)
  show "Find E k s = Some c \<Longrightarrow> comp_name E c = k \<and> k \<noteq> []"
    using s by (simp add: comps_open_def Find_Some)
  have r: "\<not> Running s" using s by (simp add: comps_open_def)
  show "Find E k (Register E [Some c] s) =
      (if Find E k s = None \<and> comp_name E c = k \<and> k \<noteq> [] then Some c else Find E k s)"
    using r by (auto simp: Register_def Find_def find_component_eq find_append split: option.splits)
  show "Find E j (fst (Remove E k s)) = (if j = k then None else Find E j s)"
  proof (cases "k = []")
    case False
    have "find (\<lambda>c. comp_name E c \<noteq> k \<and> comp_name E c = j) (components s) =
        (if j = k then None else find (\<lambda>c. comp_name E c = j) (components s))"
      by (cases "j = k") (auto simp: find_None_iff
          intro: arg_cong [where f = "\<lambda>P. find P (components s)"])
    then show ?thesis using False
      by (cases "j = k") (simp_all add: Remove_fst Find_def find_component_eq find_filter find_None_iff)
  qed (use s in \<open>simp add: Remove_fst Find_def\<close>)
qed

section \<open>Properties of the component list\<close>

datatype 'c comp_op = Registered "'c option list" | Removed string

fun comp_op_step ::
    "('c, 'f, 'w) app_env \<Rightarrow> 'c comp_op \<Rightarrow> ('c, 'f, 'w) app \<Rightarrow> ('c, 'f, 'w) app" where
  "comp_op_step E (Registered cs) a = Register E cs a"
| "comp_op_step E (Removed k) a = fst (Remove E k a)"

lemma comps_wf_fold: "comps_wf E a \<Longrightarrow> comps_wf E (fold (comp_op_step E) xs a)"
proof (induction xs arbitrary: a)
  case (Cons x xs)
  then show ?case by (cases x) (simp_all add: comps_keeps)
qed simp

text \<open>
  C14: In every history of registrations and removals, with nil components, empty and
  repeated names among them, the components of an application that had none have different,
  non-empty names, and looking a name up finds a component exactly when it is in the list
  under that name.
\<close>

theorem components_are_found_by_name:
  fixes E :: "('c, 'f, 'w) app_env"
  assumes "components a = []" and "b = fold (comp_op_step E) xs a"
  shows "distinct (map (comp_name E) (components b)) \<and>
    (Find E k b = Some c \<longleftrightarrow> k \<noteq> [] \<and> c \<in> set (components b) \<and> comp_name E c = k)"
proof -
  have "comps_wf E b" unfolding assms(2)
    by (rule comps_wf_fold) (simp add: comps_wf_def assms(1))
  then show ?thesis using Find_Some [of E b k c] by (simp add: comps_wf_def)
qed

text \<open>
  Different components are found whatever the order they are registered in, so the
  look-ups that a component makes in its \<open>Init\<close> do not depend on that order; and a later
  registration never hides a component.
\<close>

theorem registration_order_irrelevant:
  fixes E :: "('c, 'f, 'w) app_env"
  assumes "comps_wf E a" "\<not> Running a"
    and "distinct (map (comp_name E) cs)" "set cs = set cs'" "distinct (map (comp_name E) cs')"
  shows "Find E k (fold (\<lambda>c. Register E [Some c]) cs a) = Find E k (fold (\<lambda>c. Register E [Some c]) cs' a) \<and>
    (Find E k a = Some c \<longrightarrow> Find E k (fold (\<lambda>c. Register E [Some c]) cs a) = Some c)"
proof -
  have "comps_open E a" using assms(1,2) by (simp add: comps_open_def)
  then show ?thesis using dir.order_irrelevant [OF _ assms(3-5)] dir.still_found by metis
qed

text \<open>
  One refused component costs all behind it. \<open>Register\<close> of several components takes the
  longest prefix that it can and returns at the first nil, nameless or doubly named one.
\<close>

lemma Register_prefix:
  "\<not> Running a \<Longrightarrow> \<exists>n \<le> length cs.
     components (Register E cs a) = components a @ map the (take n cs) \<and>
     (n < length cs \<longrightarrow> cs ! n = None \<or>
        (\<exists>c. cs ! n = Some c \<and> (comp_name E c = [] \<or> Find E (comp_name E c) (Register E cs a) \<noteq> None)))"
proof -
  have "\<exists>n \<le> length cs.
     components (register_from E cs a) = components a @ map the (take n cs) \<and>
     (n < length cs \<longrightarrow> cs ! n = None \<or>
        (\<exists>c. cs ! n = Some c \<and> (comp_name E c = [] \<or> Find E (comp_name E c) (register_from E cs a) \<noteq> None)))"
  proof (induction E cs a rule: register_from.induct)
    case (3 E c cs a)
    show ?case
    proof (cases "comp_name E c = [] \<or> Find E (comp_name E c) a \<noteq> None")
      case True
      then show ?thesis by (intro exI [of _ 0]) (auto split: option.split)
    next
      case False
      then obtain n where "n \<le> length cs"
        "components (register_from E cs (a\<lparr>components := components a @ [c]\<rparr>)) =
          (components a @ [c]) @ map the (take n cs)"
        "n < length cs \<longrightarrow> cs ! n = None \<or> (\<exists>d. cs ! n = Some d \<and> (comp_name E d = [] \<or>
          Find E (comp_name E d) (register_from E cs (a\<lparr>components := components a @ [c]\<rparr>)) \<noteq> None))"
        using 3 by auto
      then show ?thesis using False by (intro exI [of _ "Suc n"]) auto
    qed
  qed auto
  then show "\<not> Running a \<Longrightarrow> ?thesis" by (simp add: Register_def)
qed

section \<open>Properties of Startup\<close>

text \<open>Methods that leave the flag alone: only \<open>Startup\<close> itself changes it.\<close>

definition keeps_running :: "('x \<Rightarrow> (('c, 'f, 'w) app, 'a) proc) \<Rightarrow> bool" where
  "keeps_running m \<longleftrightarrow> (\<forall>c a. app_running (fst (m c a)) = app_running a)"

lemma for_each_running:
  assumes "keeps_running m"
  shows "app_running (fst (for_each m cs a)) = app_running a"
proof (induction cs arbitrary: a)
  case (Cons c cs)
  have "app_running (fst (m c a)) = app_running a" using assms by (simp add: keeps_running_def)
  then show ?case using Cons by (cases "m c a") (auto split: outcome.split)
qed simp

lemma app_running_register_from [simp]: "app_running (register_from E cs a) = app_running a"
  by (induction E cs a rule: register_from.induct) (auto split: option.split)

lemma app_running_connectors [simp]: "app_running (register_connectors E a) = app_running a"
proof -
  have "app_running (fold (\<lambda>c. Register E [c]) cs b) = app_running b" for cs b
    by (induction cs arbitrary: b) (simp_all add: Register_def)
  then show ?thesis by (simp add: register_connectors_def split: option.split)
qed

lemma seq_proc_running:
  assumes "app_running (fst (p a)) = 0" and "\<And>b m. app_running b = 0 \<Longrightarrow> Q (b, Panic m) \<and> Q (b, Exit m)"
    and "\<And>x b. app_running b = 0 \<Longrightarrow> Q (k x b)"
  shows "Q (seq_proc p k a)"
  using assms by (cases "p a") (auto split: outcome.split)

text \<open>
  C13: The application counts as running exactly from the moment its \<open>Startup\<close> reaches
  the select. If any method of a component or the worker panics before, the flag is still
  unset, so no node sends anything before all of its components are initialised. A second
  \<open>Startup\<close> while it runs returns at once and changes nothing.
\<close>

theorem running_iff_started:
  fixes E :: "('c, 'f, 'w) app_env"
  assumes "app_running a = 0"
    and "keeps_running (comp_Set E)" "keeps_running (comp_Init E)" "keeps_running (comp_OnAfterInit E)"
    and "keeps_running (worker_Start E)"
  shows "(Running (fst (Startup_begin E a)) \<longleftrightarrow> snd (Startup_begin E a) = Ret True) \<and>
    (Running b \<longrightarrow> Startup_begin E b = (b, Ret False))"
proof -
  define Q :: "('c, 'f, 'w) app \<times> bool outcome \<Rightarrow> bool"
    where "Q = (\<lambda>(b, r). (Running b \<longleftrightarrow> r = Ret True))"
  have panics: "Q (b, Panic m) \<and> Q (b, Exit m)" if "app_running b = 0" for b m
    using that by (simp add: Q_def Running_def)
  have loop: "app_running (fst (for_each m cs b)) = 0"
    if "keeps_running m" "app_running b = 0" for m cs and b :: "('c, 'f, 'w) app"
    using that by (simp add: for_each_running)
  have worker: "app_running (fst (start_worker E b)) = 0" if "app_running b = 0" for b
    using assms(5) that by (simp add: start_worker_def keeps_running_def split: option.split)
  have last: "Q (b\<lparr>app_running := app_running b + 1\<rparr>, Ret True)" if "app_running b = 0" for b
    using that by (simp add: Q_def Running_def)
  note seq = seq_proc_running [where Q = Q, OF _ panics]
  have "Q (Startup_begin E a)" unfolding Startup_begin_def
    using assms(1) by (simp add: Running_def del: seq_proc.simps)
      (intro seq loop worker last assms(2-4); simp add: assms(1))
  then show ?thesis by (auto simp: Q_def Startup_begin_def split: prod.splits)
qed

section \<open>The end of the application\<close>

text \<open>
  \<open>Shutdown\<close> first stops the application's worker (\<open>Shutdown_stop\<close>, one step here: what \<open>Stop\<close>
  does inside is in Worker) and then sends on \<open>dieChan\<close>. \<open>dieChan\<close> has no buffer: a caller at
  its send meets a receiver or waits. There are two receivers, the select of \<open>Startup\<close>, which
  also takes signals and then resets the running flag, and the goroutine that keeps the node's
  etcd lease alive (\<open>getLeaseId\<close> of \<^verbatim>\<open>discovery_etcd.go\<close>), which ends when it receives.
  \<open>returned\<close> records how many calls of \<open>Shutdown\<close> came back. The rest of the process may do
  anything to the application meanwhile but set or reset that flag (\<open>Other\<close>).
\<close>

datatype main_pc = MainSelect | MainStopping

record ('c, 'f, 'w) dying =
  dapp :: "('c, 'f, 'w) app"
  main_pc :: main_pc
  keepalive :: bool
  sending :: nat
  returned :: nat
  signalled :: bool

text \<open>The application as \<open>Startup\<close> has left it at its select.\<close>

definition dying0 :: "('c, 'f, 'w) app \<Rightarrow> ('c, 'f, 'w) dying" where
  "dying0 a = \<lparr>dapp = a, main_pc = MainSelect, keepalive = True, sending = 0, returned = 0, signalled = False\<rparr>"

inductive die_step :: "('c, 'f, 'w) app_env \<Rightarrow> ('c, 'f, 'w) dying \<Rightarrow> ('c, 'f, 'w) dying \<Rightarrow> bool" for E where
  Call: "Shutdown_stop E (dapp d) = (a, Ret ()) \<Longrightarrow>
    die_step E d (d\<lparr>dapp := a, sending := Suc (sending d)\<rparr>)"
| Signal: "main_pc d = MainSelect \<Longrightarrow>
    die_step E d (d\<lparr>dapp := (dapp d)\<lparr>app_running := 0\<rparr>, main_pc := MainStopping, signalled := True\<rparr>)"
| To_main: "\<lbrakk>main_pc d = MainSelect; sending d = Suc n\<rbrakk> \<Longrightarrow>
    die_step E d (d\<lparr>dapp := (dapp d)\<lparr>app_running := 0\<rparr>, main_pc := MainStopping, sending := n,
      returned := Suc (returned d)\<rparr>)"
| To_keepalive: "\<lbrakk>keepalive d; sending d = Suc n\<rbrakk> \<Longrightarrow>
    die_step E d (d\<lparr>keepalive := False, sending := n, returned := Suc (returned d)\<rparr>)"
| Other: "app_running a = app_running (dapp d) \<Longrightarrow> die_step E d (d\<lparr>dapp := a\<rparr>)"

inductive_cases die_stepE: "die_step E d d'"

definition die_reach :: "('c, 'f, 'w) app_env \<Rightarrow> ('c, 'f, 'w) app \<Rightarrow> ('c, 'f, 'w) dying \<Rightarrow> bool" where
  "die_reach E a d \<longleftrightarrow> (die_step E)\<^sup>*\<^sup>* (dying0 a) d"

definition die_inv :: "('c, 'f, 'w) dying \<Rightarrow> bool" where
  "die_inv d \<longleftrightarrow>
     returned d = (if keepalive d then 0 else 1) +
       (if main_pc d = MainStopping \<and> \<not> signalled d then 1 else 0) \<and>
     (signalled d \<longrightarrow> main_pc d = MainStopping)"

lemma die_inv_step: "die_step E d d' \<Longrightarrow> die_inv d \<Longrightarrow> die_inv d'"
  by (cases rule: die_step.cases) (auto simp: die_inv_def split: if_splits)

lemma die_inv_reach:
  assumes "die_reach E a d"
  shows "die_inv d"
  using assms unfolding die_reach_def
proof (induction rule: rtranclp_induct)
  case base
  show ?case by (simp add: die_inv_def dying0_def)
qed (rule die_inv_step)

lemma die_reach_step: "die_reach E a d \<Longrightarrow> die_step E d d' \<Longrightarrow> die_reach E a d'"
  by (auto simp: die_reach_def intro: rtranclp.rtrancl_into_rtrancl)

text \<open>At most two calls come back, the second only when \<open>Startup\<close> has left its select.\<close>

lemma returned_le: "die_reach E a d \<Longrightarrow> returned d \<le> (if main_pc d = MainStopping then 2 else 1)"
  using die_inv_reach [of E a d] by (auto simp: die_inv_def split: if_splits)

text \<open>A call whose value the keepalive takes.\<close>

lemma stolen_call:
  assumes "Shutdown_stop E a = (b, Ret ())"
  shows "die_reach E a (\<lparr>dapp = b, main_pc = MainSelect, keepalive = False, sending = 0, returned = 1, signalled = False\<rparr>)"
proof -
  let ?d1 = "(dying0 a)\<lparr>dapp := b, sending := Suc (sending (dying0 a))\<rparr>"
  have "die_reach E a (dying0 a)" by (simp add: die_reach_def)
  moreover have "die_step E (dying0 a) ?d1" by (rule Call) (simp add: assms dying0_def)
  ultimately have "die_reach E a ?d1" by (rule die_reach_step)
  moreover have "die_step E ?d1 (?d1\<lparr>keepalive := False, sending := 0, returned := Suc (returned ?d1)\<rparr>)"
    by (rule To_keepalive) (simp_all add: dying0_def)
  ultimately have "die_reach E a (?d1\<lparr>keepalive := False, sending := 0, returned := Suc (returned ?d1)\<rparr>)"
    by (rule die_reach_step)
  then show ?thesis by (simp add: dying0_def)
qed

section \<open>A sample application\<close>

text \<open>
  Components are their names; the world is the list of the calls made. \<open>b\<close> panics when
  it is told that the end is near, and the one shutdown function panics too.
\<close>

definition noted :: "string \<Rightarrow> string \<Rightarrow> ((string, unit, string list) app, unit) proc" where
  "noted what c a = (a\<lparr>world := world a @ [what @ c]\<rparr>,
     if what @ c \<in> {''before b'', ''fn''} then Panic ''boom'' else Ret ())"

definition sample_app_env :: "(string, unit, string list) app_env" where
  "sample_app_env = \<lparr>comp_name = (\<lambda>c. c), comp_Set = noted ''set '', comp_Init = noted ''init '',
     comp_OnAfterInit = noted ''after '', comp_OnBeforeStop = noted ''before '',
     comp_OnStop = noted ''stop '', worker_Start = noted ''start '', worker_Stop = noted ''wait '',
     comp_Connectors = (\<lambda>_ _. []), run_fn = (\<lambda>_. noted ''fn'' [])\<rparr>"

definition sample_application :: "string list \<Rightarrow> (string, unit, string list) app" where
  "sample_application cs = \<lparr>app_node = \<lparr>Cfg_NodeId = ''n'', Cfg_NodeType = ''auth'', Ports = Map.empty,
       IsGate = False, Log = sample_config\<rparr>,
     isFrontend = False, app_running = 0, onShutdownFn = [()], components = cs,
     app_worker = Some ''w'', app_discovery = None, app_cluster = None, netParser = None, world = []\<rparr>"

lemma noted_simps [simp]:
  "components (fst (noted x c a)) = components a" "app_running (fst (noted x c a)) = app_running a"
  "snd (noted x c a) \<noteq> Exit t"
  by (simp_all add: noted_def)

lemma noted_calm [simp]: "calm (noted x)" "calm (\<lambda>_. noted x y)" "keeps_running (noted x)"
  by (simp_all add: calm_def keeps_running_def)

theorem shutdown_reaches_every_component_witness:
  "world (fst (Startup_end sample_app_env (sample_application [''a'', ''b'']))) =
     [''fn'', ''before b'', ''before a'', ''stop b'', ''stop a'']"
proof -
  have "calm (run_fn sample_app_env)" "calm (comp_OnBeforeStop sample_app_env)"
    "calm (comp_OnStop sample_app_env)" by (simp_all add: sample_app_env_def)
  note eq = shutdown_reaches_every_component [OF this, of "sample_application [''a'', ''b'']"]
  show ?thesis unfolding eq
    by (simp add: effect_def noted_def sample_app_env_def sample_application_def)
qed

theorem components_are_found_by_name_witness:
  "let b = fold (comp_op_step sample_app_env)
       [Registered [Some ''a'', Some ''b'', Some ''a'', Some ''c''], Removed ''a''] (sample_application [])
   in Find sample_app_env ''b'' b = Some ''b'' \<and> Find sample_app_env ''c'' b = None"
proof -
  let ?b = "fold (comp_op_step sample_app_env)
    [Registered [Some ''a'', Some ''b'', Some ''a'', Some ''c''], Removed ''a''] (sample_application [])"
  have e: "components (sample_application []) = []" by (simp add: sample_application_def)
  have n: "comp_name sample_app_env = (\<lambda>c. c)" by (simp add: sample_app_env_def)
  have b: "components ?b = [''b'']"
    by (simp add: Register_def Running_def Find_def Remove_fst n sample_application_def)
  note found = components_are_found_by_name [OF e refl, where E = sample_app_env, THEN conjunct2]
  have "Find sample_app_env ''b'' ?b = Some ''b''" by (subst found) (simp only: b n, simp)
  moreover have "Find sample_app_env ''c'' ?b \<noteq> Some x" for x by (subst found) (simp only: b n, simp)
  ultimately show ?thesis by (simp only: Let_def) (blast intro: not_Some_eq [THEN iffD1])
qed

theorem registration_order_irrelevant_witness:
  "Find sample_app_env ''a'' (fold (\<lambda>c. Register sample_app_env [Some c]) [''b'', ''a''] (sample_application [''x''])) =
   Find sample_app_env ''a'' (fold (\<lambda>c. Register sample_app_env [Some c]) [''a'', ''b''] (sample_application [''x'']))"
  by (rule conjunct1 [OF registration_order_irrelevant [where c = "''x''"]])
    (auto simp: comps_wf_def Running_def sample_app_env_def sample_application_def)

theorem running_iff_started_witness:
  "Running (fst (Startup_begin sample_app_env (sample_application [''a'', ''b''])))"
proof -
  let ?a = "sample_application [''a'', ''b'']"
  have "app_running ?a = 0" "keeps_running (comp_Set sample_app_env)" "keeps_running (comp_Init sample_app_env)"
    "keeps_running (comp_OnAfterInit sample_app_env)" "keeps_running (worker_Start sample_app_env)"
    by (simp_all add: sample_application_def sample_app_env_def)
  from running_iff_started [OF this]
  have "Running (fst (Startup_begin sample_app_env ?a)) \<longleftrightarrow> snd (Startup_begin sample_app_env ?a) = Ret True"
    by blast
  moreover have "snd (Startup_begin sample_app_env ?a) = Ret True"
    by (simp add: Startup_begin_def Running_def register_connectors_def start_worker_def noted_def
        sample_app_env_def sample_application_def)
  ultimately show ?thesis by simp
qed

end
