(* ===== verification/Agents.thy ===== *)
theory Agents
  imports Registry
begin

text \<open>
  \<^verbatim>\<open>framework/pkg/xagent/agentManager.go\<close>, \<^verbatim>\<open>route.go\<close> and \<^verbatim>\<open>define.go\<close>: the
  directory of a gate's client sessions, the table that says which kind of node a message
  goes to, and the two settings. The exported operations of \<open>Agents\<close> hold the lock for
  their whole access to the maps, so each is one step; agents are pointers, so the sessions
  they share are a store from references to sessions.
\<close>

section \<open>Routes\<close>

record routeMgr =
  route2nodeTyp :: "u32 \<Rightarrow> string option"
  route2Name :: "u32 \<Rightarrow> string option"

definition newRouteMgr :: routeMgr where
  "newRouteMgr = \<lparr>route2nodeTyp = Map.empty, route2Name = Map.empty\<rparr>"

text \<open>
  A missing entry of \<open>route2Name\<close> reads as the empty name. \<open>log.Fatalf\<close> ends the
  process.
\<close>

definition addRoute :: "string \<Rightarrow> string \<Rightarrow> (routeMgr, unit) proc" where
  "addRoute name nodeTyp rm =
     (let route = name_id name;
          set = (rm\<lparr>route2nodeTyp := (route2nodeTyp rm)(route \<mapsto> nodeTyp)\<rparr>, Ret ())
      in case route2nodeTyp rm route of
           Some _ \<Rightarrow>
             if (case route2Name rm route of Some n \<Rightarrow> n | None \<Rightarrow> []) \<noteq> name
             then (rm, Exit ''duplicate route, the same hash value'')
             else set
         | None \<Rightarrow> set)"

definition route_type :: "routeMgr \<Rightarrow> u32 \<Rightarrow> string" where
  "route_type rm route = (case route2nodeTyp rm route of Some t \<Rightarrow> t | None \<Rightarrow> [])"

fun add_routes :: "(string \<times> string) list \<Rightarrow> (routeMgr, unit) proc" where
  "add_routes [] rm = (rm, Ret ())"
| "add_routes ((name, ty) # rs) rm = seq_proc (addRoute name ty) (\<lambda>_. add_routes rs) rm"

lemma addRoute_names: "route2Name (fst (addRoute name ty rm)) = route2Name rm"
  by (simp add: addRoute_def split: option.split)

lemma addRoute_Ret:
  assumes "route2Name rm = Map.empty" and "name \<noteq> []"
  shows "addRoute name ty rm =
    (if route2nodeTyp rm (name_id name) = None
     then (rm\<lparr>route2nodeTyp := (route2nodeTyp rm)(name_id name \<mapsto> ty)\<rparr>, Ret ())
     else (rm, Exit ''duplicate route, the same hash value''))"
  using assms by (auto simp: addRoute_def split: option.split)

lemma add_routes_Ret:
  assumes "route2Name rm = Map.empty" and "\<forall>r \<in> set rs. fst r \<noteq> []"
  shows "snd (add_routes rs rm) = Ret () \<longleftrightarrow>
    distinct (map (name_id \<circ> fst) rs) \<and> (\<forall>r \<in> set rs. route2nodeTyp rm (name_id (fst r)) = None)"
  using assms
proof (induction rs arbitrary: rm)
  case (Cons r rs)
  obtain name ty where r: "r = (name, ty)" by (cases r)
  have "route2Name (rm\<lparr>route2nodeTyp := (route2nodeTyp rm)(name_id name \<mapsto> ty)\<rparr>) = Map.empty"
    using Cons.prems(1) by simp
  from Cons.IH [OF this] Cons.prems show ?case
    by (auto simp: r addRoute_Ret image_iff)
qed simp

section \<open>Settings\<close>

text \<open>Durations are nanoseconds; \<open>t.Seconds() > 1\<close> compares with one second.\<close>

record settings =
  heartbeatTime :: int
  writeBacklog :: int

definition default_settings :: settings where
  "default_settings = \<lparr>heartbeatTime = 60 * 1000000000, writeBacklog = 64\<rparr>"

definition SetHeartbeatTime :: "int \<Rightarrow> settings \<Rightarrow> settings" where
  "SetHeartbeatTime t s = (if t > 1000000000 then s\<lparr>heartbeatTime := t\<rparr> else s)"

definition SetWriteBacklog :: "int \<Rightarrow> settings \<Rightarrow> settings" where
  "SetWriteBacklog backlog s = (if backlog > 0 then s\<lparr>writeBacklog := backlog\<rparr> else s)"

definition settings_ok :: "settings \<Rightarrow> bool" where
  "settings_ok s \<longleftrightarrow> 1000000000 < heartbeatTime s \<and> 0 < writeBacklog s"

lemma settings_ok_keeps [inv_intros]:
  "settings_ok default_settings"
  "settings_ok s \<Longrightarrow> settings_ok (SetHeartbeatTime t s)"
  "settings_ok s \<Longrightarrow> settings_ok (SetWriteBacklog b s)"
  by (simp_all add: settings_ok_def default_settings_def SetHeartbeatTime_def SetWriteBacklog_def)

section \<open>The directory\<close>

text \<open>\<open>aid\<close> is a reference to an agent; \<open>sessions\<close> its session, \<open>managed\<close> whether its
  \<open>agentMgr\<close> is set.\<close>

type_synonym aid = nat

record agents =
  sidAgentMap :: "string \<Rightarrow> aid option"
  uidMap :: "u64 \<Rightarrow> string option"
  sessions :: "aid \<Rightarrow> Session"
  managed :: "aid \<Rightarrow> bool"
  pbRoute :: routeMgr

definition NewAgents :: "(aid \<Rightarrow> Session) \<Rightarrow> agents" where
  "NewAgents ss = \<lparr>sidAgentMap = Map.empty, uidMap = Map.empty, sessions = ss,
     managed = (\<lambda>_. False), pbRoute = newRouteMgr\<rparr>"

definition Agents_Name :: string where "Agents_Name = ''agents_manager''"

definition agent_UID :: "agents \<Rightarrow> aid \<Rightarrow> u64" where
  "agent_UID s a = Uid (sessions s a)"

definition agent_SID :: "agents \<Rightarrow> aid \<Rightarrow> string" where
  "agent_SID s a = Sid (sessions s a)"

definition BindSID :: "aid \<Rightarrow> agents \<Rightarrow> agents" where
  "BindSID a s =
     s\<lparr>sidAgentMap := (sidAgentMap s)(agent_SID s a \<mapsto> a), managed := (managed s)(a := True)\<rparr>"

definition BindUID :: "string \<Rightarrow> u64 \<Rightarrow> agents \<Rightarrow> agents \<times> error option" where
  "BindUID sid uid s =
     (if sid = [] then (s, Some (Errorf ''[sid = %s] less than 1.'' [ArgS sid]))
      else if uid < 1 then (s, Some (Errorf ''[uid = %d] less than 1.'' [ArgD (uint uid)]))
      else case sidAgentMap s sid of
             None \<Rightarrow> (s, Some (Errorf ''[sid = %s] does not exist.'' [ArgS sid]))
           | Some a \<Rightarrow>
               if agent_UID s a > 0 \<and> agent_UID s a = uid
               then (s, Some (Errorf ''[uid = %d] has already bound.'' [ArgD (uint (agent_UID s a))]))
               else (s\<lparr>sessions := (sessions s)(a := (sessions s a)\<lparr>Uid := uid\<rparr>),
                       uidMap := (uidMap s)(uid \<mapsto> sid)\<rparr>, None))"

definition Unbind :: "string \<Rightarrow> agents \<Rightarrow> agents" where
  "Unbind sid s =
     (case sidAgentMap s sid of
        None \<Rightarrow> s
      | Some a \<Rightarrow> s\<lparr>sidAgentMap := (sidAgentMap s)(sid := None),
                     uidMap := (uidMap s)(agent_UID s a := None)\<rparr>)"

definition GetAgent :: "string \<Rightarrow> agents \<Rightarrow> aid option" where
  "GetAgent sid s = sidAgentMap s sid"

definition GetAgentWithUID :: "u64 \<Rightarrow> agents \<Rightarrow> aid option" where
  "GetAgentWithUID uid s =
     (if uid < 1 then None
      else case uidMap s uid of
             None \<Rightarrow> None
           | Some sid \<Rightarrow> sidAgentMap s sid)"

text \<open>The map is ranged over in an unspecified order, without the lock.\<close>

definition ForeachAgent :: "(string \<times> aid) list \<Rightarrow> (aid \<Rightarrow> 'w \<Rightarrow> 'w) \<Rightarrow> 'w \<Rightarrow> 'w" where
  "ForeachAgent entries fn w = fold (\<lambda>(_, a). fn a) entries w"

definition Count :: "agents \<Rightarrow> nat" where
  "Count s = card (dom (sidAgentMap s))"

definition RouteMessage :: "string \<Rightarrow> string \<Rightarrow> (agents, unit) proc" where
  "RouteMessage name nodeType s =
     (case addRoute name nodeType (pbRoute s) of (rm, r) \<Rightarrow> (s\<lparr>pbRoute := rm\<rparr>, r))"

text \<open>\<open>Bind\<close> and \<open>Unbind\<close> of an agent go to its manager; without one they panic.\<close>

definition agent_Bind :: "aid \<Rightarrow> u64 \<Rightarrow> (agents, error option) proc" where
  "agent_Bind a uid s =
     (if managed s a then case BindUID (agent_SID s a) uid s of (s', e) \<Rightarrow> (s', Ret e)
      else (s, Panic ''runtime error: invalid memory address or nil pointer dereference''))"

definition agent_Unbind :: "aid \<Rightarrow> (agents, unit) proc" where
  "agent_Unbind a s =
     (if managed s a then (Unbind (agent_SID s a) s, Ret ())
      else (s, Panic ''runtime error: invalid memory address or nil pointer dereference''))"

lemma BindUID_ok:
  "BindUID sid uid s = (s', None) \<longleftrightarrow>
   (\<exists>a. sid \<noteq> [] \<and> uid \<noteq> 0 \<and> sidAgentMap s sid = Some a \<and> agent_UID s a \<noteq> uid \<and>
      s' = s\<lparr>sessions := (sessions s)(a := (sessions s a)\<lparr>Uid := uid\<rparr>),
             uidMap := (uidMap s)(uid \<mapsto> sid)\<rparr>)"
proof -
  have z: "uid < 1 \<longleftrightarrow> uid = 0" "0 < uid \<longleftrightarrow> uid \<noteq> 0"
    using word_less_1 [of uid] by (auto simp: word_gt_0)
  show ?thesis by (auto simp: BindUID_def z word_gt_0 split: option.split)
qed

lemma GetAgentWithUID_Some:
  "GetAgentWithUID uid s = Some a \<longleftrightarrow>
   uid \<noteq> 0 \<and> (\<exists>sid. uidMap s uid = Some sid \<and> sidAgentMap s sid = Some a)"
  using word_less_1 [of uid] by (auto simp: GetAgentWithUID_def split: option.splits)

lemma directory_frame [frame_simps]:
  "sidAgentMap (BindSID a s) = (sidAgentMap s)(agent_SID s a \<mapsto> a)"
  "uidMap (BindSID a s) = uidMap s" "sessions (BindSID a s) = sessions s"
  "sessions (Unbind sid s) = sessions s"
  "sidAgentMap (Unbind sid s) = (sidAgentMap s)(sid := None)"
  "sidAgentMap (fst (BindUID sid uid s)) = sidAgentMap s"
  by (auto simp: BindSID_def Unbind_def BindUID_def split: option.split)

section \<open>Consistency\<close>

text \<open>
  Every agent stands under its own session id; an id is mapped to a session exactly when a
  connected agent of that session has it.
\<close>

definition sid_wf :: "agents \<Rightarrow> bool" where
  "sid_wf s \<longleftrightarrow> (\<forall>sid a. sidAgentMap s sid = Some a \<longrightarrow> agent_SID s a = sid)"

definition uid_wf :: "agents \<Rightarrow> bool" where
  "uid_wf s \<longleftrightarrow> (\<forall>u sid. uidMap s u = Some sid \<longleftrightarrow>
     u \<noteq> 0 \<and> (\<exists>a. sidAgentMap s sid = Some a \<and> agent_UID s a = u))"

definition consistent :: "agents \<Rightarrow> bool" where
  "consistent s \<longleftrightarrow> sid_wf s \<and> uid_wf s"

lemma sid_wf_keeps [inv_intros]:
  "sid_wf (NewAgents ss)" "sid_wf s \<Longrightarrow> sid_wf (BindSID a s)" "sid_wf s \<Longrightarrow> sid_wf (Unbind sid s)"
  "sid_wf s \<Longrightarrow> sid_wf (fst (BindUID sid uid s))"
  by (auto simp: sid_wf_def NewAgents_def BindSID_def Unbind_def BindUID_def agent_SID_def
      split: option.split)

lemma uid_wf_connect:
  "uid_wf s \<Longrightarrow> agent_UID s a = 0 \<Longrightarrow> sidAgentMap s (agent_SID s a) = None \<Longrightarrow> uid_wf (BindSID a s)"
  by (auto simp: uid_wf_def BindSID_def agent_UID_def)

lemma uid_wfD:
  "uid_wf s \<Longrightarrow> uidMap s u = Some sid \<longleftrightarrow>
     u \<noteq> 0 \<and> (\<exists>a. sidAgentMap s sid = Some a \<and> agent_UID s a = u)"
  unfolding uid_wf_def by blast

lemma uid_wf_leave:
  assumes wf: "uid_wf s"
  shows "uid_wf (Unbind sid s)"
proof (cases "sidAgentMap s sid")
  case (Some a)
  have "uidMap (Unbind sid s) u = Some k \<longleftrightarrow>
      u \<noteq> 0 \<and> (\<exists>b. sidAgentMap (Unbind sid s) k = Some b \<and> agent_UID (Unbind sid s) b = u)" for u k
  proof (cases "u = agent_UID s a")
    case True
    have "k = sid" if "u \<noteq> 0" "sidAgentMap s k = Some b" "agent_UID s b = u" for b
    proof -
      have "uidMap s u = Some k" "uidMap s u = Some sid"
        by (rule iffD2 [OF uid_wfD [OF wf]], use that True Some in simp)+
      then show ?thesis by simp
    qed
    then show ?thesis using True Some by (auto simp: Unbind_def agent_UID_def)
  next
    case False
    then show ?thesis using uid_wfD [OF wf, of u k] Some
      by (auto simp: Unbind_def agent_UID_def)
  qed
  then show ?thesis unfolding uid_wf_def by blast
qed (use assms in \<open>simp add: Unbind_def\<close>)

lemma uid_wf_login:
  assumes wf: "consistent s" and a: "sidAgentMap s sid = Some a" "agent_UID s a = 0"
    and free: "uidMap s uid = None"
  shows "uid_wf (fst (BindUID sid uid s))"
proof (cases "snd (BindUID sid uid s)")
  case (Some e)
  then have "fst (BindUID sid uid s) = s" by (auto simp: BindUID_def split: option.splits if_splits)
  then show ?thesis using wf by (simp add: consistent_def)
next
  case None
  then obtain s' where b: "BindUID sid uid s = (s', None)" by (cases "BindUID sid uid s") auto
  then have s': "uid \<noteq> 0" "s' = s\<lparr>sessions := (sessions s)(a := (sessions s a)\<lparr>Uid := uid\<rparr>),
      uidMap := (uidMap s)(uid \<mapsto> sid)\<rparr>"
    using a(1) by (auto simp: BindUID_ok)
  have UID: "agent_UID s' x = (if x = a then uid else agent_UID s x)" for x
    by (simp add: s' agent_UID_def)
  have m: "sidAgentMap s' = sidAgentMap s" "uidMap s' u = (if u = uid then Some sid else uidMap s u)" for u
    by (simp_all add: s')
  have one: "k = sid" if "sidAgentMap s k = Some a" for k
    using wf a(1) that by (auto simp: consistent_def sid_wf_def)
  have D: "uidMap s u = Some k \<longleftrightarrow> u \<noteq> 0 \<and> (\<exists>x. sidAgentMap s k = Some x \<and> agent_UID s x = u)"
    for u k using wf by (intro uid_wfD) (simp add: consistent_def)
  have "uidMap s' u = Some k \<longleftrightarrow> u \<noteq> 0 \<and> (\<exists>x. sidAgentMap s' k = Some x \<and> agent_UID s' x = u)" for u k
  proof (cases "u = uid")
    case True
    have "\<not> (sidAgentMap s k = Some x \<and> agent_UID s x = uid)" for x
      using D [of uid k] free s'(1) by auto
    then have "(\<exists>x. sidAgentMap s k = Some x \<and> agent_UID s' x = uid) \<longleftrightarrow> k = sid"
      using one [of k] a(1) by (auto simp: UID)
    then show ?thesis using True s'(1) by (auto simp: m)
  next
    case False
    have "agent_UID s' x = u \<longleftrightarrow> agent_UID s x = u" if "u \<noteq> 0" for x
      using False that a(2) by (simp add: UID)
    then show ?thesis using False D [of u k] by (auto simp: m)
  qed
  then have "uid_wf s'" unfolding uid_wf_def by blast
  then show ?thesis by (simp add: b)
qed

lemma consistent_keeps [inv_intros]:
  "consistent (NewAgents ss)"
  "consistent s \<Longrightarrow> agent_UID s a = 0 \<Longrightarrow> sidAgentMap s (agent_SID s a) = None \<Longrightarrow>
     consistent (BindSID a s)"
  "consistent s \<Longrightarrow> sidAgentMap s sid = Some a \<Longrightarrow> agent_UID s a = 0 \<Longrightarrow> uidMap s uid = None \<Longrightarrow>
     consistent (fst (BindUID sid uid s))"
  "consistent s \<Longrightarrow> consistent (Unbind sid s)"
  using sid_wf_keeps uid_wf_connect uid_wf_leave uid_wf_login
  by (auto simp: consistent_def) (simp add: uid_wf_def NewAgents_def)

section \<open>The directory as an interface\<close>

text \<open>
  What a gate and the services rely on: as long as every session logs in once, with an id
  that nobody holds, looking an id up finds exactly the connected agent that has it.
\<close>

locale session_directory =
  fixes wf :: "'s \<Rightarrow> bool"
    and by_sid :: "string \<Rightarrow> 's \<Rightarrow> 'a option"
    and by_uid :: "u64 \<Rightarrow> 's \<Rightarrow> 'a option"
    and uid_of :: "'s \<Rightarrow> 'a \<Rightarrow> u64"
    and login :: "string \<Rightarrow> u64 \<Rightarrow> 's \<Rightarrow> 's"
    and leave :: "string \<Rightarrow> 's \<Rightarrow> 's"
  assumes lookup: "wf s \<Longrightarrow> by_uid u s = Some a \<longleftrightarrow> u \<noteq> 0 \<and> uid_of s a = u \<and> (\<exists>k. by_sid k s = Some a)"
    and wf_login: "wf s \<Longrightarrow> by_sid k s = Some a \<Longrightarrow> uid_of s a = 0 \<Longrightarrow> by_uid u s = None \<Longrightarrow>
      wf (login k u s)"
    and login_uid: "wf s \<Longrightarrow> k \<noteq> [] \<Longrightarrow> u \<noteq> 0 \<Longrightarrow> by_sid k s = Some a \<Longrightarrow> uid_of s a = 0 \<Longrightarrow>
      uid_of (login k u s) a = u"
    and login_sid: "by_sid j (login k u s) = by_sid j s"
    and wf_leave: "wf s \<Longrightarrow> wf (leave k s)"
    and leave_sid: "by_sid j (leave k s) = (if j = k then None else by_sid j s)"
    and leave_uid: "uid_of (leave k s) = uid_of s"
begin

text \<open>No agent is found under two ids.\<close>

lemma one_uid: "wf s \<Longrightarrow> by_uid u s = Some a \<Longrightarrow> by_uid v s = Some a \<Longrightarrow> u = v"
  using lookup by metis

lemma found_after_login:
  assumes "wf s" "k \<noteq> []" "u \<noteq> 0" "by_sid k s = Some a" "uid_of s a = 0" "by_uid u s = None"
  shows "by_uid u (login k u s) = Some a"
  using lookup [OF wf_login [OF assms(1,4,5,6)]] login_uid [OF assms(1-5)] login_sid assms(3,4)
  by metis

text \<open>It stays found while others leave, until its own session does.\<close>

lemma found_until_leave:
  assumes "wf s" "by_uid u s = Some a" "\<And>j. by_sid j s = Some a \<Longrightarrow> j \<noteq> k"
  shows "by_uid u (leave k s) = Some a"
proof -
  obtain j where "by_sid j s = Some a" "u \<noteq> 0" "uid_of s a = u"
    using lookup [OF assms(1)] assms(2) by blast
  moreover have "by_sid j (leave k s) = Some a" using calculation(1) assms(3) leave_sid by simp
  ultimately show ?thesis using lookup [OF wf_leave [OF assms(1)]] leave_uid by metis
qed

lemma gone_after_leave:
  assumes "wf s" "by_sid k s = Some a" "\<And>j. by_sid j s = Some a \<Longrightarrow> j = k"
  shows "by_uid u (leave k s) \<noteq> Some a"
  using lookup [OF wf_leave [OF assms(1)]] leave_sid assms(3)
  by (metis option.distinct(1))

end

text \<open>A session id is looked up with the checks of \<open>BindUID\<close>, so ids here are not empty.\<close>

lemma consistent_lookup:
  assumes "consistent s"
  shows "GetAgentWithUID u s = Some a \<longleftrightarrow>
    u \<noteq> 0 \<and> agent_UID s a = u \<and> (\<exists>k. GetAgent k s = Some a)"
proof
  assume "GetAgentWithUID u s = Some a"
  then obtain k where k: "u \<noteq> 0" "uidMap s u = Some k" "sidAgentMap s k = Some a"
    by (auto simp: GetAgentWithUID_Some)
  have "\<exists>b. sidAgentMap s k = Some b \<and> agent_UID s b = u"
    using uid_wfD [of s u k] assms k(1,2) by (simp add: consistent_def)
  with k show "u \<noteq> 0 \<and> agent_UID s a = u \<and> (\<exists>k. GetAgent k s = Some a)"
    by (auto simp: GetAgent_def)
next
  assume "u \<noteq> 0 \<and> agent_UID s a = u \<and> (\<exists>k. GetAgent k s = Some a)"
  then obtain k where k: "u \<noteq> 0" "sidAgentMap s k = Some a" "agent_UID s a = u"
    by (auto simp: GetAgent_def)
  then have "uidMap s u = Some k" using uid_wfD [of s u k] assms by (simp add: consistent_def)
  with k show "GetAgentWithUID u s = Some a" by (auto simp: GetAgentWithUID_Some)
qed

lemma consistent_free:
  assumes "consistent s" "GetAgentWithUID u s = None"
  shows "u = 0 \<or> uidMap s u = None"
proof (cases "uidMap s u")
  case (Some k)
  show ?thesis
  proof (rule disjI1, rule ccontr)
    assume "u \<noteq> 0"
    then obtain a where "sidAgentMap s k = Some a"
      using uid_wfD [of s u k] assms(1) Some by (auto simp: consistent_def)
    then have "GetAgentWithUID u s = Some a" using Some \<open>u \<noteq> 0\<close> by (auto simp: GetAgentWithUID_Some)
    then show False using assms(2) by simp
  qed
qed simp

interpretation sd: session_directory consistent GetAgent GetAgentWithUID agent_UID
    "\<lambda>k u s. fst (BindUID k u s)" Unbind
proof unfold_locales
  fix s k a and u :: u64
  assume s: "consistent s" "GetAgent k s = Some a" "agent_UID s a = 0" "GetAgentWithUID u s = None"
  show "consistent (fst (BindUID k u s))"
  proof (cases "u = 0")
    case True
    then show ?thesis using s(1) by (simp add: BindUID_def)
  next
    case False
    then show ?thesis using consistent_free [OF s(1,4)] s
      by (intro consistent_keeps(3) [of s k a]) (auto simp: GetAgent_def)
  qed
next
  fix s k a and u :: u64
  assume "k \<noteq> []" "u \<noteq> 0" "GetAgent k s = Some a" "agent_UID s a = 0"
  then have "BindUID k u s = (s\<lparr>sessions := (sessions s)(a := (sessions s a)\<lparr>Uid := u\<rparr>),
             uidMap := (uidMap s)(u \<mapsto> k)\<rparr>, None)"
    by (simp add: BindUID_ok GetAgent_def)
  then show "agent_UID (fst (BindUID k u s)) a = u" by (simp add: agent_UID_def)
qed (auto simp: consistent_lookup frame_simps GetAgent_def consistent_keeps agent_UID_def fun_eq_iff)

section \<open>Properties\<close>

text \<open>
  What happens to the directory: a client connects with a new session, a session logs in,
  a session ends.
\<close>

datatype dir_op = Connect aid | Login string u64 | Leave string

fun dir_step :: "dir_op \<Rightarrow> agents \<Rightarrow> agents" where
  "dir_step (Connect a) s = BindSID a s"
| "dir_step (Login k u) s = fst (BindUID k u s)"
| "dir_step (Leave k) s = Unbind k s"

text \<open>New sessions have fresh ids and no user; a session logs in once, with a free user id.\<close>

fun orderly :: "dir_op \<Rightarrow> agents \<Rightarrow> bool" where
  "orderly (Connect a) s \<longleftrightarrow> agent_UID s a = 0 \<and> GetAgent (agent_SID s a) s = None"
| "orderly (Login k u) s \<longleftrightarrow>
     (\<forall>a. GetAgent k s = Some a \<longrightarrow> agent_UID s a = 0) \<and> GetAgentWithUID u s = None"
| "orderly (Leave k) s \<longleftrightarrow> True"

fun orderly_run :: "dir_op list \<Rightarrow> agents \<Rightarrow> bool" where
  "orderly_run [] s \<longleftrightarrow> True"
| "orderly_run (x # xs) s \<longleftrightarrow> orderly x s \<and> orderly_run xs (dir_step x s)"

lemma consistent_step: "consistent s \<Longrightarrow> orderly x s \<Longrightarrow> consistent (dir_step x s)"
proof (cases x)
  case (Login k u)
  assume s: "consistent s" "orderly x s"
  show ?thesis
  proof (cases "GetAgent k s")
    case None
    then show ?thesis using s Login by (simp add: BindUID_def GetAgent_def)
  next
    case (Some a)
    then show ?thesis using s Login sd.wf_login [of s k a u] by simp
  qed
qed (auto simp: GetAgent_def consistent_keeps)

lemma consistent_run: "consistent s \<Longrightarrow> orderly_run xs s \<Longrightarrow> consistent (fold dir_step xs s)"
  by (induction xs arbitrary: s) (auto intro: consistent_step)

text \<open>
  C18: In every orderly history of connections, log-ins and departures, a user id finds
  exactly the connected agent whose session carries it, and no agent is found under two ids.
\<close>

theorem directory_exact:
  assumes "orderly_run xs (NewAgents ss)" and "s = fold dir_step xs (NewAgents ss)"
  shows "(GetAgentWithUID u s = Some a \<longleftrightarrow>
      u \<noteq> 0 \<and> agent_UID s a = u \<and> (\<exists>k. GetAgent k s = Some a)) \<and>
    (GetAgentWithUID u s = Some a \<and> GetAgentWithUID v s = Some a \<longrightarrow> u = v)"
proof -
  have "consistent s" unfolding assms(2) by (rule consistent_run [OF consistent_keeps(1) assms(1)])
  then show ?thesis using sd.lookup sd.one_uid by blast
qed

definition sample_sessions :: "aid \<Rightarrow> Session" where
  "sample_sessions a = \<lparr>Sid = (if a = 1 then ''s1'' else if a = 2 then ''s2'' else ''s''), Uid = 0, Ip = []\<rparr>"

theorem directory_exact_witness:
  "let s = fold dir_step [Connect 1, Connect 2, Login ''s1'' 7, Login ''s2'' 8, Leave ''s1'']
     (NewAgents sample_sessions)
   in GetAgentWithUID 8 s = Some 2 \<and> agent_UID s 2 = 8"
proof -
  let ?xs = "[Connect 1, Connect 2, Login ''s1'' 7, Login ''s2'' 8, Leave ''s1'']"
  have o: "orderly_run ?xs (NewAgents sample_sessions)"
    by (simp add: NewAgents_def sample_sessions_def agent_UID_def agent_SID_def GetAgent_def
        BindSID_def BindUID_def GetAgentWithUID_def word_less_def)
  have "agent_UID (fold dir_step ?xs (NewAgents sample_sessions)) 2 = 8 \<and>
      GetAgent ''s2'' (fold dir_step ?xs (NewAgents sample_sessions)) = Some 2"
    by (simp add: NewAgents_def sample_sessions_def agent_UID_def agent_SID_def GetAgent_def
        BindSID_def BindUID_def Unbind_def word_less_def)
  note h = this
  have "GetAgentWithUID 8 (fold dir_step ?xs (NewAgents sample_sessions)) = Some 2"
    by (rule iffD2 [OF conjunct1 [OF directory_exact [OF o refl, of 8 2 8]]])
      (intro conjI, simp, rule conjunct1 [OF h], rule exI, rule conjunct2 [OF h])
  with conjunct1 [OF h] show ?thesis unfolding Let_def by (rule conjI [rotated])
qed

text \<open>
  A second log-in of a session under another id leaves the first one in the table. Both
  ids then find the agent, whose session carries only the second.
\<close>

theorem rebind_keeps_stale_uid:
  assumes "consistent s" and "GetAgentWithUID u s = Some a" and "GetAgent k s = Some a"
    and "k \<noteq> []" and "v \<noteq> 0" and "v \<noteq> u"
  shows "\<exists>s'. BindUID k v s = (s', None) \<and> agent_UID s' a = v \<and>
    GetAgentWithUID u s' = Some a \<and> GetAgentWithUID v s' = Some a"
proof -
  have u: "u \<noteq> 0" "agent_UID s a = u" using assms(1,2) by (auto simp: consistent_lookup)
  obtain j where j: "uidMap s u = Some j" "sidAgentMap s j = Some a"
    using assms(2) by (auto simp: GetAgentWithUID_Some)
  let ?s = "s\<lparr>sessions := (sessions s)(a := (sessions s a)\<lparr>Uid := v\<rparr>), uidMap := (uidMap s)(v \<mapsto> k)\<rparr>"
  have "BindUID k v s = (?s, None)"
    using assms u by (auto simp: BindUID_ok GetAgent_def)
  moreover have "agent_UID ?s a = v" by (simp add: agent_UID_def)
  moreover have "GetAgentWithUID u ?s = Some a" "GetAgentWithUID v ?s = Some a"
    using assms u j by (auto simp: GetAgentWithUID_Some GetAgent_def)
  ultimately show ?thesis by blast
qed

lemma sample_directory:
  defines "s \<equiv> fold dir_step [Connect 1, Connect 2, Login ''s1'' 7] (NewAgents sample_sessions)"
  shows "consistent s" "GetAgentWithUID 7 s = Some 1" "GetAgent ''s1'' s = Some 1"
    "GetAgent ''s2'' s = Some 2" "agent_UID s 2 = 0"
proof -
  show "consistent s" unfolding s_def
    by (rule consistent_run [OF consistent_keeps(1)])
      (simp add: NewAgents_def sample_sessions_def agent_UID_def agent_SID_def GetAgent_def
        BindSID_def BindUID_def GetAgentWithUID_def word_less_def)
qed (simp_all add: s_def NewAgents_def sample_sessions_def agent_UID_def agent_SID_def GetAgent_def
    BindSID_def BindUID_def GetAgentWithUID_def word_less_def)

theorem rebind_keeps_stale_uid_witness:
  "\<exists>s s'. BindUID ''s1'' 9 s = (s', None) \<and> agent_UID s' 1 = 9 \<and> GetAgentWithUID 7 s' = Some 1"
  using rebind_keeps_stale_uid [OF sample_directory(1,2,3), of 9] by auto

text \<open>
  When a user logs in again over a new connection before the old one is gone, the end of
  the old session removes the id of the new one: its agent is connected and carries the id,
  and the id no longer finds it.
\<close>

theorem old_session_hides_new:
  assumes "consistent s" and "GetAgentWithUID u s = Some a" and "GetAgent k s = Some a"
    and "GetAgent j s = Some b" and "b \<noteq> a" and "j \<noteq> []" and "agent_UID s b = 0"
  shows "\<exists>s'. BindUID j u s = (s', None) \<and> GetAgentWithUID u s' = Some b \<and>
    GetAgent j (Unbind k s') = Some b \<and> agent_UID (Unbind k s') b = u \<and>
    GetAgentWithUID u (Unbind k s') = None"
proof -
  have u: "u \<noteq> 0" "agent_UID s a = u" using assms(1,2) by (auto simp: consistent_lookup)
  have jk: "j \<noteq> k" using assms(3-5) by auto
  let ?s = "s\<lparr>sessions := (sessions s)(b := (sessions s b)\<lparr>Uid := u\<rparr>), uidMap := (uidMap s)(u \<mapsto> j)\<rparr>"
  have "BindUID j u s = (?s, None)"
    using assms u by (auto simp: BindUID_ok GetAgent_def)
  moreover have "GetAgentWithUID u ?s = Some b"
    using assms(4) u by (auto simp: GetAgentWithUID_Some GetAgent_def)
  moreover have "GetAgent j (Unbind k ?s) = Some b \<and> agent_UID (Unbind k ?s) b = u \<and>
      GetAgentWithUID u (Unbind k ?s) = None"
    using assms u jk by (auto simp: GetAgent_def Unbind_def agent_UID_def GetAgentWithUID_def)
  ultimately show ?thesis by blast
qed

theorem old_session_hides_new_witness:
  "\<exists>s s'. BindUID ''s2'' 7 s = (s', None) \<and> GetAgentWithUID 7 s' = Some 2 \<and>
     GetAgent ''s2'' (Unbind ''s1'' s') = Some 2 \<and> GetAgentWithUID 7 (Unbind ''s1'' s') = None"
  using old_session_hides_new [OF sample_directory(1,2,3,4) _ _ sample_directory(5)] by auto

definition route_all :: "(pb_type \<times> string) list \<Rightarrow> (routeMgr, unit) proc" where
  "route_all rs = add_routes (map (\<lambda>(t, ty). (full_name t, ty)) rs)"

text \<open>
  Routing messages of the repository succeeds exactly when no message is routed twice. A
  duplicate ends the process, as a collision would: \<open>addRoute\<close> never fills
  \<open>route2Name\<close>, so its branch that would only warn about a duplicate is not reachable.
\<close>

theorem routes_must_be_new:
  "(\<exists>rm. route_all rs newRouteMgr = (rm, Ret ())) \<longleftrightarrow> distinct (map fst rs)"
proof -
  let ?rs = "map (\<lambda>(t, ty). (full_name t, ty)) rs"
  have ne: "full_name t \<noteq> []" for t by (cases t) simp_all
  have inj: "inj (\<lambda>t. name_id (full_name t))" by (rule injI) (rule crc32_full_name_inj)
  have "(\<exists>rm. route_all rs newRouteMgr = (rm, Ret ())) \<longleftrightarrow> snd (add_routes ?rs newRouteMgr) = Ret ()"
    by (cases "add_routes ?rs newRouteMgr") (simp add: route_all_def)
  also have "\<dots> \<longleftrightarrow> distinct (map (name_id \<circ> fst) ?rs)"
    by (subst add_routes_Ret) (auto simp: newRouteMgr_def ne)
  also have "map (name_id \<circ> fst) ?rs = map (\<lambda>t. name_id (full_name t)) (map fst rs)"
    by (simp add: case_prod_beta)
  also have "distinct \<dots> \<longleftrightarrow> distinct (map fst rs)"
    unfolding distinct_map [of "\<lambda>t. name_id (full_name t)"] using inj by (auto intro: inj_on_subset)
  finally show ?thesis .
qed

end
