(* ===== verification/Agent.thy ===== *)
theory Agent
  imports Agents Cluster
begin

text \<open>
  \<^verbatim>\<open>framework/pkg/xagent/agent.go\<close>: the goroutines of one client connection. The reader
  takes frames from the connection, the writer owns it: it selects between the end, the
  heartbeat ticker, messages for the client and packed frames. The steps interleave reader,
  writer, the worker goroutines that offer messages, between the check and the send of
  \<open>sendPending\<close> too, and callers of \<open>Close\<close>.
\<close>

section \<open>State\<close>

definition AgentInit :: int where "AgentInit = 0"

definition AgentClosed :: int where "AgentClosed = 3"

text \<open>
  A caller of \<open>Close\<close> is before its swap, has won the swap and is at its select, or has
  seen \<open>chDie\<close> open and is at its close. \<open>Close\<close> is the last action of both
  goroutines, so when one ends it becomes such a caller.
\<close>

datatype closer = AtSwap | AtSelect | AtClose

datatype reader_pc = RdNew | RdLoop | RdDone

text \<open>The writer not started yet, in its select, at the send of a packed frame, in \<open>closeProcess\<close>, or ended.\<close>

datatype writer_pc = WrNew | WrSelect | WrSend bytes | WrFns | WrUnbind | WrConn | WrChan | WrDone

text \<open>
  \<open>senders\<close> are the messages of goroutines that are past the check of \<open>sendPending\<close>, at its
  send. \<open>offered\<close>, \<open>wire\<close>, \<open>called\<close> and \<open>close_panics\<close> record the messages accepted for
  the client, the frames handed to the connection, the close functions run, and closes of a
  closed \<open>chDie\<close>.
\<close>

record ('m, 'f) agent =
  state :: int
  chDie :: bool
  chPending :: "(MsgCommon \<times> 'm) chan"
  chWrite :: "bytes chan"
  lastAt :: int
  onCloseFunc :: "'f list"
  conn_open :: bool
  reader_pc :: reader_pc
  writer_pc :: writer_pc
  closers :: "closer list"
  mgr :: agents
  senders :: "(MsgCommon \<times> 'm) list"
  offered :: "(MsgCommon \<times> 'm) list"
  wire :: "bytes list"
  called :: "'f list"
  close_panics :: nat

text \<open>The parameters of a connection: the codec, the settings, the reference of the agent.\<close>

record ('t, 'm, 'f) agent_env =
  alib :: "('t, 'm) protolib"
  areg :: "'t registry"
  aset :: settings
  self :: aid
  fn_ok :: "'f \<Rightarrow> bool"

section \<open>Operations\<close>

text \<open>
  \<open>now\<close> is the Unix time, \<open>ip\<close> the remote address, which goes into the session; the session of
  the new agent, \<open>self E\<close>, is in the store of the directory \<open>g\<close>. The two goroutines are not
  there before \<open>Start\<close>.
\<close>

definition NewAgent :: "('t, 'm, 'f) agent_env \<Rightarrow> int \<Rightarrow> string \<Rightarrow> agents \<Rightarrow> ('m, 'f) agent" where
  "NewAgent E now ip g =
     \<lparr>state = AgentInit, chDie = False,
      chPending = make_chan (nat (writeBacklog (aset E))),
      chWrite = make_chan (nat (writeBacklog (aset E))),
      lastAt = now, onCloseFunc = [], conn_open = True, reader_pc = RdNew,
      writer_pc = WrNew, closers = [],
      mgr = g\<lparr>sessions := (sessions g)(self E := (sessions g (self E))\<lparr>Ip := ip\<rparr>)\<rparr>,
      senders = [], offered = [], wire = [], called = [], close_panics = 0\<rparr>"

definition Agent_Start :: "('m, 'f) agent \<Rightarrow> ('m, 'f) agent" where
  "Agent_Start a = a\<lparr>writer_pc := WrSelect, reader_pc := RdLoop\<rparr>"

text \<open>
  What \<open>defaultOnConnectFunc\<close> does with a new session, without the function that the parser
  runs on the agent: the agent is made, entered in its manager and started.
\<close>

definition bind_agent :: "('t, 'm, 'f) agent_env \<Rightarrow> ('m, 'f) agent \<Rightarrow> ('m, 'f) agent" where
  "bind_agent E a = a\<lparr>mgr := BindSID (self E) (mgr a)\<rparr>"

definition on_connect :: "('t, 'm, 'f) agent_env \<Rightarrow> int \<Rightarrow> string \<Rightarrow> agents \<Rightarrow> ('m, 'f) agent" where
  "on_connect E now ip g = Agent_Start (bind_agent E (NewAgent E now ip g))"

lemmas on_connect_defs = on_connect_def Agent_Start_def bind_agent_def NewAgent_def

definition SetState :: "int \<Rightarrow> ('m, 'f) agent \<Rightarrow> ('m, 'f) agent \<times> bool" where
  "SetState v a = (a\<lparr>state := v\<rparr>, state a \<noteq> v)"

definition SetLastAt :: "int \<Rightarrow> ('m, 'f) agent \<Rightarrow> ('m, 'f) agent" where
  "SetLastAt now a = a\<lparr>lastAt := now\<rparr>"

definition AddOnClose :: "'f option \<Rightarrow> ('m, 'f) agent \<Rightarrow> ('m, 'f) agent" where
  "AddOnClose fn a = (case fn of None \<Rightarrow> a | Some f \<Rightarrow> a\<lparr>onCloseFunc := onCloseFunc a @ [f]\<rparr>)"

definition Close :: "('m, 'f) agent \<Rightarrow> ('m, 'f) agent" where
  "Close a = a\<lparr>closers := closers a @ [AtSwap]\<rparr>"

text \<open>
  \<open>sendPending\<close> is called in the worker goroutines, of which there are two. It checks, and refuses
  when the agent is closed or the queue holds as many messages as the backlog, and then sends:
  \<open>None\<close> where the send would wait. The backlog is the value of the global at the check, \<open>limit\<close>,
  which \<open>SetWriteBacklog\<close> may have changed since the queue was made. \<open>sendPending\<close> itself is
  the case that nothing comes between the two; \<open>agent_step\<close> has them as steps.
\<close>

definition sendPending_check :: "int \<Rightarrow> ('m, 'f) agent \<Rightarrow> bool" where
  "sendPending_check limit a \<longleftrightarrow>
     state a \<noteq> AgentClosed \<and> \<not> int (length (buf (chPending a))) \<ge> limit"

definition sendPending_send :: "MsgCommon \<times> 'm \<Rightarrow> ('m, 'f) agent \<Rightarrow> ('m, 'f) agent option" where
  "sendPending_send cm a =
     (case chan_send cm (chPending a) of
        Sent c \<Rightarrow> Some (a\<lparr>chPending := c, offered := offered a @ [cm]\<rparr>)
      | _ \<Rightarrow> None)"

definition sendPending :: "int \<Rightarrow> MsgCommon \<Rightarrow> 'm \<Rightarrow> ('m, 'f) agent \<Rightarrow> ('m, 'f) agent option" where
  "sendPending limit common msg a =
     (if sendPending_check limit a then sendPending_send (common, msg) a else Some a)"

definition Response :: "int \<Rightarrow> MsgCommon \<Rightarrow> 'm \<Rightarrow> ('m, 'f) agent \<Rightarrow> ('m, 'f) agent option" where
  "Response limit common msg a = sendPending limit common msg a"

lemmas sendPending_defs = sendPending_def sendPending_check_def sendPending_send_def

text \<open>
  Packing with the registry of the process: \<open>None\<close> where it panics, which ends the
  process since the writer does not recover.
\<close>

definition pack_frame :: "('t, 'm, 'f) agent_env \<Rightarrow> MsgCommon \<times> 'm \<Rightarrow> bytes result option" where
  "pack_frame E cm =
     (case PackMessage (alib E) (fst cm) (snd cm) (areg E) of
        (_, Ret (_, r)) \<Rightarrow> Some r
      | _ \<Rightarrow> None)"

text \<open>The heartbeat test of one tick, at time \<open>now\<close> in nanoseconds; \<open>lastAt\<close> is in seconds.\<close>

definition heartbeat_expired :: "int \<Rightarrow> int \<Rightarrow> int \<Rightarrow> bool" where
  "heartbeat_expired hb now seen \<longleftrightarrow> seen < (now - hb) div 1000000000"

text \<open>The close functions run in order, under one \<open>Try\<close>: the first panic ends the loop.\<close>

fun run_close_fns :: "('f \<Rightarrow> bool) \<Rightarrow> 'f list \<Rightarrow> 'f list" where
  "run_close_fns ok [] = []"
| "run_close_fns ok (f # gs) = (if ok f then f # run_close_fns ok gs else [f])"

section \<open>Steps\<close>

inductive agent_step ::
    "('t, 'm, 'f) agent_env \<Rightarrow> ('m, 'f) agent \<Rightarrow> ('m, 'f) agent \<Rightarrow> bool" for E where
  Read_frame: "\<lbrakk>reader_pc a = RdLoop; conn_open a; lastAt a \<le> t\<rbrakk> \<Longrightarrow>
    agent_step E a (SetLastAt t a)"
| Read_error: "reader_pc a = RdLoop \<Longrightarrow>
    agent_step E a (Close (a\<lparr>reader_pc := RdDone\<rparr>))"
| Die: "\<lbrakk>writer_pc a = WrSelect; chDie a\<rbrakk> \<Longrightarrow> agent_step E a (a\<lparr>writer_pc := WrFns\<rparr>)"
| Tick: "\<lbrakk>writer_pc a = WrSelect; heartbeat_expired (heartbeatTime (aset E)) now (lastAt a)\<rbrakk> \<Longrightarrow>
    agent_step E a (a\<lparr>writer_pc := WrFns\<rparr>)"
| Pending_dropped: "\<lbrakk>writer_pc a = WrSelect; chan_recv (chPending a) = Received cm c;
      pack_frame E cm = Some (Inl e)\<rbrakk> \<Longrightarrow>
    agent_step E a (a\<lparr>chPending := c\<rparr>)"
| Pending_packed: "\<lbrakk>writer_pc a = WrSelect; chan_recv (chPending a) = Received cm c;
      pack_frame E cm = Some (Inr bs)\<rbrakk> \<Longrightarrow>
    agent_step E a (a\<lparr>chPending := c, writer_pc := WrSend bs\<rparr>)"
| SendRaw: "\<lbrakk>writer_pc a = WrSend bs; chan_send bs (chWrite a) = Sent c\<rbrakk> \<Longrightarrow>
    agent_step E a (a\<lparr>chWrite := c, writer_pc := WrSelect\<rparr>)"
| Write: "\<lbrakk>writer_pc a = WrSelect; chan_recv (chWrite a) = Received bs c\<rbrakk> \<Longrightarrow>
    agent_step E a (a\<lparr>chWrite := c, wire := wire a @ [bs]\<rparr>)"
| Close_fns: "writer_pc a = WrFns \<Longrightarrow>
    agent_step E a (a\<lparr>called := called a @ run_close_fns (fn_ok E) (onCloseFunc a), writer_pc := WrUnbind\<rparr>)"
| Close_unbind: "writer_pc a = WrUnbind \<Longrightarrow>
    agent_step E a (a\<lparr>mgr := Unbind (agent_SID (mgr a) (self E)) (mgr a), writer_pc := WrConn\<rparr>)"
| Close_conn: "writer_pc a = WrConn \<Longrightarrow>
    agent_step E a (a\<lparr>conn_open := False, writer_pc := WrChan\<rparr>)"
| Close_write: "\<lbrakk>writer_pc a = WrChan; chan_close (chWrite a) = Some c\<rbrakk> \<Longrightarrow>
    agent_step E a (Close (a\<lparr>chWrite := c, writer_pc := WrDone\<rparr>))"
| Swap: "\<lbrakk>closers a = xs @ AtSwap # ys; SetState AgentClosed a = (a', changed)\<rbrakk> \<Longrightarrow>
    agent_step E a (a'\<lparr>closers := (if changed then xs @ AtSelect # ys else xs @ ys)\<rparr>)"
| Select: "closers a = xs @ AtSelect # ys \<Longrightarrow>
    agent_step E a (a\<lparr>closers := (if chDie a then xs @ ys else xs @ AtClose # ys)\<rparr>)"
| CloseDie: "closers a = xs @ AtClose # ys \<Longrightarrow>
    agent_step E a (a\<lparr>closers := xs @ ys, chDie := True,
      close_panics := (if chDie a then Suc (close_panics a) else close_panics a)\<rparr>)"
| Check: "\<lbrakk>0 < limit; sendPending_check limit a\<rbrakk> \<Longrightarrow>
    agent_step E a (a\<lparr>senders := senders a @ [cm]\<rparr>)"
| Offer: "\<lbrakk>senders a = xs @ cm # ys; sendPending_send cm a = Some a'\<rbrakk> \<Longrightarrow>
    agent_step E a (a'\<lparr>senders := xs @ ys\<rparr>)"
| Close_call: "agent_step E a (Close a)"
| Add_fn: "agent_step E a (AddOnClose fn a)"
| Others: "\<lbrakk>sidAgentMap g (agent_SID (mgr a) (self E)) = sidAgentMap (mgr a) (agent_SID (mgr a) (self E));
      agent_SID g (self E) = agent_SID (mgr a) (self E)\<rbrakk> \<Longrightarrow>
    agent_step E a (a\<lparr>mgr := g\<rparr>)"

inductive_cases agent_stepE: "agent_step E a a'"

definition agent_reach :: "('t, 'm, 'f) agent_env \<Rightarrow> ('m, 'f) agent \<Rightarrow> bool" where
  "agent_reach E a \<longleftrightarrow> (\<exists>now ip g. (agent_step E)\<^sup>*\<^sup>* (on_connect E now ip g) a)"

lemma agent_reach_step: "agent_reach E a \<Longrightarrow> agent_step E a b \<Longrightarrow> agent_reach E b"
  by (auto simp: agent_reach_def intro: rtranclp.rtrancl_into_rtrancl)

lemma agent_induct [consumes 1, case_names init step]:
  assumes "agent_reach E a"
    and "\<And>now ip g. I (on_connect E now ip g)"
    and "\<And>a b. agent_reach E a \<Longrightarrow> I a \<Longrightarrow> agent_step E a b \<Longrightarrow> I b"
  shows "I a"
proof -
  obtain now ip g where "(agent_step E)\<^sup>*\<^sup>* (on_connect E now ip g) a"
    using assms(1) by (auto simp: agent_reach_def)
  then show ?thesis
  proof (induction rule: rtranclp_induct)
    case base
    show ?case by (rule assms(2))
  next
    case (step y z)
    have "agent_reach E y" using step(1) by (auto simp: agent_reach_def)
    then show ?case using step assms(3) by blast
  qed
qed

lemmas agent_ops = SetState_def SetLastAt_def AddOnClose_def Close_def

lemma sendPending_send_Some:
  "sendPending_send cm a = Some a' \<longleftrightarrow>
   (\<exists>c. chan_send cm (chPending a) = Sent c \<and> a' = a\<lparr>chPending := c, offered := offered a @ [cm]\<rparr>)"
  by (cases "chan_send cm (chPending a)") (auto simp: sendPending_send_def chan_send_def split: if_splits)

text \<open>
  Runs in which at most \<open>k\<close> goroutines offer at a time, and the backlog of the checks is that of
  the queue: nobody has called \<open>SetWriteBacklog\<close> since.
\<close>

definition offer_step :: "nat \<Rightarrow> ('t, 'm, 'f) agent_env \<Rightarrow> ('m, 'f) agent \<Rightarrow> ('m, 'f) agent \<Rightarrow> bool" where
  "offer_step k E a b \<longleftrightarrow>
     agent_step E a b \<and> length (senders b) \<le> k \<and>
     (length (senders a) < length (senders b) \<longrightarrow> sendPending_check (writeBacklog (aset E)) a)"

definition offer_reach :: "nat \<Rightarrow> ('t, 'm, 'f) agent_env \<Rightarrow> ('m, 'f) agent \<Rightarrow> bool" where
  "offer_reach k E a \<longleftrightarrow> (\<exists>now ip g. (offer_step k E)\<^sup>*\<^sup>* (on_connect E now ip g) a)"

lemma offer_reach_agent:
  assumes "offer_reach k E a"
  shows "agent_reach E a"
proof -
  have "(agent_step E)\<^sup>*\<^sup>* b c" if "(offer_step k E)\<^sup>*\<^sup>* b c" for b c
    using that by (induction rule: rtranclp_induct) (auto simp: offer_step_def intro: rtranclp.rtrancl_into_rtrancl)
  then show ?thesis using assms unfolding offer_reach_def agent_reach_def by blast
qed

lemma offer_reach_step:
  assumes "offer_reach k E a" and "agent_step E a b" and "length (senders b) \<le> k"
    and "length (senders a) < length (senders b) \<Longrightarrow> sendPending_check (writeBacklog (aset E)) a"
  shows "offer_reach k E b"
proof -
  have "offer_step k E a b" using assms(2-4) by (simp add: offer_step_def)
  then show ?thesis using assms(1) unfolding offer_reach_def by (meson rtranclp.rtrancl_into_rtrancl)
qed

text \<open>An offer with nothing between its check and its send is two steps.\<close>

lemma offer_reach_offer:
  assumes "offer_reach k E a" and "sendPending (writeBacklog (aset E)) c m a = Some b"
    and "0 < writeBacklog (aset E)" and "length (senders a) < k"
  shows "offer_reach k E b"
proof (cases "sendPending_check (writeBacklog (aset E)) a")
  case True
  let ?a = "a\<lparr>senders := senders a @ [(c, m)]\<rparr>"
  obtain q where q: "chan_send (c, m) (chPending a) = Sent q" "b = a\<lparr>chPending := q, offered := offered a @ [(c, m)]\<rparr>"
    using assms(2) True by (auto simp: sendPending_def sendPending_send_Some)
  let ?b = "?a\<lparr>chPending := q, offered := offered a @ [(c, m)]\<rparr>"
  have "offer_reach k E ?a"
    by (rule offer_reach_step [OF assms(1) Check [OF assms(3) True]]) (use assms(4) True in simp_all)
  moreover have "agent_step E ?a (?b\<lparr>senders := senders a @ []\<rparr>)"
    by (rule Offer [of _ _ "(c, m)"]) (simp_all add: sendPending_send_Some q(1))
  ultimately have "offer_reach k E (?b\<lparr>senders := senders a @ []\<rparr>)"
    by (rule offer_reach_step) (use assms(4) in simp_all)
  moreover have "?b\<lparr>senders := senders a @ []\<rparr> = b" by (simp add: q(2))
  ultimately show ?thesis by simp
qed (use assms(1,2) in \<open>simp add: sendPending_def\<close>)

section \<open>Invariants\<close>

text \<open>At most one caller of \<open>Close\<close> gets past the swap.\<close>

fun past_swap :: "closer \<Rightarrow> bool" where
  "past_swap AtSwap = False"
| "past_swap _ = True"

definition close_inv :: "('m, 'f) agent \<Rightarrow> bool" where
  "close_inv a \<longleftrightarrow>
     close_panics a = 0 \<and>
     length (filter past_swap (closers a)) + (if chDie a then 1 else 0) =
       (if state a = AgentClosed then 1 else 0)"

lemma close_inv_step:
  assumes "agent_step E a b" and "close_inv a"
  shows "close_inv b"
  using assms(1)
  by (cases rule: agent_step.cases)
    (use assms(2) in \<open>auto simp: close_inv_def agent_ops AgentClosed_def sendPending_send_Some split: if_splits option.splits\<close>)

lemma close_inv_reach: "agent_reach E a \<Longrightarrow> close_inv a"
proof (induction rule: agent_induct)
  case (init now ip g)
  show ?case by (simp add: on_connect_defs close_inv_def AgentInit_def AgentClosed_def)
next
  case (step a b)
  then show ?case using close_inv_step by blast
qed

text \<open>The frames of the accepted messages, in order; what does not pack is left out.\<close>

fun frames :: "('t, 'm, 'f) agent_env \<Rightarrow> (MsgCommon \<times> 'm) list \<Rightarrow> bytes list" where
  "frames E [] = []"
| "frames E (cm # cms) =
     (case pack_frame E cm of Some (Inr bs) \<Rightarrow> bs # frames E cms | _ \<Rightarrow> frames E cms)"

lemma frames_append: "frames E (xs @ ys) = frames E xs @ frames E ys"
  by (induction xs) (auto split: option.split sum.split)

fun in_writer :: "writer_pc \<Rightarrow> bytes list" where
  "in_writer (WrSend bs) = [bs]"
| "in_writer _ = []"

definition order_inv :: "('t, 'm, 'f) agent_env \<Rightarrow> ('m, 'f) agent \<Rightarrow> bool" where
  "order_inv E a \<longleftrightarrow>
     frames E (offered a) = wire a @ buf (chWrite a) @ in_writer (writer_pc a) @ frames E (buf (chPending a))"

lemma order_inv_step:
  assumes "agent_step E a b" and "order_inv E a"
  shows "order_inv E b"
  using assms(1)
  by (cases rule: agent_step.cases)
    (use assms(2) in \<open>auto simp: order_inv_def agent_ops chan_simps frames_append sendPending_send_Some split: option.splits\<close>)

lemma order_inv_reach: "agent_reach E a \<Longrightarrow> order_inv E a"
proof (induction rule: agent_induct)
  case (init now ip g)
  show ?case by (simp add: on_connect_defs order_inv_def)
next
  case (step a b)
  then show ?case using order_inv_step by blast
qed

text \<open>What the writer has left behind at each point of its end.\<close>

definition gone :: "('t, 'm, 'f) agent_env \<Rightarrow> ('m, 'f) agent \<Rightarrow> bool" where
  "gone E a \<longleftrightarrow> sidAgentMap (mgr a) (agent_SID (mgr a) (self E)) = None"

definition end_inv :: "('t, 'm, 'f) agent_env \<Rightarrow> ('m, 'f) agent \<Rightarrow> bool" where
  "end_inv E a \<longleftrightarrow>
     (writer_pc a \<in> {WrConn, WrChan, WrDone} \<longrightarrow> gone E a) \<and>
     (conn_open a \<longleftrightarrow> writer_pc a \<notin> {WrChan, WrDone}) \<and>
     (isclosed (chWrite a) \<longleftrightarrow> writer_pc a = WrDone) \<and> \<not> isclosed (chPending a)"

definition closing_inv :: "('m, 'f) agent \<Rightarrow> bool" where
  "closing_inv a \<longleftrightarrow>
     (writer_pc a = WrDone \<or> reader_pc a = RdDone \<longrightarrow> state a = AgentClosed \<or> AtSwap \<in> set (closers a))"

lemma end_inv_step:
  assumes "agent_step E a b" and "end_inv E a"
  shows "end_inv E b"
  using assms(1)
proof (cases rule: agent_step.cases)
  case Close_unbind
  then show ?thesis using assms(2) by (simp add: end_inv_def gone_def frame_simps agent_SID_def)
qed (use assms(2) in \<open>auto simp add: end_inv_def gone_def agent_ops chan_simps sendPending_send_Some split: option.splits\<close>)

lemma closing_inv_step:
  assumes "agent_step E a b" and "closing_inv a"
  shows "closing_inv b"
  using assms(1)
  by (cases rule: agent_step.cases)
    (use assms(2) in \<open>auto simp: closing_inv_def agent_ops sendPending_send_Some split: option.splits\<close>)

lemma end_inv_reach: "agent_reach E a \<Longrightarrow> end_inv E a \<and> closing_inv a"
proof (induction rule: agent_induct)
  case (init now ip g)
  show ?case by (simp add: on_connect_defs end_inv_def closing_inv_def AgentInit_def AgentClosed_def)
next
  case (step a b)
  then show ?case using end_inv_step closing_inv_step by blast
qed

text \<open>The queue of messages never holds more than the backlog.\<close>

lemma caps_reach:
  "agent_reach E a \<Longrightarrow> 0 \<le> writeBacklog (aset E) \<Longrightarrow>
   cap (chPending a) = nat (writeBacklog (aset E)) \<and> cap (chWrite a) = nat (writeBacklog (aset E)) \<and>
   length (buf (chPending a)) \<le> cap (chPending a)"
proof (induction rule: agent_induct)
  case (init now ip g)
  show ?case by (simp add: on_connect_defs)
next
  case (step a b)
  from step(2) show ?case
  proof (cases rule: agent_step.cases)
    case Check
    then show ?thesis using step(3,4) by simp
  qed (use step(3,4) in \<open>auto simp: agent_ops chan_simps sendPending_send_Some split: option.splits\<close>)
qed

section \<open>A writer that waits for itself\<close>

text \<open>Only the writer takes frames out of \<open>chWrite\<close>, so it cannot get past a send to the full queue.\<close>

definition stuck :: "bytes \<Rightarrow> ('m, 'f) agent \<Rightarrow> bool" where
  "stuck bs a \<longleftrightarrow> writer_pc a = WrSend bs \<and> cap (chWrite a) \<le> length (buf (chWrite a)) \<and>
     \<not> isclosed (chWrite a) \<and> conn_open a"

lemma stuck_step:
  assumes "agent_step E a b" and "stuck bs a"
  shows "stuck bs b"
  using assms(1)
  by (cases rule: agent_step.cases)
    (use assms(2) in \<open>auto simp: stuck_def agent_ops chan_simps sendPending_send_Some split: option.splits\<close>)

lemma stuck_forever:
  assumes "(agent_step E)\<^sup>*\<^sup>* a b" and "stuck bs a"
  shows "stuck bs b"
  using assms by (induction rule: rtranclp_induct) (auto intro: stuck_step)

text \<open>The agent after \<open>k\<close> messages that were packed and not yet written.\<close>

definition packed :: "('t, 'm, 'f) agent_env \<Rightarrow> MsgCommon \<times> 'm \<Rightarrow> bytes \<Rightarrow> nat \<Rightarrow> ('m, 'f) agent" where
  "packed E cm bs k =
     (on_connect E 0 [] (NewAgents (\<lambda>_. Session_Reset)))
       \<lparr>chWrite := (make_chan (nat (writeBacklog (aset E))))\<lparr>buf := replicate k bs\<rparr>,
        offered := replicate k cm\<rparr>"

definition blocked :: "('t, 'm, 'f) agent_env \<Rightarrow> MsgCommon \<times> 'm \<Rightarrow> bytes \<Rightarrow> nat \<Rightarrow> ('m, 'f) agent" where
  "blocked E cm bs k = (packed E cm bs k)\<lparr>writer_pc := WrSend bs, offered := replicate (Suc k) cm\<rparr>"

lemma blocked_reach:
  assumes "offer_reach j E (packed E cm bs k)" and "settings_ok (aset E)" and "0 < j"
    and "pack_frame E cm = Some (Inr bs)"
  shows "offer_reach j E (blocked E cm bs k)"
proof -
  let ?a = "packed E cm bs k"
  let ?c = "(chPending ?a)\<lparr>buf := [cm]\<rparr>"
  let ?a1 = "?a\<lparr>chPending := ?c, offered := replicate (Suc k) cm\<rparr>"
  have p: "chPending ?a = make_chan (nat (writeBacklog (aset E)))" "state ?a = AgentInit"
    "offered ?a = replicate k cm" "writer_pc ?a = WrSelect" "senders ?a = []"
    by (simp_all add: packed_def on_connect_defs)
  have ok: "0 < writeBacklog (aset E)" using assms(2) by (simp add: settings_ok_def)
  have "sendPending (writeBacklog (aset E)) (fst cm) (snd cm) ?a = Some ?a1"
    using ok by (simp add: sendPending_defs p AgentInit_def AgentClosed_def chan_send_def replicate_append_same)
  from offer_reach_offer [OF assms(1) this ok] have "offer_reach j E ?a1" using assms(3) by (simp add: p)
  moreover have "agent_step E ?a1 (?a1\<lparr>chPending := ?c\<lparr>buf := []\<rparr>, writer_pc := WrSend bs\<rparr>)"
    by (rule Pending_packed [OF _ _ assms(4)]) (simp_all add: p chan_recv_def)
  ultimately have "offer_reach j E (?a1\<lparr>chPending := ?c\<lparr>buf := []\<rparr>, writer_pc := WrSend bs\<rparr>)"
    by (rule offer_reach_step) (simp_all add: p)
  moreover have "?a1\<lparr>chPending := ?c\<lparr>buf := []\<rparr>, writer_pc := WrSend bs\<rparr> = blocked E cm bs k"
    by (simp add: blocked_def packed_def on_connect_defs make_chan_def)
  ultimately show ?thesis by metis
qed

lemma packed_reach:
  assumes "settings_ok (aset E)" and "0 < j" and "pack_frame E cm = Some (Inr bs)"
  shows "k \<le> nat (writeBacklog (aset E)) \<Longrightarrow> offer_reach j E (packed E cm bs k)"
proof (induction k)
  case 0
  have "packed E cm bs 0 = on_connect E 0 [] (NewAgents (\<lambda>_. Session_Reset))"
    by (simp add: packed_def on_connect_defs make_chan_def)
  then show ?case unfolding offer_reach_def by (metis rtranclp.rtrancl_refl)
next
  case (Suc k)
  let ?b = "blocked E cm bs k"
  have e: "replicate (Suc k) bs = replicate k bs @ [bs]" by (simp add: replicate_append_same)
  have "offer_reach j E ?b" using Suc by (intro blocked_reach assms) simp_all
  moreover have "agent_step E ?b (?b\<lparr>chWrite := (chWrite ?b)\<lparr>buf := replicate (Suc k) bs\<rparr>, writer_pc := WrSelect\<rparr>)"
    unfolding e using Suc.prems
    by (intro SendRaw) (simp_all only: blocked_def packed_def chan_simps, simp_all)
  ultimately have "offer_reach j E (?b\<lparr>chWrite := (chWrite ?b)\<lparr>buf := replicate (Suc k) bs\<rparr>, writer_pc := WrSelect\<rparr>)"
    by (rule offer_reach_step) (simp_all add: blocked_def packed_def on_connect_defs)
  moreover have "?b\<lparr>chWrite := (chWrite ?b)\<lparr>buf := replicate (Suc k) bs\<rparr>, writer_pc := WrSelect\<rparr> =
      packed E cm bs (Suc k)"
    by (simp add: blocked_def packed_def on_connect_defs)
  ultimately show ?case by metis
qed

lemma blocked_stuck:
  assumes "settings_ok (aset E)" and "0 < j" and "pack_frame E cm = Some (Inr bs)"
  shows "offer_reach j E (blocked E cm bs (nat (writeBacklog (aset E))))"
    and "stuck bs (blocked E cm bs (nat (writeBacklog (aset E))))"
proof -
  show "offer_reach j E (blocked E cm bs (nat (writeBacklog (aset E))))"
    using packed_reach [OF assms] assms by (intro blocked_reach) simp_all
  show "stuck bs (blocked E cm bs (nat (writeBacklog (aset E))))"
    by (simp add: stuck_def blocked_def packed_def on_connect_defs)
qed

section \<open>Forwarding a client's message\<close>

text \<open>
  \<open>processPacket\<close>: the route chooses the kind of node, \<open>Random\<close> the node; the header
  is overwritten with the gate and the session. The flag says whether \<open>lastAt\<close> is updated.
  \<open>intn\<close> and \<open>entries\<close> are the parameters of \<open>Random\<close>.
\<close>

definition processPacket ::
    "('t, 'm, 'h, 'c, 'l) cluster_env \<Rightarrow> (nat \<Rightarrow> nat) \<Rightarrow> (string \<times> Member) list \<Rightarrow> agents \<Rightarrow> aid \<Rightarrow>
     MsgCommon \<Rightarrow> 'm \<Rightarrow> (('t, 'm, 'h, 'c, 'l) node, bool) proc" where
  "processPacket E intn entries g a common msg n =
     (case Random intn entries (route_type (pbRoute g) (Route common)) of
        None \<Rightarrow> (n, Ret False)
      | Some member \<Rightarrow>
          let common' = common\<lparr>SourceId := self_id n, TargetId := NodeId member,
                               McUid := agent_UID g a, McSid := agent_SID g a\<rparr>
          in seq_proc (pack_in E common' msg)
               (\<lambda>r n'. case r of
                  Inl err \<Rightarrow> (n', Ret False)
                | Inr data \<Rightarrow>
                    (case SendBytes E (NodeId member) data n' of
                       (n'', Some err) \<Rightarrow> (n'', Ret False)
                     | (n'', None) \<Rightarrow> (n'', Ret True))) n)"

text \<open>
  The default handler that \<open>Agents.Init\<close> installs: the agent that gets the message as its
  \<open>Response\<close>, or none, which is only logged.
\<close>

definition Agents_Init_handler :: "agents \<Rightarrow> MsgCommon \<Rightarrow> aid option" where
  "Agents_Init_handler g common = GetAgent (MsgCommon_GetSid (Some common)) g"

section \<open>A sample connection\<close>

definition sample_agent_env :: "(pb_type, pb_msg, unit) agent_env" where
  "sample_agent_env = \<lparr>alib = sample_lib, areg = empty_registry, aset = default_settings,
     self = 1, fn_ok = (\<lambda>_. True)\<rparr>"

lemma sample_pack:
  obtains bs where "pack_frame sample_agent_env (MsgCommon_Reset, sample_req) = Some (Inr bs)"
proof -
  have "\<exists>g'. PackMessage sample_lib MsgCommon_Reset sample_req empty_registry =
      (g', Ret (MsgCommon_Reset\<lparr>Route := name_id (fname sample_lib (mtype sample_lib sample_req))\<rparr>,
        Inr (frame (enc_common (MsgCommon_Reset\<lparr>Route := name_id (fname sample_lib (mtype sample_lib sample_req))\<rparr>))
          (enc_msg sample_req))))"
    by (rule PackMessage_success [OF reg_wf_empty]) simp_all
  then show thesis using that by (auto simp: pack_frame_def sample_agent_env_def)
qed

lemma sample_settings: "settings_ok (aset sample_agent_env)"
  by (simp add: sample_agent_env_def settings_ok_keeps)

text \<open>The agent of a new session at each point of an orderly end that \<open>Close\<close> begins.\<close>

definition ending :: "writer_pc \<Rightarrow> bool \<Rightarrow> closer list \<Rightarrow> int \<Rightarrow> agents \<Rightarrow> bool \<Rightarrow> bool \<Rightarrow> (pb_msg, unit) agent" where
  "ending w die cs st g op sh =
     (on_connect sample_agent_env 0 (Ip (sample_sessions 1)) (NewAgents sample_sessions))
       \<lparr>writer_pc := w, chDie := die, closers := cs, state := st, mgr := g, conn_open := op,
        chWrite := (make_chan 64)\<lparr>isclosed := sh\<rparr>\<rparr>"

definition dir_in :: agents where "dir_in = BindSID 1 (NewAgents sample_sessions)"

definition dir_out :: agents where "dir_out = Unbind ''s1'' dir_in"

lemma agent_step_to: "agent_reach E a \<Longrightarrow> agent_step E a c \<Longrightarrow> c = b \<Longrightarrow> agent_reach E b"
  by (blast intro: agent_reach_step)

lemmas ending_defs = ending_def on_connect_defs agent_ops chan_simps AgentClosed_def AgentInit_def

lemma ended_reach: "agent_reach sample_agent_env (ending WrDone True [] 3 dir_out False True)"
proof -
  have sid: "agent_SID dir_in 1 = ''s1''"
    by (simp add: dir_in_def BindSID_def NewAgents_def agent_SID_def sample_sessions_def)
  have self: "self sample_agent_env = 1" by (simp add: sample_agent_env_def)
  have "agent_reach sample_agent_env (ending WrSelect False [] 0 dir_in True False)"
    unfolding agent_reach_def
    by (intro exI [of _ 0] exI [of _ "Ip (sample_sessions 1)"] exI [of _ "NewAgents sample_sessions"])
      (simp add: ending_def on_connect_defs NewAgents_def dir_in_def sample_agent_env_def default_settings_def
        make_chan_def AgentInit_def)
  then have "agent_reach sample_agent_env (ending WrSelect False [AtSwap] 0 dir_in True False)"
    by (rule agent_step_to [OF _ Close_call]) (simp add: ending_defs)
  then have "agent_reach sample_agent_env (ending WrSelect False [AtSelect] 3 dir_in True False)"
    by (rule agent_step_to [OF _ Swap [where xs = "[]" and ys = "[]" and changed = True]])
      (simp add: ending_defs, simp add: ending_defs, simp add: ending_defs)
  then have "agent_reach sample_agent_env (ending WrSelect False [AtClose] 3 dir_in True False)"
    by (rule agent_step_to [OF _ Select [of _ "[]" "[]"]]) (simp_all add: ending_defs)
  then have "agent_reach sample_agent_env (ending WrSelect True [] 3 dir_in True False)"
    by (rule agent_step_to [OF _ CloseDie [of _ "[]" "[]"]]) (simp_all add: ending_defs)
  then have "agent_reach sample_agent_env (ending WrFns True [] 3 dir_in True False)"
    by (rule agent_step_to [OF _ Die]) (simp_all add: ending_defs)
  then have "agent_reach sample_agent_env (ending WrUnbind True [] 3 dir_in True False)"
    by (rule agent_step_to [OF _ Close_fns]) (simp_all add: ending_defs)
  then have "agent_reach sample_agent_env (ending WrConn True [] 3 dir_out True False)"
    by (rule agent_step_to [OF _ Close_unbind]) (simp_all add: ending_defs self sid [simplified] dir_out_def)
  then have "agent_reach sample_agent_env (ending WrChan True [] 3 dir_out False False)"
    by (rule agent_step_to [OF _ Close_conn]) (simp_all add: ending_defs)
  then have "agent_reach sample_agent_env (ending WrDone True [AtSwap] 3 dir_out False True)"
    by (rule agent_step_to [OF _ Close_write]) (simp_all add: ending_defs)
  then show ?thesis
    by (rule agent_step_to [OF _ Swap [where xs = "[]" and ys = "[]" and changed = False]])
      (simp add: ending_defs, simp add: ending_defs, simp add: ending_defs)
qed

section \<open>Properties\<close>

text \<open>
  C28: \<open>Close\<close> may be called by the reader, the writer and anybody else, at any time and
  any number of times: in no interleaving is \<open>chDie\<close> closed twice, so no call panics.
\<close>

theorem Close_never_panics:
  assumes "agent_reach E a"
  shows "close_panics a = 0"
  using close_inv_reach [OF assms] by (simp add: close_inv_def)

theorem Close_never_panics_witness:
  "chDie (ending WrDone True [] 3 dir_out False True) \<and>
   close_panics (ending WrDone True [] 3 dir_out False True) = 0"
  using Close_never_panics [OF ended_reach] by (simp add: ending_def)

text \<open>
  C20: What goes to the connection is a prefix of the frames of the messages accepted for the
  client, in the order they were accepted: none is lost, doubled or overtaken on the way
  through the two queues.
\<close>

theorem client_gets_frames_in_order:
  assumes "agent_reach E a"
  shows "\<exists>rest. frames E (offered a) = wire a @ rest"
  using order_inv_reach [OF assms] by (auto simp: order_inv_def)

theorem client_gets_frames_in_order_witness:
  "\<exists>bs a. agent_reach sample_agent_env a \<and> wire a = [bs] \<and>
     (\<exists>rest. frames sample_agent_env (offered a) = [bs] @ rest)"
proof -
  obtain bs where bs: "pack_frame sample_agent_env (MsgCommon_Reset, sample_req) = Some (Inr bs)"
    by (rule sample_pack)
  let ?a = "packed sample_agent_env (MsgCommon_Reset, sample_req) bs 1"
  let ?b = "?a\<lparr>chWrite := (chWrite ?a)\<lparr>buf := []\<rparr>, wire := wire ?a @ [bs]\<rparr>"
  have "agent_reach sample_agent_env ?a"
    by (rule offer_reach_agent [OF packed_reach [OF sample_settings zero_less_one bs]])
      (simp add: sample_agent_env_def default_settings_def)
  moreover have "agent_step sample_agent_env ?a ?b"
    by (rule Write) (simp_all add: packed_def on_connect_defs chan_recv_def)
  ultimately have r: "agent_reach sample_agent_env ?b" by (rule agent_reach_step)
  have w: "wire ?b = [bs]" by (simp add: packed_def on_connect_defs)
  from client_gets_frames_in_order [OF r] have "\<exists>rest. frames sample_agent_env (offered ?b) = [bs] @ rest"
    unfolding w .
  with r w show ?thesis by blast
qed

text \<open>
  C27: When the writer has ended, the session is out of the directory, the connection is
  closed and the agent refuses messages as soon as its own call of \<open>Close\<close> is through;
  \<open>chDie\<close> is closed too.
\<close>

theorem ended_connection_is_clean:
  assumes "agent_reach E a" and "writer_pc a = WrDone" and "closers a = []"
  shows "gone E a \<and> \<not> conn_open a \<and> state a = AgentClosed \<and> chDie a \<and>
    sendPending limit c m a = Some a"
  using end_inv_reach [OF assms(1)] close_inv_reach [OF assms(1)] assms(2,3)
  by (auto simp: end_inv_def closing_inv_def close_inv_def sendPending_defs split: if_splits)

theorem ended_connection_is_clean_witness:
  "GetAgent ''s1'' dir_in = Some 1 \<and> gone sample_agent_env (ending WrDone True [] 3 dir_out False True)"
proof
  have "writer_pc (ending WrDone True [] 3 dir_out False True) = WrDone"
    "closers (ending WrDone True [] 3 dir_out False True) = []"
    by (simp_all add: ending_def)
  from ended_connection_is_clean [OF ended_reach this]
  show "gone sample_agent_env (ending WrDone True [] 3 dir_out False True)" by (rule conjunct1)
  show "GetAgent ''s1'' dir_in = Some 1"
    by (simp add: dir_in_def GetAgent_def frame_simps NewAgents_def agent_SID_def
        sample_sessions_def)
qed

text \<open>
  C40: The writer can block on itself. It sends packed frames into \<open>chWrite\<close>, which only it
  empties; one message more than the backlog, packed before any frame is written, and it
  waits for good. From there the connection is never closed, whatever the client, the ticker
  or callers of \<open>Close\<close> do.
\<close>

theorem writer_blocks_on_itself:
  assumes "settings_ok (aset E)" and "pack_frame E cm = Some (Inr bs)"
  shows "\<exists>a. agent_reach E a \<and>
    (\<forall>b. (agent_step E)\<^sup>*\<^sup>* a b \<longrightarrow> writer_pc b = WrSend bs \<and> conn_open b)"
  using offer_reach_agent [OF blocked_stuck(1) [OF assms(1) zero_less_one assms(2)]]
    blocked_stuck(2) [OF assms(1) zero_less_one assms(2)] stuck_forever unfolding stuck_def by blast

theorem writer_blocks_on_itself_witness:
  "\<exists>bs a. agent_reach sample_agent_env a \<and>
    (\<forall>b. (agent_step sample_agent_env)\<^sup>*\<^sup>* a b \<longrightarrow> writer_pc b = WrSend bs \<and> conn_open b)"
  using sample_pack writer_blocks_on_itself [OF sample_settings] by metis

text \<open>
  The test of one tick. If \<open>lastAt\<close> was set at time \<open>L\<close>, which happens only after a forwarded
  message, and the writer takes every tick of the ticker, no tick within one period after \<open>L\<close>
  passes the test, and one at most two periods and a second after \<open>L\<close> does.
\<close>

lemma heartbeat_bounds:
  assumes "settings_ok cfg" and "hb = heartbeatTime cfg" and "t0 \<le> L"
  shows "(\<forall>k. t0 + k * hb \<le> L + hb \<longrightarrow> \<not> heartbeat_expired hb (t0 + k * hb) (L div 1000000000)) \<and>
    (\<exists>k \<ge> 1. t0 + k * hb \<le> L + 2 * hb + 1000000000 \<and>
       heartbeat_expired hb (t0 + k * hb) (L div 1000000000))"
proof (intro conjI allI impI)
  fix k
  assume "t0 + k * hb \<le> L + hb"
  then have "(t0 + k * hb - hb) div 1000000000 \<le> L div 1000000000" by (intro zdiv_mono1) simp_all
  then show "\<not> heartbeat_expired hb (t0 + k * hb) (L div 1000000000)"
    by (simp add: heartbeat_expired_def)
next
  have hb: "0 < hb" using assms(1,2) by (simp add: settings_ok_def)
  define d where "d = L + hb + 1000000000 - t0"
  define k where "k = (d + hb - 1) div hb"
  have "k * hb = d + hb - 1 - (d + hb - 1) mod hb"
    unfolding k_def by (simp add: minus_mod_eq_div_mult)
  moreover have "0 \<le> (d + hb - 1) mod hb" "(d + hb - 1) mod hb < hb" using hb by simp_all
  ultimately have k: "d \<le> k * hb" "k * hb < d + hb" by linarith+
  have "0 < k * hb" using k(1) assms(3) hb by (simp add: d_def)
  then have "1 \<le> k" using hb by (simp add: zero_less_mult_iff)
  moreover have "t0 + k * hb \<le> L + 2 * hb + 1000000000" using k(2) by (simp add: d_def)
  moreover have "(L + 1000000000) div 1000000000 \<le> (t0 + k * hb - hb) div 1000000000"
    using k(1) by (intro zdiv_mono1) (simp_all add: d_def)
  then have "heartbeat_expired hb (t0 + k * hb) (L div 1000000000)"
    by (simp add: heartbeat_expired_def)
  ultimately show "\<exists>k \<ge> 1. t0 + k * hb \<le> L + 2 * hb + 1000000000 \<and>
      heartbeat_expired hb (t0 + k * hb) (L div 1000000000)" by blast
qed

text \<open>
  C22: A client cannot speak for another. Whatever header it sends, a message the gate
  forwards reads at the other end with the gate as its source, the chosen node as its target
  and the id and user of the client's own session; only the request id is the client's.
\<close>

theorem forwarded_header_is_the_gates:
  assumes "proto_ok (lib E)" and "reg_wf (lib E) (types n)"
    and "\<And>c m. Random intn entries (route_type (pbRoute g) (Route common)) = Some m \<Longrightarrow>
      SourceId c = self_id n \<Longrightarrow> TargetId c = NodeId m \<Longrightarrow> McSid c = agent_SID g a \<Longrightarrow>
      small_bodies (lib E) (c, msg)"
    and "processPacket E intn entries g a common msg n = (n', Ret True)"
  shows "\<exists>subj d c. published n' = published n @ [(subj, d)] \<and>
    ReadMessage (lib E) (types n') (d, None) = (Inr (c, msg), ([], None)) \<and>
    SourceId c = self_id n \<and> McUid c = agent_UID g a \<and> McSid c = agent_SID g a \<and>
    Mid c = Mid common \<and>
    (\<exists>m. Random intn entries (route_type (pbRoute g) (Route common)) = Some m \<and>
       TargetId c = NodeId m)"
proof -
  obtain m where m: "Random intn entries (route_type (pbRoute g) (Route common)) = Some m"
    using assms(4) by (auto simp: processPacket_def split: option.splits)
  let ?c = "common\<lparr>SourceId := self_id n, TargetId := NodeId m, McUid := agent_UID g a,
    McSid := agent_SID g a\<rparr>"
  obtain n1 data where p: "pack_in E ?c msg n = (n1, Ret (Inr data))"
    and s: "SendBytes E (NodeId m) data n1 = (n', None)"
    using assms(4) m by (auto simp: processPacket_def split: prod.splits outcome.splits sum.splits option.splits)
  obtain g' c' where pk: "PackMessage (lib E) ?c msg (types n) = (g', Ret (c', Inr data))"
    and n1: "n1 = n\<lparr>types := g'\<rparr>"
    using p by (auto simp: pack_in_def split: prod.splits outcome.splits)
  have c': "\<exists>r. c' = ?c\<lparr>Route := r\<rparr>" by (rule PackMessage_Ret [OF assms(2) pk]) blast
  have sd: "sendable (lib E) g' (c', msg) \<and> data = encode (lib E) (c', msg)"
    by (rule PackMessage_sendable [OF assms(1,2) pk assms(3) [OF m]]) (use c' in auto)
  obtain subj where n': "n' = n1\<lparr>published := published n1 @ [(subj, data)]\<rparr>"
    using s by (auto simp: SendBytes_def natsConn_Publish_def split: if_splits sum.splits option.splits)
  have "ReadMessage (lib E) (types n') (data, None) = (Inr (c', msg), ([], None))"
    using read_encode [of "lib E" g' "(c', msg)" "[]" None] sd n1 n' by simp
  then show ?thesis using c' n1 n' m by auto
qed

definition sample_forged :: MsgCommon where
  "sample_forged = \<lparr>SourceId = ''evil'', TargetId = ''g'', Mid = 5, McSid = ''other'', McUid = 1,
     Route = name_id (full_name TGtGaReqAB)\<rparr>"

definition sample_routed :: agents where
  "sample_routed = dir_in\<lparr>pbRoute := fst (route_all [(TGtGaReqAB, ''auth'')] newRouteMgr)\<rparr>"

theorem forwarded_header_is_the_gates_witness:
  "\<exists>n' subj d c. published n' = [(subj, d)] \<and>
     processPacket sample_env (\<lambda>_. 0) [(''a'', \<lparr>NodeId = ''a'', NodeType = ''auth'', Address = []\<rparr>)]
       sample_routed 1 sample_forged sample_req sample_gate = (n', Ret True) \<and>
     ReadMessage sample_lib (types n') (d, None) = (Inr (c, sample_req), ([], None)) \<and>
     SourceId c = ''g'' \<and> McSid c = ''s1'' \<and> McUid c = 0 \<and> Mid c = 5"
proof -
  let ?m = "\<lparr>NodeId = ''a'', NodeType = ''auth'', Address = []\<rparr>"
  have R: "Random (\<lambda>_. 0) [(''a'', ?m)] (route_type (pbRoute sample_routed) (Route sample_forged)) = Some ?m"
    by (simp add: Random_def sample_routed_def route_all_def addRoute_def newRouteMgr_def
        route_type_def sample_forged_def del: full_name.simps)
  have k: "agent_SID sample_routed 1 = ''s1''" "agent_UID sample_routed 1 = 0" "self_id sample_gate = ''g''"
    "published sample_gate = []"
    by (simp_all add: sample_routed_def dir_in_def BindSID_def NewAgents_def agent_SID_def
        agent_UID_def sample_sessions_def sample_node_defs)
  let ?c = "sample_forged\<lparr>SourceId := ''g'', TargetId := ''a'', McUid := 0, McSid := ''s1''\<rparr>"
  have tf: "type_free sample_env sample_req sample_gate"
    using sample_ids by (auto simp: type_free_def sample_types sample_req_def simp del: full_name.simps)
  have wf: "reg_wf (lib sample_env) (types sample_gate)" using sample_wf by (simp add: handlers_wf_def)
  obtain g d where p: "pack_in sample_env ?c sample_req sample_gate = (sample_gate\<lparr>types := g\<rparr>, Ret (Inr d))"
    by (rule pack_in_ok [OF _ wf tf, of ?c])
      (auto simp: proto_ok_sample fits_def sample_req_def length_enc_common sample_forged_def)
  have "GetType (members sample_gate) ''a'' = Inr ''auth''" "running sample_gate"
    by (simp_all add: sample_node_defs GetType_def GetMember_def)
  then obtain n' where r: "processPacket sample_env (\<lambda>_. 0) [(''a'', ?m)] sample_routed 1 sample_forged
      sample_req sample_gate = (n', Ret True)"
    using p SendBytes_ok [of "sample_gate\<lparr>types := g\<rparr>" "''a''" "''auth''" sample_env d]
    by (simp add: processPacket_def R k k [unfolded One_nat_def])
  have small: "small_bodies (lib sample_env) (c, sample_req)"
    if "SourceId c = ''g''" "TargetId c = ''a''" "McSid c = ''s1''" for c
    using that by (simp add: small_bodies_def sample_req_def length_enc_common)
  have sm: "small_bodies (lib sample_env) (c, sample_req)"
    if "Random (\<lambda>_. 0) [(''a'', ?m)] (route_type (pbRoute sample_routed) (Route sample_forged)) = Some m"
      "SourceId c = self_id sample_gate" "TargetId c = NodeId m" "McSid c = agent_SID sample_routed 1"
    for c m
  proof (rule small)
    have "m = ?m" using that(1) unfolding R by (rule option.inject [THEN iffD1, THEN sym])
    then show "TargetId c = ''a''" using that(3) by simp
  qed (use that(2,4) k in simp_all)
  have ok: "proto_ok (lib sample_env)" by (simp add: proto_ok_sample)
  have "\<exists>subj d c. published n' = published sample_gate @ [(subj, d)] \<and>
      ReadMessage (lib sample_env) (types n') (d, None) = (Inr (c, sample_req), ([], None)) \<and>
      SourceId c = self_id sample_gate \<and> McUid c = agent_UID sample_routed 1 \<and>
      McSid c = agent_SID sample_routed 1 \<and> Mid c = Mid sample_forged \<and>
      (\<exists>m. Random (\<lambda>_. 0) [(''a'', ?m)] (route_type (pbRoute sample_routed) (Route sample_forged)) = Some m \<and>
         TargetId c = NodeId m)"
    by (rule forwarded_header_is_the_gates [OF ok wf _ r]) (rule sm)
  then have "\<exists>subj d c. published n' = [(subj, d)] \<and>
      ReadMessage sample_lib (types n') (d, None) = (Inr (c, sample_req), ([], None)) \<and>
      SourceId c = ''g'' \<and> McSid c = ''s1'' \<and> McUid c = 0 \<and> Mid c = 5"
    unfolding k by (auto simp: sample_forged_def simp del: full_name.simps)
  with r show ?thesis by blast
qed

end
