(* ===== verification/Connector.thy ===== *)
theory Connector
  imports Packet Channel
begin

text \<open>
  \<^verbatim>\<open>framework/pkg/connector\<close>: options, the connector that hands accepted connections to a
  function, its TCP and websocket forms, and the websocket connection as a byte stream.
  Listening and accepting are calls of the standard library, websocket frames of the
  gorilla library; their outcomes are parameters. \<open>'n\<close> stands for connections.
\<close>

section \<open>Options\<close>

record Options =
  address :: string
  certFile :: string
  keyFile :: string
  chanSize :: int

definition WithCert :: "string \<Rightarrow> string \<Rightarrow> Options \<Rightarrow> Options" where
  "WithCert cert key opts =
     (if cert \<noteq> [] \<and> key \<noteq> [] then opts\<lparr>certFile := cert, keyFile := key\<rparr> else opts)"

definition WithChanSize :: "int \<Rightarrow> Options \<Rightarrow> Options" where
  "WithChanSize sz opts = (if sz > 1 then opts\<lparr>chanSize := sz\<rparr> else opts)"

section \<open>The connector\<close>

record ('n, 'f) connector =
  listening :: bool
  onConnectFunc :: "'f option"
  connChan :: "'n chan"
  con_running :: bool

definition NewConnector :: "int \<Rightarrow> ('n, 'f) connector" where
  "NewConnector sz =
     \<lparr>listening = False, onConnectFunc = None, connChan = make_chan (nat sz), con_running = True\<rparr>"

definition OnConnect :: "'f option \<Rightarrow> ('n, 'f) connector \<Rightarrow> ('n, 'f) connector" where
  "OnConnect fn p = (case fn of None \<Rightarrow> p | Some f \<Rightarrow> p\<lparr>onConnectFunc := Some f\<rparr>)"

text \<open>\<open>None\<close> while the channel is full.\<close>

definition InChan :: "'n \<Rightarrow> ('n, 'f) connector \<Rightarrow> ('n, 'f) connector option" where
  "InChan conn p =
     (case chan_send conn (connChan p) of Sent c \<Rightarrow> Some (p\<lparr>connChan := c\<rparr>) | _ \<Rightarrow> None)"

text \<open>\<open>Start\<close> spawns the goroutine whose turns are \<open>connect_turn\<close>.\<close>

definition Connector_Start :: "(('n, 'f) connector, unit) proc" where
  "Connector_Start p =
     (case onConnectFunc p of None \<Rightarrow> (p, Panic ''onConnectFunc is nil.'') | Some _ \<Rightarrow> (p, Ret ()))"

definition connect_turn ::
    "('f \<Rightarrow> 'n \<Rightarrow> 'w \<Rightarrow> 'w) \<Rightarrow> ('n, 'f) connector \<times> 'w \<Rightarrow> (('n, 'f) connector \<times> 'w) option" where
  "connect_turn call pw =
     (case (chan_recv (connChan (fst pw)), onConnectFunc (fst pw)) of
        (Received conn c, Some f) \<Rightarrow> Some ((fst pw)\<lparr>connChan := c\<rparr>, call f conn (snd pw))
      | _ \<Rightarrow> None)"

text \<open>An error of the listener's \<open>Close\<close> is logged; without a listener the call panics.\<close>

definition Connector_Stop :: "(('n, 'f) connector, unit) proc" where
  "Connector_Stop p =
     (p\<lparr>con_running := False\<rparr>,
      if listening p then Ret ()
      else Panic ''runtime error: invalid memory address or nil pointer dereference'')"

definition Connector_Running :: "('n, 'f) connector \<Rightarrow> bool" where
  "Connector_Running p = con_running p"

text \<open>
  \<open>listen\<close> is \<open>net.Listen\<close>, \<open>load\<close> and \<open>listen_tls\<close> the pair and the listener of
  TLS. A certificate that does not load ends the process.
\<close>

definition GetListener ::
    "(string \<Rightarrow> error option) \<Rightarrow> (string \<Rightarrow> string \<Rightarrow> error option) \<Rightarrow> (string \<Rightarrow> error option) \<Rightarrow>
     string \<Rightarrow> string \<Rightarrow> string \<Rightarrow> (('n, 'f) connector, error option) proc" where
  "GetListener listen load listen_tls cert key addr p =
     (let with_result = (\<lambda>e. (p\<lparr>listening := (e = None)\<rparr>, Ret e))
      in if cert = [] \<or> key = [] then with_result (listen addr)
         else case load cert key of
                Some e \<Rightarrow> (p, Exit (err_text e))
              | None \<Rightarrow> with_result (listen_tls addr))"

section \<open>TCP and websocket\<close>

record ('n, 'f) net_connector =
  con :: "('n, 'f) connector"
  opts :: Options

definition tcp_Name :: string where "tcp_Name = ''tcp_connector''"
definition ws_Name :: string where "ws_Name = ''websocket_connector''"

definition new_net_connector :: "string \<Rightarrow> (Options \<Rightarrow> Options) list \<Rightarrow> ('n, 'f) net_connector option" where
  "new_net_connector addr os =
     (if addr = [] then None
      else let o1 = fold (\<lambda>f x. f x) os
                 \<lparr>address = addr, certFile = [], keyFile = [], chanSize = 256\<rparr>
           in Some \<lparr>con = NewConnector (chanSize o1), opts = o1\<rparr>)"

definition NewTCP :: "string \<Rightarrow> (Options \<Rightarrow> Options) list \<Rightarrow> ('n, 'f) net_connector option" where
  "NewTCP = new_net_connector"

text \<open>What \<open>Start\<close> of both does before it serves: a failing listener ends the process.\<close>

definition net_start ::
    "(string \<Rightarrow> error option) \<Rightarrow> (string \<Rightarrow> string \<Rightarrow> error option) \<Rightarrow> (string \<Rightarrow> error option) \<Rightarrow>
     (('n, 'f) net_connector, unit) proc" where
  "net_start listen load listen_tls t =
     (case GetListener listen load listen_tls (certFile (opts t)) (keyFile (opts t)) (address (opts t)) (con t) of
        (c, Ret (Some e)) \<Rightarrow> (t\<lparr>con := c\<rparr>, Exit (err_text e))
      | (c, Ret None) \<Rightarrow> (case Connector_Start c of (c', r) \<Rightarrow> (t\<lparr>con := c'\<rparr>, r))
      | (c, Panic m) \<Rightarrow> (t\<lparr>con := c\<rparr>, Panic m)
      | (c, Exit m) \<Rightarrow> (t\<lparr>con := c\<rparr>, Exit m))"

text \<open>
  The accept loop: while running, an accepted connection goes to the channel, an error is
  logged and the loop goes on. \<open>None\<close> where it waits for room in the channel.
\<close>

fun tcp_accept :: "'n result list \<Rightarrow> ('n, 'f) connector \<Rightarrow> ('n, 'f) connector option" where
  "tcp_accept [] p = Some p"
| "tcp_accept (r # rs) p =
     (if \<not> con_running p then Some p
      else case r of
             Inl e \<Rightarrow> tcp_accept rs p
           | Inr conn \<Rightarrow> Option.bind (InChan conn p) (tcp_accept rs))"

text \<open>\<open>ServeHTTP\<close>: a failed upgrade is logged.\<close>

definition ServeHTTP :: "'n result \<Rightarrow> ('n, 'f) connector \<Rightarrow> ('n, 'f) connector option" where
  "ServeHTTP upgraded p = (case upgraded of Inl e \<Rightarrow> Some p | Inr conn \<Rightarrow> InChan conn p)"

definition net_stop :: "(('n, 'f) net_connector, unit) proc" where
  "net_stop t = (case Connector_Stop (con t) of (c, r) \<Rightarrow> (t\<lparr>con := c\<rparr>, r))"

text \<open>
  The websocket connector has an upgrader beside the connector; the requests that
  \<open>http.Serve\<close> answers once it has started are the calls of \<open>ServeHTTP\<close>.
\<close>

record Upgrader =
  ReadBufferSize :: int
  WriteBufferSize :: int
  CheckOrigin :: "string \<Rightarrow> bool"

record ('n, 'f) ws_connector =
  ws_net :: "('n, 'f) net_connector"
  ws_upgrade :: Upgrader

text \<open>A new one takes requests from everywhere; a request is its URI.\<close>

definition NewWS :: "string \<Rightarrow> (Options \<Rightarrow> Options) list \<Rightarrow> ('n, 'f) ws_connector option" where
  "NewWS addr os =
     map_option (\<lambda>t. \<lparr>ws_net = t,
         ws_upgrade = \<lparr>ReadBufferSize = 1024, WriteBufferSize = 1024, CheckOrigin = (\<lambda>_. True)\<rparr>\<rparr>)
       (new_net_connector addr os)"

definition WS_Start ::
    "(string \<Rightarrow> error option) \<Rightarrow> (string \<Rightarrow> string \<Rightarrow> error option) \<Rightarrow> (string \<Rightarrow> error option) \<Rightarrow>
     (('n, 'f) ws_connector, unit) proc" where
  "WS_Start listen load listen_tls w =
     (case net_start listen load listen_tls (ws_net w) of (t, r) \<Rightarrow> (w\<lparr>ws_net := t\<rparr>, r))"

definition WS_Stop :: "(('n, 'f) ws_connector, unit) proc" where
  "WS_Stop w = (case net_stop (ws_net w) of (t, r) \<Rightarrow> (w\<lparr>ws_net := t\<rparr>, r))"

definition WS_OnStop :: "(('n, 'f) ws_connector, unit) proc" where
  "WS_OnStop = WS_Stop"

definition SetUpgrade :: "Upgrader option \<Rightarrow> ('n, 'f) ws_connector \<Rightarrow> ('n, 'f) ws_connector" where
  "SetUpgrade upgrade w = (case upgrade of None \<Rightarrow> w | Some u \<Rightarrow> w\<lparr>ws_upgrade := u\<rparr>)"

text \<open>
  A start that gets as far as serving has a listener and a function for its connections, so
  that stopping it afterwards does not panic; before it the stop panics.
\<close>

theorem WS_Start_then_Stop:
  assumes "WS_Start listen load listen_tls w = (w', Ret ())"
  shows "snd (WS_OnStop w') = Ret () \<and> onConnectFunc (con (ws_net w')) \<noteq> None \<and>
    \<not> con_running (con (ws_net (fst (WS_OnStop w'))))"
  using assms
  by (auto simp: WS_Start_def WS_OnStop_def WS_Stop_def net_start_def net_stop_def GetListener_def
      Connector_Start_def Connector_Stop_def Let_def
      split: prod.splits outcome.splits option.splits if_splits)

section \<open>The websocket connection as a stream\<close>

text \<open>
  \<open>incoming\<close> holds the messages not yet opened and \<open>final\<close> what \<open>NextReader\<close> reports
  after the last one (\<open>None\<close> for \<open>io.EOF\<close>). The reader of one message is a parameter:
  how many of its remaining bytes a \<open>Read\<close> delivers, and its status.
\<close>

datatype read_status = RdOk | RdEOF | RdErr error

record ws_conn =
  cur :: "bytes option"
  frame_typ :: int
  incoming :: "(int \<times> bytes) list"
  final :: "error option"

datatype read_end = More | End "error option"

definition NewWSConn :: "(int \<times> bytes) list \<Rightarrow> error option \<Rightarrow> ws_conn" where
  "NewWSConn msgs e = \<lparr>cur = None, frame_typ = 0, incoming = msgs, final = e\<rparr>"

definition read_cur :: "(bytes \<Rightarrow> nat \<Rightarrow> nat \<times> read_status) \<Rightarrow> nat \<Rightarrow> bytes \<Rightarrow> ws_conn \<Rightarrow>
    ws_conn \<times> bytes \<times> read_end" where
  "read_cur rdr sz rest c =
     (case rdr rest sz of
        (n, st) \<Rightarrow>
          let c' = c\<lparr>cur := Some (drop n rest)\<rparr>
          in case st of
               RdErr e \<Rightarrow> (c', take n rest, End (Some e))
             | RdOk \<Rightarrow> (c', take n rest, More)
             | RdEOF \<Rightarrow>
                 (case incoming c' of
                    [] \<Rightarrow> (c', [], End (final c'))
                  | (t, m) # ms \<Rightarrow> (c'\<lparr>cur := Some m, incoming := ms\<rparr>, take n rest, More)))"

definition WSConn_Read :: "(bytes \<Rightarrow> nat \<Rightarrow> nat \<times> read_status) \<Rightarrow> nat \<Rightarrow> ws_conn \<Rightarrow>
    ws_conn \<times> bytes \<times> read_end" where
  "WSConn_Read rdr sz c =
     (case cur c of
        Some rest \<Rightarrow> read_cur rdr sz rest c
      | None \<Rightarrow>
          (case incoming c of
             [] \<Rightarrow> (c, [], End (final c))
           | (t, m) # ms \<Rightarrow> read_cur rdr sz m (c\<lparr>frame_typ := t, cur := Some m, incoming := ms\<rparr>)))"

text \<open>\<open>Write\<close> sends one binary message; all bytes are written or none.\<close>

definition WSConn_Write :: "error option \<Rightarrow> bytes \<Rightarrow> bytes list \<Rightarrow> bytes list \<times> nat \<times> error option" where
  "WSConn_Write write_error b sent =
     (case write_error of
        Some e \<Rightarrow> (sent, 0, Some e)
      | None \<Rightarrow> (sent @ [b], length b, None))"

definition SetDeadline ::
    "('t \<Rightarrow> error option) \<Rightarrow> ('t \<Rightarrow> error option) \<Rightarrow> 't \<Rightarrow> error option" where
  "SetDeadline set_read set_write t =
     (case set_read t of Some err \<Rightarrow> Some err | None \<Rightarrow> set_write t)"

text \<open>
  What the gorilla reader documents: it delivers some bytes of its message while there are
  any, and end-of-file, with no bytes, when there are none.
\<close>

definition ws_reader_ok :: "(bytes \<Rightarrow> nat \<Rightarrow> nat \<times> read_status) \<Rightarrow> bool" where
  "ws_reader_ok rdr \<longleftrightarrow>
     (\<forall>rest sz. 0 < sz \<longrightarrow>
        (case rdr rest sz of
           (n, st) \<Rightarrow> n \<le> sz \<and> n \<le> length rest \<and>
             (if rest = [] then st = RdEOF else st = RdOk \<and> 0 < n)))"

text \<open>
  \<open>io.ReadAll(io.LimitReader(c, n))\<close>: reads into the space it has, \<open>room\<close>, until \<open>n\<close>
  bytes are there or the stream ends. \<open>None\<close> when the fuel is used up.
\<close>

fun ws_ReadAll :: "(bytes \<Rightarrow> nat \<Rightarrow> nat \<times> read_status) \<Rightarrow> (nat \<Rightarrow> nat) \<Rightarrow> nat \<Rightarrow> nat \<Rightarrow> bytes \<Rightarrow> ws_conn \<Rightarrow>
    (bytes result \<times> ws_conn) option" where
  "ws_ReadAll rdr room 0 n got c = None"
| "ws_ReadAll rdr room (Suc fuel) n got c =
     (if n = 0 then Some (Inr got, c)
      else case WSConn_Read rdr (room n) c of
             (c', data, More) \<Rightarrow> ws_ReadAll rdr room fuel (n - length data) (got @ data) c'
           | (c', data, End None) \<Rightarrow> Some (Inr (got @ data), c')
           | (c', data, End (Some e)) \<Rightarrow> Some (Inl e, c'))"

definition room_ok :: "(nat \<Rightarrow> nat) \<Rightarrow> bool" where
  "room_ok room \<longleftrightarrow> (\<forall>k > 0. 0 < room k \<and> room k \<le> k)"

text \<open>The bytes still to come, and a bound on the reads that they take.\<close>

definition stream :: "ws_conn \<Rightarrow> bytes" where
  "stream c = (case cur c of None \<Rightarrow> [] | Some r \<Rightarrow> r) @ concat (map snd (incoming c))"

definition ws_work :: "ws_conn \<Rightarrow> nat" where
  "ws_work c = length (stream c) + length (incoming c)"

lemma read_cur_step:
  assumes "ws_reader_ok rdr" and "0 < sz" and "cur c = Some rest"
  shows "(\<exists>data c'. read_cur rdr sz rest c = (c', data, More) \<and> stream c = data @ stream c' \<and>
        length data \<le> sz \<and> final c' = final c \<and> ws_work c' < ws_work c)
    \<or> (read_cur rdr sz rest c = (c, [], End (final c)) \<and> stream c = [])"
proof -
  obtain n st where r: "rdr rest sz = (n, st)" by (cases "rdr rest sz")
  have ok: "n \<le> sz" "n \<le> length rest" "if rest = [] then st = RdEOF else st = RdOk \<and> 0 < n"
    using assms(1,2) r unfolding ws_reader_ok_def by (metis (mono_tags, lifting) case_prod_conv)+
  have same: "c\<lparr>cur := Some rest\<rparr> = c" using assms(3) by (cases c) simp
  show ?thesis
  proof (cases "rest = []")
    case False
    then show ?thesis using ok r assms(3)
      by (auto simp: read_cur_def stream_def ws_work_def)
  next
    case True
    then show ?thesis using ok r assms(3) same
      by (cases "incoming c") (auto simp: read_cur_def stream_def ws_work_def)
  qed
qed

lemma WSConn_Read_step:
  assumes "ws_reader_ok rdr" and "0 < sz"
  shows "(\<exists>data c'. WSConn_Read rdr sz c = (c', data, More) \<and> stream c = data @ stream c' \<and>
        length data \<le> sz \<and> final c' = final c \<and> ws_work c' < ws_work c)
    \<or> (\<exists>c'. WSConn_Read rdr sz c = (c', [], End (final c)) \<and> stream c = [] \<and> stream c' = [] \<and>
        final c' = final c)"
proof (cases "cur c")
  case (Some rest)
  then show ?thesis using read_cur_step [OF assms Some] by (auto simp: WSConn_Read_def)
next
  case None
  show ?thesis
  proof (cases "incoming c")
    case Nil
    then show ?thesis using None by (simp add: WSConn_Read_def stream_def)
  next
    case (Cons x ms)
    obtain t m where x: "x = (t, m)" by (cases x)
    let ?c = "c\<lparr>frame_typ := t, cur := Some m, incoming := ms\<rparr>"
    have s: "stream ?c = stream c" "ws_work ?c < ws_work c" "final ?c = final c"
      using None Cons x by (simp_all add: stream_def ws_work_def)
    have rd: "WSConn_Read rdr sz c = read_cur rdr sz m ?c"
      using None Cons x by (simp add: WSConn_Read_def)
    show ?thesis unfolding rd
      using read_cur_step [OF assms, of ?c m] s by fastforce
  qed
qed

lemma ws_ReadAll_spec:
  assumes "ws_reader_ok rdr" and "room_ok room"
  shows "ws_work c < fuel \<Longrightarrow>
    \<exists>c' r. ws_ReadAll rdr room fuel n got c = Some (r, c') \<and>
      (case ReadAll_Limit n (stream c, final c) of
         (Inr data, (rest, e)) \<Rightarrow> r = Inr (got @ data) \<and> stream c' = rest \<and> final c' = e
       | (Inl e, (rest, e')) \<Rightarrow> r = Inl e \<and> stream c' = rest \<and> final c' = e')"
proof (induction fuel arbitrary: n got c)
  case (Suc fuel)
  show ?case
  proof (cases "n = 0")
    case False
    then have room: "0 < room n" "room n \<le> n" using assms(2) by (auto simp: room_ok_def)
    from WSConn_Read_step [OF assms(1) room(1), of c] show ?thesis
    proof (elim disjE exE conjE)
      fix data c1
      assume rd: "WSConn_Read rdr (room n) c = (c1, data, More)" and st: "stream c = data @ stream c1"
        and len: "length data \<le> room n" and fin: "final c1 = final c" and w: "ws_work c1 < ws_work c"
      have "ws_work c1 < fuel" using w Suc.prems by simp
      from Suc.IH [OF this, of "n - length data" "got @ data"] show ?thesis
        using False rd st len fin room
        by (auto split: sum.splits option.splits if_splits)
    next
      fix c1
      assume rd: "WSConn_Read rdr (room n) c = (c1, [], End (final c))" and st: "stream c = []"
        "stream c1 = []" "final c1 = final c"
      then show ?thesis using False by (cases "final c") auto
    qed
  qed simp
qed simp

section \<open>Properties\<close>

text \<open>
  A websocket connection is read like a byte stream. However its frames cut the bytes,
  and however the reader hands them out, reading up to \<open>n\<close> bytes returns, gives what
  reading from the concatenation of the messages gives, and leaves the rest of it.
\<close>

theorem websocket_reads_as_stream:
  assumes "ws_reader_ok rdr" and "room_ok room"
  shows "\<exists>c' r. ws_ReadAll rdr room (Suc (ws_work c)) n [] c = Some (r, c') \<and>
    ReadAll_Limit n (stream c, final c) = (r, (stream c', final c'))"
proof -
  obtain c' r where
    "ws_ReadAll rdr room (Suc (ws_work c)) n [] c = Some (r, c')"
    "case ReadAll_Limit n (stream c, final c) of
         (Inr data, (rest, e)) \<Rightarrow> r = Inr ([] @ data) \<and> stream c' = rest \<and> final c' = e
       | (Inl e, (rest, e')) \<Rightarrow> r = Inl e \<and> stream c' = rest \<and> final c' = e'"
    using ws_ReadAll_spec [OF assms, of c "Suc (ws_work c)" n "[]"] by auto
  then show ?thesis by (auto split: prod.splits sum.splits simp del: ReadAll_Limit.simps)
qed

definition sample_rdr :: "bytes \<Rightarrow> nat \<Rightarrow> nat \<times> read_status" where
  "sample_rdr rest sz = (if rest = [] then (0, RdEOF) else (1, RdOk))"

theorem websocket_reads_as_stream_witness:
  "\<exists>c' r. ws_ReadAll sample_rdr (\<lambda>k. k) 8 3 [] (NewWSConn [(2, [1, 2]), (2, []), (2, [3, 4])] None) = Some (r, c') \<and>
     r = Inr [1, 2, 3] \<and> stream c' = [4]"
proof -
  have "ws_reader_ok sample_rdr"
    by (auto simp: ws_reader_ok_def sample_rdr_def Suc_le_eq)
  moreover have "room_ok (\<lambda>k. k)" by (simp add: room_ok_def)
  ultimately obtain c' r where r:
      "ws_ReadAll sample_rdr (\<lambda>k. k) (Suc (ws_work (NewWSConn [(2, [1, 2]), (2, []), (2, [3, 4])] None))) 3 []
        (NewWSConn [(2, [1, 2]), (2, []), (2, [3, 4])] None) = Some (r, c')"
      "ReadAll_Limit 3 (stream (NewWSConn [(2, [1, 2]), (2, []), (2, [3, 4])] None),
        final (NewWSConn [(2, [1, 2]), (2, []), (2, [3, 4])] None)) = (r, (stream c', final c'))"
    using websocket_reads_as_stream by blast
  have "Suc (ws_work (NewWSConn [(2, [1, 2]), (2, []), (2, [3, 4])] None)) = 8"
    by (simp add: NewWSConn_def stream_def ws_work_def)
  moreover have "r = Inr [1, 2, 3] \<and> stream c' = [4]"
    using r(2) by (simp add: NewWSConn_def stream_def)
  ultimately show ?thesis using r(1) by metis
qed

text \<open>
  Connections are handed on in the order they were accepted; failed accepts are skipped,
  and nothing is accepted after \<open>Stop\<close>.
\<close>

theorem accepted_in_order:
  "tcp_accept rs p = Some p' \<Longrightarrow>
   buf (connChan p') = buf (connChan p) @ (if con_running p then [c. Inr c \<leftarrow> rs] else [])"
proof (induction rs arbitrary: p)
  case (Cons r rs)
  show ?case
  proof (cases "con_running p \<and> (\<exists>c. r = Inr c)")
    case True
    then obtain c p1 where r: "r = Inr c" "InChan c p = Some p1" "tcp_accept rs p1 = Some p'"
      using Cons.prems by (auto simp: bind_eq_Some_conv)
    then have "buf (connChan p1) = buf (connChan p) @ [c]" "con_running p1 = con_running p"
      by (auto simp: InChan_def chan_simps split: chan_send.splits)
    then show ?thesis using Cons.IH [OF r(3)] r(1) True by simp
  next
    case False
    then show ?thesis using Cons by (auto split: sum.splits if_splits)
  qed
qed simp

theorem accepted_in_order_witness:
  "\<exists>p' :: (nat, unit) connector. tcp_accept [Inr 1, Inl (Err ''reset''), Inr 2] (NewConnector 4) = Some p' \<and>
     buf (connChan p') = [1, 2]"
proof -
  obtain p' :: "(nat, unit) connector" where
    p: "tcp_accept [Inr 1, Inl (Err ''reset''), Inr 2] (NewConnector 4) = Some p'"
    by (simp add: NewConnector_def InChan_def chan_send_def)
  from accepted_in_order [OF p] show ?thesis using p by (auto simp: NewConnector_def)
qed

end
