(* ===== verification/Etcd.thy ===== *)
theory Etcd
  imports Discovery
begin

text \<open>
  \<^verbatim>\<open>framework/pkg/discovery/discovery_etcd.go\<close> and \<^verbatim>\<open>component.go\<close>: registration of a
  node in etcd, the watch that keeps the member table in step, and the component around
  them. The etcd client is outside the repository: the model records the requests made to it
  and takes its replies as the argument \<open>etcd_replies\<close>. How \<open>encoding/json\<close> reads and
  writes a \<open>pb.Member\<close> through its generated struct tags is the argument \<open>json\<close>. The
  goroutine that \<open>getLeaseId\<close> starts waits for the end of the application only; its turns
  are here, its part in the shutdown is with the application.
\<close>

section \<open>State\<close>

record app_info =
  ai_NodeId :: string
  ai_NodeType :: string
  ai_Project :: string
  ai_Endpoints :: "string list"

record json =
  json_Marshal :: "Member \<Rightarrow> bytes result"
  json_Unmarshal :: "bytes \<Rightarrow> Member result"

datatype etcd_request =
    ReqNew "string list"
  | ReqNamespace string
  | ReqGrant int
  | ReqKeepAlive int
  | ReqPut string bytes int
  | ReqGetPrefix string
  | ReqWatchPrefix string
  | ReqDelete string
  | ReqClose

record etcd_replies =
  new_err :: "error option"
  grant :: "int result"
  keepalive_err :: "error option"
  put_err :: "error option"
  get_kvs :: "(string \<times> bytes) list result"

text \<open>The struct \<open>ETCD\<close>, with the two package variables that \<open>Load\<close> sets.\<close>

record 'l etcd =
  base :: "'l discovery"
  app :: app_info
  prefix :: string
  endpoints :: "string list"
  ttl :: int
  leaseID :: int
  keyPrefix :: string
  registerKeyFormat :: string
  requests :: "etcd_request list"

definition keyPrefix0 :: string where
  "keyPrefix0 = ''/xgame/node/''"

definition registerKeyFormat0 :: string where
  "registerKeyFormat0 = keyPrefix0 @ ''%s''"

text \<open>The application of an \<open>ETCD\<close> is nil until \<open>Load\<close> sets it, which is what runs first.\<close>

definition nil_app :: app_info where
  "nil_app = \<lparr>ai_NodeId = [], ai_NodeType = [], ai_Project = [], ai_Endpoints = []\<rparr>"

definition NewDiscoveryETCD :: "'l etcd" where
  "NewDiscoveryETCD =
     \<lparr>base = empty_discovery, app = nil_app, prefix = [], endpoints = [], ttl = 0, leaseID = 0,
      keyPrefix = keyPrefix0, registerKeyFormat = registerKeyFormat0, requests = []\<rparr>"

definition request :: "etcd_request \<Rightarrow> 'l etcd \<Rightarrow> 'l etcd" where
  "request q p = p\<lparr>requests := requests p @ [q]\<rparr>"

definition fatal_unless :: "error option \<Rightarrow> ('s, unit) proc" where
  "fatal_unless err s = (case err of None \<Rightarrow> (s, Ret ()) | Some e \<Rightarrow> (s, Exit (err_text e)))"

section \<open>Operations\<close>

definition etcd_init :: "etcd_replies \<Rightarrow> ('l etcd, unit) proc" where
  "etcd_init R p =
     seq_proc (fatal_unless (new_err R))
       (\<lambda>_ p. (request (ReqNamespace (prefix p)) p, Ret ()))
       (request (ReqNew (endpoints p)) p)"

definition getLeaseId :: "etcd_replies \<Rightarrow> ('l etcd, unit) proc" where
  "getLeaseId R p =
     (let p1 = request (ReqGrant (ttl p)) p
      in case grant R of
           Inl e \<Rightarrow> (p1, Exit (err_text e))
         | Inr lease \<Rightarrow>
             fatal_unless (keepalive_err R) (request (ReqKeepAlive lease) (p1\<lparr>leaseID := lease\<rparr>)))"

definition register :: "json \<Rightarrow> etcd_replies \<Rightarrow> ('l etcd, unit) proc" where
  "register J R p =
     (let registerMember =
            \<lparr>NodeId = ai_NodeId (app p), NodeType = ai_NodeType (app p), Address = []\<rparr>
      in case json_Marshal J registerMember of
           Inl e \<Rightarrow> (p, Exit (err_text e))
         | Inr jsonString \<Rightarrow>
             let key = sprintf (registerKeyFormat p) [ArgS (ai_NodeId (app p))]
             in fatal_unless (put_err R) (request (ReqPut key jsonString (leaseID p)) p))"

definition addMember :: "json \<Rightarrow> bytes \<Rightarrow> 'l etcd \<Rightarrow> 'l etcd" where
  "addMember J data p =
     (case json_Unmarshal J data of
        Inl _ \<Rightarrow> p
      | Inr member \<Rightarrow> p\<lparr>base := fst (AddMember member (base p))\<rparr>)"

definition removeMember :: "string \<Rightarrow> 'l etcd \<Rightarrow> 'l etcd" where
  "removeMember key p =
     (let nodeId = remove_all (keyPrefix p) key
      in p\<lparr>base := fst (RemoveMember nodeId (base p))\<rparr>)"

text \<open>
  \<open>watch\<close> reads what is registered, then asks for the changes; the goroutine it starts
  handles the events of each response in order.
\<close>

definition watch :: "json \<Rightarrow> etcd_replies \<Rightarrow> ('l etcd, unit) proc" where
  "watch J R p =
     (let p1 = request (ReqGetPrefix (keyPrefix p)) p
      in case get_kvs R of
           Inl e \<Rightarrow> (p1, Exit (err_text e))
         | Inr kvs \<Rightarrow>
             let p2 = fold (\<lambda>(_, value). addMember J value) kvs p1
             in (request (ReqWatchPrefix (keyPrefix p2)) p2, Ret ()))"

datatype etcd_event = EvPut string bytes | EvDelete string

fun handle_event :: "json \<Rightarrow> etcd_event \<Rightarrow> 'l etcd \<Rightarrow> 'l etcd" where
  "handle_event J (EvPut key value) p = addMember J value p"
| "handle_event J (EvDelete key) p = removeMember key p"

text \<open>The goroutine of \<open>watch\<close>: the events of the responses, one response after the other.\<close>

definition watch_loop :: "json \<Rightarrow> etcd_event list list \<Rightarrow> 'l etcd \<Rightarrow> 'l etcd" where
  "watch_loop J responses p = fold (fold (handle_event J)) responses p"

text \<open>
  The goroutine of \<open>getLeaseId\<close>, for what its two channels give it in turn: whether it is
  still running.
\<close>

datatype keepalive_input = LeaseReply | Die bool

fun keepalive_loop :: "keepalive_input list \<Rightarrow> bool" where
  "keepalive_loop [] = True"
| "keepalive_loop (LeaseReply # xs) = keepalive_loop xs"
| "keepalive_loop (Die die # xs) = (if die then False else keepalive_loop xs)"

definition Load :: "json \<Rightarrow> etcd_replies \<Rightarrow> app_info \<Rightarrow> ('l etcd, unit) proc" where
  "Load J R a p =
     (let kp = sprintf ''/%s/node/'' [ArgS (ai_Project a)];
          p1 = p\<lparr>base := PreInit (base p), app := a, ttl := 10, prefix := ai_Project a,
                 keyPrefix := kp, registerKeyFormat := kp @ ''%s'', endpoints := ai_Endpoints a\<rparr>
      in seq_proc (etcd_init R) (\<lambda>_. seq_proc (getLeaseId R) (\<lambda>_.
           seq_proc (register J R) (\<lambda>_. watch J R))) p1)"

definition ETCD_OnStop :: "'l etcd \<Rightarrow> 'l etcd" where
  "ETCD_OnStop p =
     request ReqClose (request (ReqDelete (sprintf (registerKeyFormat p) [ArgS (ai_NodeId (app p))])) p)"

text \<open>
  The interface method \<open>Stop\<close> of an \<open>ETCD\<close> is the one promoted from the embedded
  \<open>DiscoveryDefault\<close>, because \<open>ETCD\<close> declares \<open>OnStop\<close>, not \<open>Stop\<close>.
\<close>

definition ETCD_Stop :: "'l etcd \<Rightarrow> 'l etcd" where
  "ETCD_Stop p = p\<lparr>base := Discovery_Stop (base p)\<rparr>"

definition DiscoveryComponent_Init :: "json \<Rightarrow> etcd_replies \<Rightarrow> app_info \<Rightarrow> 'l etcd \<times> unit outcome" where
  "DiscoveryComponent_Init J R a = Load J R a NewDiscoveryETCD"

definition DiscoveryComponent_OnStop :: "'l etcd \<Rightarrow> 'l etcd" where
  "DiscoveryComponent_OnStop p = ETCD_Stop p"

section \<open>Keys\<close>

lemma keyPrefix_eq: "sprintf ''/%s/node/'' [ArgS s] = ''/'' @ s @ ''/node/''"
  by (simp add: fmt_verb_def)

lemma register_key:
  "CHR ''%'' \<notin> set kp \<Longrightarrow> sprintf (kp @ ''%s'') [ArgS s] = kp @ s"
  by (simp add: sprintf_append_plain fmt_verb_def)

declare sprintf.simps [simp del]

lemma node_of_key: "kp \<noteq> [] \<Longrightarrow> \<not> occurs_in kp s \<Longrightarrow> remove_all kp (kp @ s) = s"
  by (simp add: remove_all_prefix remove_all_absent)

lemma request_frame [frame_simps, simp]:
  "base (request q p) = base p" "app (request q p) = app p"
  "keyPrefix (request q p) = keyPrefix p" "registerKeyFormat (request q p) = registerKeyFormat p"
  "requests (request q p) = requests p @ [q]" "leaseID (request q p) = leaseID p"
  "ttl (request q p) = ttl p" "prefix (request q p) = prefix p"
  "endpoints (request q p) = endpoints p"
  by (simp_all add: request_def)

lemma addMember_frame [frame_simps, simp]:
  "keyPrefix (addMember J v p) = keyPrefix p" "requests (addMember J v p) = requests p"
  "registerKeyFormat (addMember J v p) = registerKeyFormat p" "app (addMember J v p) = app p"
  by (simp_all add: addMember_def split: sum.split)

lemma addMembers_frame [frame_simps, simp]:
  "keyPrefix (fold (\<lambda>(_, v). addMember J v) kvs p) = keyPrefix p"
  "requests (fold (\<lambda>(_, v). addMember J v) kvs p) = requests p"
  "registerKeyFormat (fold (\<lambda>(_, v). addMember J v) kvs p) = registerKeyFormat p"
  "app (fold (\<lambda>(_, v). addMember J v) kvs p) = app p"
  by (induction kvs arbitrary: p) (auto split: prod.split)

lemma handle_event_frame [frame_simps, simp]:
  "keyPrefix (handle_event J ev p) = keyPrefix p" "requests (handle_event J ev p) = requests p"
  by (cases ev; simp add: removeMember_def)+

section \<open>What the watcher does to the table\<close>

text \<open>The event that a change of the registered nodes makes in etcd.\<close>

fun event_of :: "json \<Rightarrow> string \<Rightarrow> change \<Rightarrow> etcd_event" where
  "event_of J kp (Joined m) =
     EvPut (kp @ NodeId m) (case json_Marshal J m of Inr b \<Rightarrow> b | Inl _ \<Rightarrow> [])"
| "event_of J kp (Left k) = EvDelete (kp @ k)"

text \<open>Members that json round-trips, ids in which the key prefix does not occur.\<close>

fun clean :: "json \<Rightarrow> string \<Rightarrow> change \<Rightarrow> bool" where
  "clean J kp (Joined m) \<longleftrightarrow> (\<exists>b. json_Marshal J m = Inr b \<and> json_Unmarshal J b = Inr m)"
| "clean J kp (Left k) \<longleftrightarrow> \<not> occurs_in kp k"

lemma handle_event_of:
  assumes "clean J (keyPrefix p) c" and "keyPrefix p \<noteq> []"
  shows "base (handle_event J (event_of J (keyPrefix p) c) p) = mem.apply_change c (base p)"
  using assms by (cases c) (auto simp: addMember_def removeMember_def node_of_key)

lemma keepalive_loop_iff: "keepalive_loop xs \<longleftrightarrow> Die True \<notin> set xs"
  by (induction xs rule: keepalive_loop.induct) auto

text \<open>How etcd batches the events into responses makes no difference.\<close>

lemma watch_loop_events: "watch_loop J responses p = fold (handle_event J) (concat responses) p"
  by (induction responses arbitrary: p) (simp_all add: watch_loop_def)

lemma handle_events_of:
  assumes "\<forall>c \<in> set cs. clean J (keyPrefix p) c" and "keyPrefix p \<noteq> []"
  shows "base (fold (handle_event J) (map (event_of J (keyPrefix p)) cs) p) =
    fold mem.apply_change cs (base p)"
  using assms
proof (induction cs arbitrary: p)
  case (Cons c cs)
  let ?p = "handle_event J (event_of J (keyPrefix p) c) p"
  have "base (fold (handle_event J) (map (event_of J (keyPrefix ?p)) cs) ?p) =
      fold mem.apply_change cs (base ?p)"
    by (rule Cons.IH) (use Cons.prems in simp_all)
  then show ?case using Cons.prems handle_event_of [of J p c] by simp
qed simp

lemma addMembers_table:
  assumes "\<forall>m \<in> set ms. clean J kp (Joined m)"
  shows "base (fold (\<lambda>(_, v). addMember J v)
      (map (\<lambda>m. (kp @ NodeId m, case json_Marshal J m of Inr b \<Rightarrow> b | Inl _ \<Rightarrow> [])) ms) p) =
    fold mem.apply_change (map Joined ms) (base p)"
  using assms by (induction ms arbitrary: p) (auto simp: addMember_def)

section \<open>Load\<close>

text \<open>The requests of a complete \<open>Load\<close>, for the lease and the json text it gets.\<close>

definition load_requests :: "app_info \<Rightarrow> int \<Rightarrow> bytes \<Rightarrow> etcd_request list" where
  "load_requests a lease js =
     (let kp = ''/'' @ ai_Project a @ ''/node/''
      in [ReqNew (ai_Endpoints a), ReqNamespace (ai_Project a), ReqGrant 10, ReqKeepAlive lease,
          ReqPut (sprintf (kp @ ''%s'') [ArgS (ai_NodeId a)]) js lease,
          ReqGetPrefix kp, ReqWatchPrefix kp])"

definition own_member :: "app_info \<Rightarrow> Member" where
  "own_member a = \<lparr>NodeId = ai_NodeId a, NodeType = ai_NodeType a, Address = []\<rparr>"

definition replies_ok :: "etcd_replies \<Rightarrow> bool" where
  "replies_ok R \<longleftrightarrow> new_err R = None \<and> (\<exists>l. grant R = Inr l) \<and> keepalive_err R = None \<and>
     put_err R = None \<and> (\<exists>kvs. get_kvs R = Inr kvs)"

definition started :: "app_info \<Rightarrow> 'l etcd \<Rightarrow> 'l etcd" where
  "started a p = p\<lparr>base := PreInit (base p), app := a, ttl := 10, prefix := ai_Project a,
     keyPrefix := ''/'' @ ai_Project a @ ''/node/'',
     registerKeyFormat := (''/'' @ ai_Project a @ ''/node/'') @ ''%s'', endpoints := ai_Endpoints a\<rparr>"

lemmas load_defs = Load_def etcd_init_def getLeaseId_def register_def watch_def fatal_unless_def
  load_requests_def own_member_def replies_ok_def started_def keyPrefix_eq

lemma Load_ok:
  assumes "new_err R = None" "grant R = Inr lease" "keepalive_err R = None" "put_err R = None"
    and "get_kvs R = Inr kvs" and "json_Marshal J (own_member a) = Inr js"
  shows "\<exists>p'. Load J R a p = (p', Ret ()) \<and> requests p' = requests p @ load_requests a lease js \<and>
    keyPrefix p' = ''/'' @ ai_Project a @ ''/node/'' \<and> app p' = a \<and>
    registerKeyFormat p' = (''/'' @ ai_Project a @ ''/node/'') @ ''%s'' \<and>
    (\<exists>q. base q = PreInit (base p) \<and> base p' = base (fold (\<lambda>(_, v). addMember J v) kvs q))"
  using assms unfolding load_defs
  by simp (rule exI, rule conjI [rotated], rule refl, simp)

lemma Load_prefix:
  "\<exists>n lease js. requests (fst (Load J R a p)) = requests p @ take n (load_requests a lease js) \<and>
    (n < 4 \<or> grant R = Inr lease) \<and> (n < 5 \<or> json_Marshal J (own_member a) = Inr js) \<and>
    (snd (Load J R a p) = Ret () \<longleftrightarrow>
       replies_ok R \<and> (\<exists>js. json_Marshal J (own_member a) = Inr js)) \<and>
    (snd (Load J R a p) = Ret () \<or> (\<exists>m. snd (Load J R a p) = Exit m))"
proof (cases "new_err R")
  case (Some e)
  then show ?thesis by (intro exI [of _ "1::nat"]) (simp add: load_defs)
next
  case new: None
  show ?thesis
  proof (cases "grant R")
    case (Inl e)
    with new show ?thesis by (intro exI [of _ "3::nat"]) (simp add: load_defs)
  next
    case (Inr l)
    note g = new Inr
    show ?thesis
    proof (cases "keepalive_err R")
      case (Some e)
      with g show ?thesis by (intro exI [of _ "4::nat"] exI [of _ l]) (simp add: load_defs)
    next
      case None
      note k = g None
      show ?thesis
      proof (cases "json_Marshal J (own_member a)")
        case (Inl e)
        with k show ?thesis by (intro exI [of _ "4::nat"] exI [of _ l]) (simp add: load_defs)
      next
        case (Inr js)
        note j = k Inr
        show ?thesis
        proof (cases "put_err R")
          case (Some e)
          with j show ?thesis
            by (intro exI [of _ "5::nat"] exI [of _ l] exI [of _ js]) (simp add: load_defs)
        next
          case None
          with j show ?thesis
            by (cases "get_kvs R";
                intro exI [of _ "if get_kvs R = Inr (projr (get_kvs R)) then 7 else (6::nat)"]
                  exI [of _ l] exI [of _ js]; simp add: load_defs)
        qed
      qed
    qed
  qed
qed

lemma Load_requests:
  "\<exists>n lease js. requests (fst (Load J R a p)) = requests p @ take n (load_requests a lease js)"
  using Load_prefix [of J R a p] by blast

lemma Load_ok_iff:
  "snd (Load J R a p) = Ret () \<longleftrightarrow>
     replies_ok R \<and> (\<exists>js. json_Marshal J (own_member a) = Inr js)"
  using Load_prefix [of J R a p] by blast

section \<open>Properties\<close>

text \<open>
  The order of registration. Whatever etcd answers, \<open>Load\<close> makes a prefix of one
  sequence of requests: it never registers the node without the lease it was granted, and it
  asks for changes only after it has registered and read the members there are. It returns
  exactly when every reply is good; at the first bad one the process ends.
\<close>

theorem load_sequence:
  "\<exists>n lease js. requests (fst (Load J R a p)) = requests p @ take n (load_requests a lease js) \<and>
    (n < 4 \<or> grant R = Inr lease) \<and> (n < 5 \<or> json_Marshal J (own_member a) = Inr js) \<and>
    (snd (Load J R a p) = Ret () \<longleftrightarrow>
       replies_ok R \<and> (\<exists>js. json_Marshal J (own_member a) = Inr js)) \<and>
    (snd (Load J R a p) = Ret () \<or> (\<exists>m. snd (Load J R a p) = Exit m))"
  by (rule Load_prefix)

lemma table_after_load:
  assumes kp: "kp = ''/'' @ ai_Project a @ ''/node/''"
    and ok: "new_err R = None" "grant R = Inr lease" "keepalive_err R = None" "put_err R = None"
      "json_Marshal J (own_member a) = Inr js"
    and kvs: "get_kvs R = Inr (map (\<lambda>m. (kp @ NodeId m,
        case json_Marshal J m of Inr b \<Rightarrow> b | Inl _ \<Rightarrow> [])) ms)"
    and clean: "\<forall>c \<in> set (map Joined ms @ cs). clean J kp c"
  shows "\<exists>p :: 'l etcd. DiscoveryComponent_Init J R a = (p, Ret ()) \<and>
    (let table = memberMap (base (fold (handle_event J) (map (event_of J kp) cs) p))
     in (table k \<noteq> None \<longleftrightarrow> last_change k (map Joined ms @ cs) False) \<and>
        table k = first_joined k (map Joined ms @ cs) None)"
proof -
  obtain p q :: "'l etcd" where p: "DiscoveryComponent_Init J R a = (p, Ret ())" "keyPrefix p = kp"
    and q: "base q = PreInit (base (NewDiscoveryETCD :: 'l etcd))"
      "base p = base (fold (\<lambda>(_, v). addMember J v) (map (\<lambda>m. (kp @ NodeId m,
        case json_Marshal J m of Inr b \<Rightarrow> b | Inl _ \<Rightarrow> [])) ms) q)"
    using Load_ok [OF ok(1-4) kvs ok(5), of "NewDiscoveryETCD :: 'l etcd"]
    unfolding DiscoveryComponent_Init_def kp by blast
  have "base p = fold mem.apply_change (map Joined ms) (base q)"
    unfolding q(2) by (rule addMembers_table) (use clean in \<open>simp add: ball_Un\<close>)
  moreover have "base (fold (handle_event J) (map (event_of J kp) cs) p) = fold mem.apply_change cs (base p)"
    using handle_events_of [of cs J p] clean p(2) kp by simp
  ultimately have tab: "memberMap (base (fold (handle_event J) (map (event_of J kp) cs) p)) k =
      first_joined k (map Joined ms @ cs) None"
    using mem.lookup_replay [of "map Joined ms @ cs" "base q" k] q(1) by (simp add: PreInit_def)
  have "memberMap (base (fold (handle_event J) (map (event_of J kp) cs) p)) k \<noteq> None \<longleftrightarrow>
      last_change k (map Joined ms @ cs) False"
    unfolding tab first_joined_present by simp
  with p(1) tab show ?thesis unfolding Let_def by blast
qed

text \<open>
  C16: The table follows etcd. After the component's \<open>Init\<close> on a registry that holds the
  members \<open>ms\<close>, and then the events of any sequence of registrations and departures, an id
  is in the member table exactly when its last change in etcd was a registration; the entry is
  the first one registered since the id was last free, so a later registration under an id in
  use does not replace it.
\<close>

theorem table_follows_etcd:
  assumes kp: "kp = ''/'' @ ai_Project a @ ''/node/''"
    and ok: "new_err R = None" "grant R = Inr lease" "keepalive_err R = None" "put_err R = None"
      "json_Marshal J (own_member a) = Inr js"
    and kvs: "get_kvs R = Inr (map (\<lambda>m. (kp @ NodeId m,
        case json_Marshal J m of Inr b \<Rightarrow> b | Inl _ \<Rightarrow> [])) ms)"
    and clean: "\<forall>c \<in> set (map Joined ms @ cs). clean J kp c"
  shows "\<exists>p :: 'l etcd. DiscoveryComponent_Init J R a = (p, Ret ()) \<and>
    (let table = memberMap (base (fold (handle_event J) (map (event_of J kp) cs) p))
     in (table k \<noteq> None \<longleftrightarrow> last_change k (map Joined ms @ cs) False) \<and>
        table k = first_joined k (map Joined ms @ cs) None)"
  using assms by (rule table_after_load)

definition sample_json :: json where
  "sample_json =
     \<lparr>json_Marshal = (\<lambda>m. Inr (if NodeType m = ''gate'' then [1] else [2])),
      json_Unmarshal = (\<lambda>b. if b = [1]
         then Inr \<lparr>NodeId = ''gate1'', NodeType = ''gate'', Address = []\<rparr>
         else Inr \<lparr>NodeId = ''auth1'', NodeType = ''auth'', Address = []\<rparr>)\<rparr>"

definition sample_app :: app_info where
  "sample_app = \<lparr>ai_NodeId = ''gate1'', ai_NodeType = ''gate'', ai_Project = ''xgame-sgs'',
     ai_Endpoints = [''localhost:2379'']\<rparr>"

abbreviation gate1 :: Member where
  "gate1 \<equiv> \<lparr>NodeId = ''gate1'', NodeType = ''gate'', Address = []\<rparr>"

abbreviation auth1 :: Member where
  "auth1 \<equiv> \<lparr>NodeId = ''auth1'', NodeType = ''auth'', Address = []\<rparr>"

definition sample_replies :: etcd_replies where
  "sample_replies = \<lparr>new_err = None, grant = Inr 77, keepalive_err = None, put_err = None,
     get_kvs = Inr [(''/xgame-sgs/node/gate1'', [1])]\<rparr>"

lemma not_occurs_in_short: "length s < length old \<Longrightarrow> \<not> occurs_in old s"
  by (auto simp: occurs_in_def)

theorem table_follows_etcd_witness:
  "\<exists>p :: unit etcd. DiscoveryComponent_Init sample_json sample_replies sample_app = (p, Ret ()) \<and>
    (let table = memberMap (base (fold (handle_event sample_json)
        (map (event_of sample_json ''/xgame-sgs/node/'') [Joined auth1, Left ''gate1'']) p))
     in table ''auth1'' = Some auth1)"
proof -
  let ?kp = "''/xgame-sgs/node/''" and ?cs = "[Joined auth1, Left ''gate1'']"
  have "\<exists>p :: unit etcd. DiscoveryComponent_Init sample_json sample_replies sample_app = (p, Ret ()) \<and>
    (let table = memberMap (base (fold (handle_event sample_json)
        (map (event_of sample_json ?kp) ?cs) p))
     in (table ''auth1'' \<noteq> None \<longleftrightarrow> last_change ''auth1'' (map Joined [gate1] @ ?cs) False) \<and>
        table ''auth1'' = first_joined ''auth1'' (map Joined [gate1] @ ?cs) None)"
    by (rule table_follows_etcd [where lease = 77 and js = "[1]"])
       (simp_all add: sample_json_def sample_app_def sample_replies_def own_member_def
         not_occurs_in_short)
  then show ?thesis by auto
qed

lemma last_change_other: "\<forall>c \<in> set cs. \<not> about k c \<Longrightarrow> last_change k cs b = b"
proof (induction cs arbitrary: b)
  case (Cons c cs)
  then show ?case by (cases c) auto
qed simp

lemma last_change_append: "last_change k (xs @ ys) b = last_change k ys (last_change k xs b)"
  by (induction k xs b rule: last_change.induct) auto

text \<open>
  C35: Changes between reading the members and starting to watch are lost. The watch does not
  start from the revision that was read; a node that registers in between, and about which
  nothing is heard later, is registered in etcd and stays out of the table.
\<close>

theorem watch_gap_misses_node:
  assumes kp: "kp = ''/'' @ ai_Project a @ ''/node/''"
    and ok: "new_err R = None" "grant R = Inr lease" "keepalive_err R = None" "put_err R = None"
      "json_Marshal J (own_member a) = Inr js"
    and kvs: "get_kvs R = Inr (map (\<lambda>m. (kp @ NodeId m,
        case json_Marshal J m of Inr b \<Rightarrow> b | Inl _ \<Rightarrow> [])) ms)"
    and clean: "\<forall>c \<in> set (map Joined ms @ cs). clean J kp c"
    and new: "\<forall>c \<in> set (map Joined ms @ cs). \<not> about (NodeId m) c"
  shows "\<exists>p :: 'l etcd. DiscoveryComponent_Init J R a = (p, Ret ()) \<and>
    last_change (NodeId m) (map Joined ms @ [Joined m] @ cs) False \<and>
    memberMap (base (fold (handle_event J) (map (event_of J kp) cs) p)) (NodeId m) = None"
proof -
  obtain p :: "'l etcd" where p: "DiscoveryComponent_Init J R a = (p, Ret ())"
    "memberMap (base (fold (handle_event J) (map (event_of J kp) cs) p)) (NodeId m) \<noteq> None \<longleftrightarrow>
      last_change (NodeId m) (map Joined ms @ cs) False"
    using table_after_load [OF kp ok kvs clean, where k = "NodeId m" and ?'l = 'l]
    unfolding Let_def by blast
  have "\<not> last_change (NodeId m) (map Joined ms @ cs) False"
    using last_change_other [OF new] by simp
  moreover have "last_change (NodeId m) (map Joined ms @ [Joined m] @ cs) False"
    using last_change_other [of cs "NodeId m" True] new by (simp add: last_change_append)
  ultimately have "last_change (NodeId m) (map Joined ms @ [Joined m] @ cs) False \<and>
      memberMap (base (fold (handle_event J) (map (event_of J kp) cs) p)) (NodeId m) = None"
    using p(2) by simp
  with p(1) show ?thesis by (intro exI [of _ p] conjI) simp_all
qed

theorem watch_gap_misses_node_witness:
  "\<exists>p :: unit etcd. DiscoveryComponent_Init sample_json sample_replies sample_app = (p, Ret ()) \<and>
    last_change ''auth1'' [Joined gate1, Joined auth1, Left ''gate1''] False \<and>
    memberMap (base (fold (handle_event sample_json)
        (map (event_of sample_json ''/xgame-sgs/node/'') [Left ''gate1'']) p)) ''auth1'' = None"
proof -
  let ?kp = "''/xgame-sgs/node/''" and ?cs = "[Left ''gate1'']"
  have "\<exists>p :: unit etcd. DiscoveryComponent_Init sample_json sample_replies sample_app = (p, Ret ()) \<and>
    last_change (NodeId auth1) (map Joined [gate1] @ [Joined auth1] @ ?cs) False \<and>
    memberMap (base (fold (handle_event sample_json)
        (map (event_of sample_json ?kp) ?cs) p)) (NodeId auth1) = None"
    by (rule watch_gap_misses_node [where lease = 77 and js = "[1]"])
       (simp_all add: sample_json_def sample_app_def sample_replies_def own_member_def
         not_occurs_in_short)
  then show ?thesis by auto
qed

text \<open>
  Keys round-trip. A node whose project name has no percent sign registers under the key
  prefix followed by its id; that key is under the prefix that every node watches, and the
  handler of its deletion removes exactly that id, when the prefix does not occur in it.
\<close>

theorem registration_key_roundtrip:
  assumes "CHR ''%'' \<notin> set (ai_Project a)"
    and "\<not> occurs_in (''/'' @ ai_Project a @ ''/node/'') (ai_NodeId a)"
    and "Load J R a p = (p', Ret ())"
  shows "\<exists>js lease. ReqPut (keyPrefix p' @ ai_NodeId a) js lease \<in> set (requests p') \<and>
    ReqWatchPrefix (keyPrefix p') \<in> set (requests p') \<and>
    memberMap (base (removeMember (keyPrefix p' @ ai_NodeId a) p')) =
      (memberMap (base p'))(ai_NodeId a := None)"
proof -
  have "replies_ok R \<and> (\<exists>js. json_Marshal J (own_member a) = Inr js)"
    using Load_ok_iff [of J R a p] assms(3) by simp
  then obtain lease kvs js where ok: "new_err R = None" "grant R = Inr lease"
      "keepalive_err R = None" "put_err R = None" "get_kvs R = Inr kvs"
      "json_Marshal J (own_member a) = Inr js"
    by (auto simp: replies_ok_def)
  have p': "requests p' = requests p @ load_requests a lease js"
      "keyPrefix p' = ''/'' @ ai_Project a @ ''/node/''"
    using Load_ok [OF ok, of p] assms(3) by auto
  have key: "sprintf ((''/'' @ ai_Project a @ ''/node/'') @ ''%s'') [ArgS (ai_NodeId a)] =
      keyPrefix p' @ ai_NodeId a"
    unfolding p'(2) by (rule register_key) (use assms(1) in auto)
  have "remove_all (keyPrefix p') (keyPrefix p' @ ai_NodeId a) = ai_NodeId a"
    by (rule node_of_key) (use assms(2) p'(2) in auto)
  then have "memberMap (base (removeMember (keyPrefix p' @ ai_NodeId a) p')) =
      (memberMap (base p'))(ai_NodeId a := None)"
    by (auto simp: removeMember_def mem.lookup_remove)
  moreover have "ReqPut (keyPrefix p' @ ai_NodeId a) js lease \<in> set (requests p')"
    unfolding p'(1) load_requests_def Let_def using key by simp
  moreover have "ReqWatchPrefix (keyPrefix p') \<in> set (requests p')"
    unfolding p'(1) load_requests_def Let_def by (simp add: p'(2))
  ultimately show ?thesis by blast
qed

theorem registration_key_roundtrip_witness:
  "\<exists>(p' :: unit etcd) js lease. Load sample_json sample_replies sample_app NewDiscoveryETCD = (p', Ret ()) \<and>
     ReqPut (keyPrefix p' @ ''gate1'') js lease \<in> set (requests p') \<and>
     memberMap (base (removeMember (keyPrefix p' @ ''gate1'') p')) ''gate1'' = None"
proof -
  have pc: "CHR ''%'' \<notin> set (ai_Project sample_app)" by (simp add: sample_app_def)
  have occ: "\<not> occurs_in (''/'' @ ai_Project sample_app @ ''/node/'') (ai_NodeId sample_app)"
    by (rule not_occurs_in_short) (simp add: sample_app_def)
  have "snd (Load sample_json sample_replies sample_app (NewDiscoveryETCD :: unit etcd)) = Ret ()"
    by (simp add: Load_ok_iff replies_ok_def sample_replies_def sample_json_def)
  then obtain p' :: "unit etcd" where p': "Load sample_json sample_replies sample_app NewDiscoveryETCD = (p', Ret ())"
    by (metis prod.collapse)
  have i: "ai_NodeId sample_app = ''gate1''" by (simp add: sample_app_def)
  from registration_key_roundtrip [OF pc occ p'] p' show ?thesis
    unfolding i by auto
qed

text \<open>
  Stopping the discovery component does not unregister the node. Its \<open>OnStop\<close> calls
  \<open>Stop\<close>, which for an \<open>ETCD\<close> is the promoted empty method; the deletion of the key and
  the closing of the client are in \<open>ETCD.OnStop\<close>, which nothing calls. So no run of the
  component, started with any replies and then stopped, asks etcd to delete a key or closes
  the client, and the member table stays as it is.
\<close>

theorem component_stop_keeps_registration:
  "let p = fst (DiscoveryComponent_Init J R a) :: 'l etcd
   in requests (DiscoveryComponent_OnStop p) = requests p \<and>
      memberMap (base (DiscoveryComponent_OnStop p)) = memberMap (base p) \<and>
      ReqDelete key \<notin> set (requests (DiscoveryComponent_OnStop p)) \<and>
      ReqClose \<notin> set (requests (DiscoveryComponent_OnStop p)) \<and>
      ReqDelete (sprintf (registerKeyFormat p) [ArgS (ai_NodeId (app p))]) \<in> set (requests (ETCD_OnStop p))"
proof -
  let ?p = "fst (DiscoveryComponent_Init J R a) :: 'l etcd"
  obtain n lease js where "requests ?p = take n (load_requests a lease js)"
    using Load_requests [of J R a "NewDiscoveryETCD :: 'l etcd"]
    by (auto simp: DiscoveryComponent_Init_def NewDiscoveryETCD_def)
  moreover have "ReqDelete key \<notin> set (load_requests a lease js)" "ReqClose \<notin> set (load_requests a lease js)"
    by (simp_all add: load_requests_def)
  ultimately have "ReqDelete key \<notin> set (requests ?p)" "ReqClose \<notin> set (requests ?p)"
    by (auto dest: in_set_takeD)
  then show ?thesis
    by (simp add: DiscoveryComponent_OnStop_def ETCD_Stop_def Discovery_Stop_def ETCD_OnStop_def)
qed

text \<open>
  The project name is pasted into the format string of the key. With a percent sign in
  it, as in the name \<open>50%\<close>, the node registers under a key that is not under the prefix
  it watches and reads, so no node of the project ever sees it.
\<close>

theorem percent_project_invisible:
  "let p = fst (DiscoveryComponent_Init J R (a\<lparr>ai_Project := ''50%'', ai_NodeId := i\<rparr>));
       key = sprintf (registerKeyFormat p) [ArgS i]
   in keyPrefix p = ''/50%/node/'' \<and>
      key = ''/50%!/(string='' @ i @ '')node/%!s(MISSING)'' \<and> strip_prefix (keyPrefix p) key = None"
proof -
  let ?p = "fst (DiscoveryComponent_Init J R (a\<lparr>ai_Project := ''50%'', ai_NodeId := i\<rparr>))"
  have kp: "keyPrefix ?p = ''/50%/node/''" "registerKeyFormat ?p = ''/50%/node/%s''"
    by (auto simp: DiscoveryComponent_Init_def Load_def etcd_init_def getLeaseId_def register_def
        watch_def fatal_unless_def keyPrefix_eq split: option.split sum.split)
  show ?thesis
    unfolding Let_def kp by (simp add: sprintf.simps fmt_verb_def)
qed

end
