(* ===== verification/Nodes.thy ===== *)
theory Nodes
  imports Application Worker Cluster Agent Connector Etcd
begin

text \<open>
  \<^verbatim>\<open>framework/pkg/xagent/net_parser.go\<close>, the rest of \<^verbatim>\<open>framework/application.go\<close>
  (\<open>NewAppNode\<close>) and the services \<^verbatim>\<open>gate\<close> and \<^verbatim>\<open>auth\<close>: the nodes of the repository,
  made of the framework's components. The lifecycle methods of the components are written
  out as the calls they make; each call is recorded with the application's running flag.
\<close>

section \<open>The components of a node\<close>

datatype comp = WorkerComp | ClusterComp | DiscoveryComp | ParserComp | AgentsComp | TcpComp | WsComp

definition NetParserName :: string where "NetParserName = ''net_parser''"
definition Discovery_Name :: string where "Discovery_Name = ''discovery_component''"

text \<open>The \<open>Name\<close> of each component.\<close>

fun Name :: "comp \<Rightarrow> string" where
  "Name WorkerComp = Worker_Name"
| "Name ClusterComp = Cluster_Name"
| "Name DiscoveryComp = Discovery_Name"
| "Name ParserComp = NetParserName"
| "Name AgentsComp = Agents_Name"
| "Name TcpComp = tcp_Name"
| "Name WsComp = ws_Name"

lemmas comp_names = Worker_Name_def Cluster_Name_def Discovery_Name_def NetParserName_def
  Agents_Name_def tcp_Name_def ws_Name_def

lemma Name_inj [simp]: "Name c = Name d \<longleftrightarrow> c = d"
  by (cases c; cases d) (simp_all add: comp_names)

lemma Name_nonempty [simp]: "Name c \<noteq> []" "[] \<noteq> Name c"
  by (cases c; simp add: comp_names)+

text \<open>
  The calls that leave the lifecycle methods, beside those on the worker and the parser,
  whose state is in the world: \<open>Init\<close> and \<open>Stop\<close> of the cluster, \<open>Load\<close> and \<open>Stop\<close> of
  the discovery, the default handler that \<open>Agents\<close> installs, the goroutine of a connector,
  its \<open>Stop\<close>, and what the services register before they start.
\<close>

datatype call = WorkerStart | WorkerStop | ClusterInit | ClusterStop | DiscoveryLoad | DiscoveryStop
  | SetAgentHandler | GoStart comp | ConnectorStop comp | Routed pb_type string | Listened pb_type

record ('t, 'n) node_world =
  calls :: "(call \<times> bool) list"
  has_app :: "comp \<Rightarrow> bool"
  wk :: "'t worker"
  connectors :: "comp list"
  net :: "comp \<Rightarrow> ('n, unit) net_connector option"
  onNewAgent :: bool
  parser_agents :: bool

type_synonym ('t, 'n, 'f) node_app = "(comp, 'f, ('t, 'n) node_world) app"

definition upd :: "(('t, 'n) node_world \<Rightarrow> ('t, 'n) node_world) \<Rightarrow> ('t, 'n, 'f) node_app \<Rightarrow> ('t, 'n, 'f) node_app" where
  "upd f a = a\<lparr>world := f (world a)\<rparr>"

text \<open>\<open>result\<close>, a parameter, says how a call ends.\<close>

definition make_call :: "(call \<Rightarrow> unit outcome) \<Rightarrow> call \<Rightarrow> (('t, 'n, 'f) node_app, unit) proc" where
  "make_call result c a = (upd (\<lambda>w. w\<lparr>calls := calls w @ [(c, Running a)]\<rparr>) a, result c)"

section \<open>The network parser\<close>

definition AddConnector :: "comp \<Rightarrow> ('n, unit) net_connector option \<Rightarrow> ('t, 'n) node_world \<Rightarrow> ('t, 'n) node_world" where
  "AddConnector c n w = w\<lparr>connectors := connectors w @ [c], net := (net w)(c := n)\<rparr>"

definition SetOnNewAgent :: "('t, 'n) node_world \<Rightarrow> ('t, 'n) node_world" where
  "SetOnNewAgent w = w\<lparr>onNewAgent := True\<rparr>"

text \<open>A port that the profile does not give reads as 0.\<close>

definition port :: "NodeCfg \<Rightarrow> string \<Rightarrow> int" where
  "port cfg k = (case GetListenPorts cfg k of Some p \<Rightarrow> p | None \<Rightarrow> 0)"

definition NewNetParser :: "NodeCfg \<Rightarrow> ('t, 'n) node_world \<Rightarrow> ('t, 'n) node_world" where
  "NewNetParser cfg w =
     SetOnNewAgent
      (AddConnector WsComp (map_option ws_net (NewWS (sprintf '':%d'' [ArgD (port cfg ''ws'')]) []))
      (AddConnector TcpComp (NewTCP (sprintf '':%d'' [ArgD (port cfg ''tcp'')]) []) w))"

definition Connectors :: "('t, 'n, 'f) node_app \<Rightarrow> comp option list" where
  "Connectors a = map Some (connectors (world a))"

definition no_agents_text :: string where
  "no_agents_text = ''interface conversion: interface is nil, not *xagent.Agents''"

text \<open>
  \<open>Init\<close>: panics without a connector, without an application, and when what stands
  under the name of the agents is not the agents.
\<close>

definition Parser_Init :: "(comp, 'f, ('t, 'n) node_world) app_env \<Rightarrow> (('t, 'n, 'f) node_app, unit) proc" where
  "Parser_Init E a =
     (if connectors (world a) = [] then (a, Panic ''connectors is nil'')
      else if \<not> has_app (world a) ParserComp then (a, Panic nil_text)
      else if Find E Agents_Name a = Some AgentsComp then (upd (\<lambda>w. w\<lparr>parser_agents := True\<rparr>) a, Ret ())
      else (a, Panic no_agents_text))"

text \<open>\<open>connector.OnConnect(p.defaultOnConnectFunc)\<close>; \<open>()\<close> is that function.\<close>

definition hook :: "comp \<Rightarrow> ('t, 'n) node_world \<Rightarrow> ('t, 'n) node_world" where
  "hook c w = w\<lparr>net := (net w)(c := map_option (\<lambda>t. t\<lparr>con := OnConnect (Some ()) (con t)\<rparr>) (net w c))\<rparr>"

definition Parser_OnAfterInit :: "(call \<Rightarrow> unit outcome) \<Rightarrow> (('t, 'n, 'f) node_app, unit) proc" where
  "Parser_OnAfterInit result a =
     for_each (\<lambda>c a. make_call result (GoStart c) (upd (hook c) a)) (connectors (world a)) a"

section \<open>The lifecycle methods\<close>

definition Set_app :: "comp \<Rightarrow> (('t, 'n, 'f) node_app, unit) proc" where
  "Set_app c a = (upd (\<lambda>w. w\<lparr>has_app := (has_app w)(c := True)\<rparr>) a, Ret ())"

definition start_wk :: "(call \<Rightarrow> unit outcome) \<Rightarrow> (('t, 'n, 'f) node_app, unit) proc" where
  "start_wk result a = make_call result WorkerStart (upd (\<lambda>w. w\<lparr>wk := Start (wk w)\<rparr>) a)"

text \<open>The swap and the close of \<open>Stop\<close>; \<open>result\<close> stands for its wait.\<close>

definition stop_wk :: "(call \<Rightarrow> unit outcome) \<Rightarrow> (('t, 'n, 'f) node_app, unit) proc" where
  "stop_wk result a =
     (if closed (wk (world a)) then (a, Ret ())
      else make_call result WorkerStop
        (upd (\<lambda>w. w\<lparr>wk := (wk w)\<lparr>closed := True, fs := (fs (wk w))\<lparr>isclosed := True\<rparr>\<rparr>\<rparr>) a))"

text \<open>\<open>Agents.Init\<close> asks its application for the cluster.\<close>

definition Agents_Init :: "(call \<Rightarrow> unit outcome) \<Rightarrow> (('t, 'n, 'f) node_app, unit) proc" where
  "Agents_Init result a =
     (if \<not> has_app (world a) AgentsComp \<or> app_cluster a = None then (a, Panic nil_text)
      else make_call result SetAgentHandler a)"

definition stop_connector :: "(call \<Rightarrow> unit outcome) \<Rightarrow> comp \<Rightarrow> (('t, 'n, 'f) node_app, unit) proc" where
  "stop_connector result c a =
     make_call result (ConnectorStop c)
       (upd (\<lambda>w. w\<lparr>net := (net w)(c := map_option (\<lambda>t. fst (net_stop t)) (net w c))\<rparr>) a)"

definition cluster_Init :: "(call \<Rightarrow> unit outcome) \<Rightarrow> (('t, 'n, 'f) node_app, unit) proc" where
  "cluster_Init result = make_call result ClusterInit"

definition cluster_OnStop :: "(call \<Rightarrow> unit outcome) \<Rightarrow> (('t, 'n, 'f) node_app, unit) proc" where
  "cluster_OnStop result = make_call result ClusterStop"

definition discovery_Init :: "(call \<Rightarrow> unit outcome) \<Rightarrow> (('t, 'n, 'f) node_app, unit) proc" where
  "discovery_Init result = make_call result DiscoveryLoad"

definition discovery_OnStop :: "(call \<Rightarrow> unit outcome) \<Rightarrow> (('t, 'n, 'f) node_app, unit) proc" where
  "discovery_OnStop result = make_call result DiscoveryStop"

definition worker_OnStop :: "(call \<Rightarrow> unit outcome) \<Rightarrow> (('t, 'n, 'f) node_app, unit) proc" where
  "worker_OnStop result = stop_wk result"

text \<open>The methods that components have and that are empty.\<close>

definition worker_Init :: "('s, unit) proc" where "worker_Init s = (s, Ret ())"
definition cluster_OnAfterInit :: "('s, unit) proc" where "cluster_OnAfterInit s = (s, Ret ())"
definition tcp_OnAfterInit :: "('s, unit) proc" where "tcp_OnAfterInit s = (s, Ret ())"
definition ws_OnAfterInit :: "('s, unit) proc" where "ws_OnAfterInit s = (s, Ret ())"

lemmas empty_methods = worker_Init_def cluster_OnAfterInit_def tcp_OnAfterInit_def ws_OnAfterInit_def
  base_Init_def base_OnAfterInit_def base_OnStop_def

text \<open>A component without a method of its own has that of \<open>facade.Component\<close>.\<close>

fun Init_of ::
    "(comp, 'f, ('t, 'n) node_world) app_env \<Rightarrow> (call \<Rightarrow> unit outcome) \<Rightarrow> comp \<Rightarrow>
     (('t, 'n, 'f) node_app, unit) proc" where
  "Init_of E result ClusterComp = cluster_Init result"
| "Init_of E result DiscoveryComp = discovery_Init result"
| "Init_of E result ParserComp = Parser_Init E"
| "Init_of E result AgentsComp = Agents_Init result"
| "Init_of E result WorkerComp = worker_Init"
| "Init_of E result TcpComp = base_Init"
| "Init_of E result WsComp = base_Init"

fun OnAfterInit_of :: "(call \<Rightarrow> unit outcome) \<Rightarrow> comp \<Rightarrow> (('t, 'n, 'f) node_app, unit) proc" where
  "OnAfterInit_of result WorkerComp = start_wk result"
| "OnAfterInit_of result ParserComp = Parser_OnAfterInit result"
| "OnAfterInit_of result ClusterComp = cluster_OnAfterInit"
| "OnAfterInit_of result TcpComp = tcp_OnAfterInit"
| "OnAfterInit_of result WsComp = ws_OnAfterInit"
| "OnAfterInit_of result DiscoveryComp = base_OnAfterInit"
| "OnAfterInit_of result AgentsComp = base_OnAfterInit"

fun OnStop_of :: "(call \<Rightarrow> unit outcome) \<Rightarrow> comp \<Rightarrow> (('t, 'n, 'f) node_app, unit) proc" where
  "OnStop_of result WorkerComp = worker_OnStop result"
| "OnStop_of result ClusterComp = cluster_OnStop result"
| "OnStop_of result DiscoveryComp = discovery_OnStop result"
| "OnStop_of result TcpComp = stop_connector result TcpComp"
| "OnStop_of result WsComp = stop_connector result WsComp"
| "OnStop_of result ParserComp = base_OnStop"
| "OnStop_of result AgentsComp = base_OnStop"

definition node_env0 :: "(call \<Rightarrow> unit outcome) \<Rightarrow> ('f \<Rightarrow> (('t, 'n, 'f) node_app, unit) proc) \<Rightarrow>
    (comp, 'f, ('t, 'n) node_world) app_env" where
  "node_env0 result fns =
     \<lparr>comp_name = Name, comp_Set = Set_app, comp_Init = (\<lambda>_. base_Init),
      comp_OnAfterInit = OnAfterInit_of result, comp_OnBeforeStop = (\<lambda>_. base_OnBeforeStop),
      comp_OnStop = OnStop_of result, worker_Start = (\<lambda>_. start_wk result),
      worker_Stop = (\<lambda>_. stop_wk result), comp_Connectors = (\<lambda>_. Connectors), run_fn = fns\<rparr>"

text \<open>\<open>Find\<close> needs the names only, so \<open>Init\<close> of the parser can be tied in afterwards.\<close>

definition node_env :: "(call \<Rightarrow> unit outcome) \<Rightarrow> ('f \<Rightarrow> (('t, 'n, 'f) node_app, unit) proc) \<Rightarrow>
    (comp, 'f, ('t, 'n) node_world) app_env" where
  "node_env result fns = (node_env0 result fns)\<lparr>comp_Init := Init_of (node_env0 result fns) result\<rparr>"

lemma node_env_simps [simp]:
  "comp_name (node_env0 r f) = Name" "comp_name (node_env r f) = Name" "comp_Set (node_env r f) = Set_app"
  "comp_Init (node_env r f) = Init_of (node_env0 r f) r" "comp_OnAfterInit (node_env r f) = OnAfterInit_of r"
  "comp_OnBeforeStop (node_env r f) = (\<lambda>_. base_OnBeforeStop)" "comp_OnStop (node_env r f) = OnStop_of r"
  "worker_Start (node_env r f) = (\<lambda>_. start_wk r)" "worker_Stop (node_env r f) = (\<lambda>_. stop_wk r)"
  "comp_Connectors (node_env r f) = (\<lambda>_. Connectors)" "run_fn (node_env r f) = f"
  by (simp_all add: node_env_def node_env0_def)

section \<open>NewAppNode\<close>

definition new_world :: "'t worker \<Rightarrow> ('t, 'n) node_world" where
  "new_world w = \<lparr>calls = [], has_app = (\<lambda>_. False), wk = w, connectors = [], net = (\<lambda>_. None),
     onNewAgent = False, parser_agents = False\<rparr>"

text \<open>\<open>w\<close> is the worker that \<open>xworker.New(1 << 10)\<close> returns.\<close>

definition NewAppNode ::
    "(comp, 'f, ('t, 'n) node_world) app_env \<Rightarrow> 't worker \<Rightarrow> 'e ClusterCfg \<Rightarrow> string \<Rightarrow>
     (('t, 'n, 'f) node_app) result" where
  "NewAppNode E w conf nodeId =
     (case FindNode conf nodeId of
        None \<Rightarrow> Inl (Errorf ''[nodeId = %s] not found'' [ArgS nodeId])
      | Some nodeCfg \<Rightarrow>
          let a0 = \<lparr>app_node = nodeCfg, isFrontend = IsGate nodeCfg, app_running = 0, onShutdownFn = [],
                components = [], app_worker = None, app_discovery = None, app_cluster = None,
                netParser = None, world = new_world w\<rparr>;
              a1 = (Register E [Some WorkerComp] a0)\<lparr>app_worker := Some WorkerComp\<rparr>;
              a2 = SetCluster ClusterComp (Register E [Some ClusterComp] a1);
              a3 = SetDiscovery DiscoveryComp (Register E [Some DiscoveryComp] a2)
          in Inr (if IsFrontend a3
                  then Register E [Some AgentsComp]
                         (SetNetParser ParserComp
                           (Register E [Some ParserComp] (upd (NewNetParser nodeCfg) a3)))
                  else a3))"

section \<open>The services\<close>

text \<open>\<open>gate.routeMessage\<close> asserts that the component under the agents' name is there.\<close>

definition routeMessage ::
    "(comp, 'f, ('t, 'n) node_world) app_env \<Rightarrow> (call \<Rightarrow> unit outcome) \<Rightarrow> (('t, 'n, 'f) node_app, unit) proc" where
  "routeMessage E result a =
     (if Find E Agents_Name a = Some AgentsComp then make_call result (Routed TCReqLogin NodeTypeGate) a
      else (a, Panic no_agents_text))"

definition listenMessage :: "(call \<Rightarrow> unit outcome) \<Rightarrow> (('t, 'n, 'f) node_app, unit) proc" where
  "listenMessage result a =
     (if app_cluster a = None then (a, Panic nil_text) else make_call result (Listened TCReqLogin) a)"

text \<open>\<open>gate.Run\<close> and \<open>auth.Run\<close>, up to the select of \<open>Startup\<close>.\<close>

definition gate_Run where
  "gate_Run result fns w cfg nodeId =
     (case NewAppNode (node_env result fns) w cfg nodeId of
        Inl err \<Rightarrow> Inl err
      | Inr a \<Rightarrow>
          Inr (seq_proc (routeMessage (node_env result fns) result)
            (\<lambda>_. seq_proc (listenMessage result) (\<lambda>_. Startup_begin (node_env result fns))) a))"

definition auth_Run where
  "auth_Run result fns w cfg nodeId =
     (case NewAppNode (node_env result fns) w cfg nodeId of
        Inl err \<Rightarrow> Inl err
      | Inr a \<Rightarrow>
          Inr (seq_proc (\<lambda>a. if app_cluster a = None then (a, Panic nil_text)
              else make_call result (Listened TReqAuth) a)
            (\<lambda>_. Startup_begin (node_env result fns)) a))"

text \<open>
  \<^verbatim>\<open>cmd/gatesvr/main.go\<close> and \<^verbatim>\<open>cmd/authsvr/main.go\<close> up to \<open>Run\<close>: the profile, the
  node of the given id, the logger. \<open>FindNode\<close> returns a copy of the entry, so the file
  name that \<open>log.Init\<close> writes is not in the profile that \<open>Run\<close> gets.
\<close>

definition server_main ::
    "(string \<Rightarrow> bytes result) \<Rightarrow> (bytes \<Rightarrow> 'e ClusterCfg result) \<Rightarrow> (string \<Rightarrow> level option) \<Rightarrow> string \<Rightarrow>
     string \<Rightarrow> (core list option, 'e ClusterCfg) proc" where
  "server_main ReadFile Unmarshal_json parse path nodeId lg =
     (case ParseProfile ReadFile Unmarshal_json path of
        Inl err \<Rightarrow> (lg, Panic (err_text err))
      | Inr cfg \<Rightarrow>
          (case FindNode cfg nodeId of
             None \<Rightarrow> (lg, Panic ''nodeId not exist'')
           | Some nodeCfg \<Rightarrow>
               (snd (Logger.Init parse (GetNodeId nodeCfg) (GetNodeType nodeCfg) (Log nodeCfg) lg), Ret cfg)))"

text \<open>
  \<^verbatim>\<open>cmd/authsvr/main.go\<close> is the same program with \<open>auth.Run\<close>. \<^verbatim>\<open>cmd/all-in-one/main.go\<close>
  runs both services in one process, in two goroutines that share the logger and the
  registry; it looks no node up and drops the errors of both.
\<close>

definition authsvr_main where "authsvr_main = server_main"

datatype service = Gate | Auth

definition all_in_one_main ::
    "(string \<Rightarrow> bytes result) \<Rightarrow> (bytes \<Rightarrow> 'e ClusterCfg result) \<Rightarrow> (string \<Rightarrow> level option) \<Rightarrow> string \<Rightarrow>
     (core list option, 'e ClusterCfg \<times> (service \<times> string) list) proc" where
  "all_in_one_main ReadFile Unmarshal_json parse path lg =
     (case ParseProfile ReadFile Unmarshal_json path of
        Inl err \<Rightarrow> (lg, Panic (err_text err))
      | Inr cfg \<Rightarrow>
          (snd (Logger.Init parse (Project cfg) ''all-in-one''
             \<lparr>Level = ''debug'', EnableConsoleWriter = True, EnableFileWriter = False, Filename = []\<rparr> lg),
           Ret (cfg, [(Gate, ''gate1''), (Auth, ''auth1'')])))"

text \<open>
  In a profile without a node \<open>gate1\<close> the two programs differ: the server panics, the
  all-in-one program goes on without a gate and says nothing.
\<close>

lemma missing_node:
  assumes "ParseProfile ReadFile Unmarshal_json path = Inr cfg" and "FindNode cfg ''gate1'' = None"
  shows "snd (server_main ReadFile Unmarshal_json parse path ''gate1'' lg) = Panic ''nodeId not exist'' \<and>
    snd (all_in_one_main ReadFile Unmarshal_json parse path lg) = Ret (cfg, [(Gate, ''gate1''), (Auth, ''auth1'')]) \<and>
    gate_Run result fns w cfg ''gate1'' = Inl (Errorf ''[nodeId = %s] not found'' [ArgS ''gate1''])"
  using assms by (simp add: server_main_def all_in_one_main_def gate_Run_def NewAppNode_def)

section \<open>What a new node is made of\<close>

lemma Running_upd [simp]: "Running (upd f a) = Running a"
  by (simp add: upd_def Running_def)

lemma upd_simps [simp]:
  "components (upd f a) = components a" "app_running (upd f a) = app_running a"
  "netParser (upd f a) = netParser a" "app_worker (upd f a) = app_worker a"
  "app_cluster (upd f a) = app_cluster a" "world (upd f a) = f (world a)"
  "onShutdownFn (upd f a) = onShutdownFn a"
  by (simp_all add: upd_def)

lemma Register_one:
  "Register E [Some c] a =
     (if Running a \<or> comp_name E c = [] \<or> Find E (comp_name E c) a \<noteq> None then a
      else a\<lparr>components := components a @ [c]\<rparr>)"
  by (auto simp: Register_def split: option.split)

lemma Find_Name:
  assumes "comp_name E = Name"
  shows "Find E (Name c) a = (if c \<in> set (components a) then Some c else None)"
proof -
  have "find (\<lambda>d. d = c) cs = (if c \<in> set cs then Some c else None)" for cs
    by (induction cs) auto
  then show ?thesis by (simp add: Find_def find_component_eq assms)
qed

text \<open>The names matter through \<open>Name_inj\<close> only.\<close>

declare Name.simps [simp del]

lemma Register_new:
  assumes "comp_name E = Name" and "app_running a = 0" and "c \<notin> set (components a)"
  shows "Register E [Some c] a = a\<lparr>components := components a @ [c]\<rparr>"
  using assms by (simp add: Register_one Find_Name Running_def)

lemmas node_defs = NewAppNode_def Register_new SetCluster_def SetDiscovery_def
  SetNetParser_def IsFrontend_def NewNetParser_def AddConnector_def SetOnNewAgent_def new_world_def

abbreviation common_comps :: "comp list" where
  "common_comps \<equiv> [WorkerComp, ClusterComp, DiscoveryComp]"

abbreviation gate_comps :: "comp list" where
  "gate_comps \<equiv> common_comps @ [ParserComp, AgentsComp]"

definition connector_of :: "NodeCfg \<Rightarrow> string \<Rightarrow> ('n, unit) net_connector" where
  "connector_of cfg k = \<lparr>con = NewConnector 256,
     opts = \<lparr>address = CHR '':'' # show_int (port cfg k), certFile = [], keyFile = [], chanSize = 256\<rparr>\<rparr>"

lemma new_connectors:
  "NewTCP (sprintf '':%d'' [ArgD (port cfg k)]) [] = Some (connector_of cfg k)"
  "map_option ws_net (NewWS (sprintf '':%d'' [ArgD (port cfg k)]) []) = Some (connector_of cfg k)"
  by (simp_all add: NewTCP_def NewWS_def new_net_connector_def connector_of_def fmt_verb_def)

definition new_app :: "'t worker \<Rightarrow> NodeCfg \<Rightarrow> ('t, 'n, 'f) node_app" where
  "new_app w cfg = \<lparr>app_node = cfg, isFrontend = IsGate cfg, app_running = 0, onShutdownFn = [],
     components = (if IsGate cfg then gate_comps else common_comps),
     app_worker = Some WorkerComp, app_discovery = Some DiscoveryComp, app_cluster = Some ClusterComp,
     netParser = (if IsGate cfg then Some ParserComp else None),
     world = (if IsGate cfg
       then (new_world w)\<lparr>connectors := [TcpComp, WsComp],
              net := (\<lambda>_. None)(TcpComp := Some (connector_of cfg ''tcp''), WsComp := Some (connector_of cfg ''ws'')),
              onNewAgent := True\<rparr>
       else new_world w)\<rparr>"

lemma NewAppNode_eq:
  assumes "comp_name E = Name"
  shows "NewAppNode E w conf k =
    (case FindNode conf k of None \<Rightarrow> Inl (Errorf ''[nodeId = %s] not found'' [ArgS k]) | Some cfg \<Rightarrow> Inr (new_app w cfg))"
proof (cases "FindNode conf k")
  case (Some cfg)
  then show ?thesis
    by (cases "IsGate cfg")
      (simp_all add: node_defs assms new_app_def upd_def new_connectors del: sprintf.simps)
qed (simp add: NewAppNode_def)

section \<open>Startup of a node\<close>

definition gate_calls :: "call list" where
  "gate_calls = [ClusterInit, DiscoveryLoad, SetAgentHandler, WorkerStart, GoStart TcpComp, GoStart WsComp,
     WorkerStart]"

definition plain_calls :: "call list" where
  "plain_calls = [ClusterInit, DiscoveryLoad, WorkerStart, WorkerStart]"

text \<open>What a node that is to be started looks like, whatever it has already registered.\<close>

definition startable :: "('t, 'n, 'f) node_app \<Rightarrow> bool" where
  "startable a \<longleftrightarrow> app_running a = 0 \<and> app_worker a = Some WorkerComp \<and> app_cluster a \<noteq> None \<and>
     (netParser a = Some ParserComp \<and> components a = gate_comps \<and> connectors (world a) = [TcpComp, WsComp] \<or>
      netParser a = None \<and> components a = common_comps)"

lemma startable_new: "startable (new_app w cfg)"
  by (simp add: startable_def new_app_def new_world_def)

lemma startable_call: "startable a \<Longrightarrow> startable (fst (make_call r c a))"
  by (auto simp: startable_def make_call_def)

text \<open>The components when the loops of \<open>Startup\<close> begin.\<close>

lemma register_connectors_eq:
  assumes "startable a"
  shows "register_connectors (node_env r f) a =
    (if netParser a = None then a else a\<lparr>components := gate_comps @ [TcpComp, WsComp]\<rparr>)"
  using assms by (auto simp: startable_def register_connectors_def Connectors_def Register_new)

definition called :: "bool \<Rightarrow> call list \<Rightarrow> (call \<times> bool) list" where
  "called b cs = map (\<lambda>c. (c, b)) cs"

lemma called_simps [simp]: "called b [] = []" "called b (c # cs) = (c, b) # called b cs"
  by (simp_all add: called_def)

lemma upd_upd [simp]: "upd f (upd g a) = upd (f \<circ> g) a"
  by (simp add: upd_def)

lemma hook_simps [simp]:
  "calls (hook c w) = calls w" "wk (hook c w) = wk w" "parser_agents (hook c w) = parser_agents w"
  "connectors (hook c w) = connectors w" "has_app (hook c w) = has_app w"
  by (simp_all add: hook_def)

lemma set_loop:
  fixes a :: "('t, 'n, 'f) node_app"
  shows "for_each Set_app cs a = (upd (\<lambda>w. w\<lparr>has_app := (\<lambda>c. has_app w c \<or> c \<in> set cs)\<rparr>) a, Ret ())"
proof (induction cs arbitrary: a)
  case Nil
  show ?case by (simp add: upd_def)
next
  case (Cons c cs)
  have "(\<lambda>w. w\<lparr>has_app := (\<lambda>d. has_app w d \<or> d \<in> set cs)\<rparr>) \<circ> (\<lambda>w. w\<lparr>has_app := (has_app w)(c := True)\<rparr>) =
      (\<lambda>w :: ('t, 'n) node_world. w\<lparr>has_app := (\<lambda>d. has_app w d \<or> d \<in> set (c # cs))\<rparr>)"
    by (auto simp: fun_eq_iff intro: arg_cong [where f = "\<lambda>g. has_app_update g w" for w])
  moreover have "Set_app c a = (upd (\<lambda>w. w\<lparr>has_app := (has_app w)(c := True)\<rparr>) a, Ret ())"
    by (simp add: Set_app_def)
  ultimately show ?case by (simp add: Cons)
qed

text \<open>What each loop leaves of the calls, the worker and the parser.\<close>

definition loop_effect ::
    "('t, 'n, 'f) node_app \<Rightarrow> call list \<Rightarrow> ('t worker \<Rightarrow> 't worker) \<Rightarrow> bool \<Rightarrow> ('t, 'n, 'f) node_app \<Rightarrow> bool" where
  "loop_effect a cs f p b \<longleftrightarrow> (\<exists>g. b = upd g a \<and> calls (g (world a)) = calls (world a) @ called (Running a) cs \<and>
     wk (g (world a)) = f (wk (world a)) \<and> has_app (g (world a)) = has_app (world a) \<and>
     connectors (g (world a)) = connectors (world a) \<and>
     (parser_agents (g (world a)) \<longleftrightarrow> p \<or> parser_agents (world a)))"

lemma loop_effect_upd:
  assumes "b = upd g a" "calls (g (world a)) = calls (world a) @ called (Running a) cs"
    "wk (g (world a)) = f (wk (world a))" "has_app (g (world a)) = has_app (world a)"
    "connectors (g (world a)) = connectors (world a)"
    "parser_agents (g (world a)) \<longleftrightarrow> p \<or> parser_agents (world a)"
  shows "loop_effect a cs f p b"
  using assms unfolding loop_effect_def by blast

lemma find_agents:
  "Find (node_env0 r f) Agents_Name a = (if AgentsComp \<in> set (components a) then Some AgentsComp else None)"
  using Find_Name [of "node_env0 r f" AgentsComp a] by (simp add: Name.simps)

lemmas component_calls = cluster_Init_def cluster_OnStop_def discovery_Init_def discovery_OnStop_def

lemmas loop_defs = component_calls empty_methods worker_OnStop_def start_wk_def make_call_def
  Parser_Init_def Parser_OnAfterInit_def Agents_Init_def find_agents

lemma init_loop_gate:
  assumes "components a = gate_comps @ [TcpComp, WsComp]" "connectors (world a) \<noteq> []"
    "has_app (world a) ParserComp" "has_app (world a) AgentsComp" "app_cluster a \<noteq> None"
  shows "\<exists>b. for_each (Init_of (node_env0 (\<lambda>_. Ret ()) fns) (\<lambda>_. Ret ())) (components a) a = (b, Ret ()) \<and>
    loop_effect a [ClusterInit, DiscoveryLoad, SetAgentHandler] id True b"
  using assms by (auto simp: loop_defs intro!: loop_effect_upd [OF refl])

lemma init_loop_plain:
  "\<exists>b. for_each (Init_of (node_env0 (\<lambda>_. Ret ()) fns) (\<lambda>_. Ret ())) common_comps a = (b, Ret ()) \<and>
    loop_effect a [ClusterInit, DiscoveryLoad] id False b"
  by (auto simp: loop_defs intro!: loop_effect_upd [OF refl])

lemma after_loop_gate:
  assumes "connectors (world a) = [TcpComp, WsComp]"
  shows "\<exists>b. for_each (OnAfterInit_of (\<lambda>_. Ret ())) (gate_comps @ [TcpComp, WsComp]) a = (b, Ret ()) \<and>
    loop_effect a [WorkerStart, GoStart TcpComp, GoStart WsComp] Start False b"
  using assms by (auto simp: loop_defs intro!: loop_effect_upd [OF refl])

lemma after_loop_plain:
  "\<exists>b. for_each (OnAfterInit_of (\<lambda>_. Ret ())) common_comps a = (b, Ret ()) \<and>
    loop_effect a [WorkerStart] Start False b"
  by (auto simp: loop_defs intro!: loop_effect_upd [OF refl])

lemma loop_effectD:
  assumes "loop_effect a cs f p b"
  shows "calls (world b) = calls (world a) @ called (Running a) cs" "wk (world b) = f (wk (world a))"
    "has_app (world b) = has_app (world a)" "connectors (world b) = connectors (world a)"
    "parser_agents (world b) \<longleftrightarrow> p \<or> parser_agents (world a)"
    "components b = components a" "app_running b = app_running a" "app_worker b = app_worker a"
    "app_cluster b = app_cluster a" "onShutdownFn b = onShutdownFn a" "Running b = Running a"
  using assms by (auto simp: loop_effect_def)

lemma Startup_begin_calls:
  fixes a :: "('t, 'n, 'f) node_app"
  assumes "startable a"
  shows "\<exists>b. Startup_begin (node_env (\<lambda>_. Ret ()) fns) a = (b, Ret True) \<and> app_running b = 1 \<and>
    components b = (if netParser a = None then common_comps else gate_comps @ [TcpComp, WsComp]) \<and>
    onShutdownFn b = onShutdownFn a \<and>
    calls (world b) = calls (world a) @ called False (if netParser a = None then plain_calls else gate_calls) \<and>
    wk (world b) = Start (Start (wk (world a))) \<and> app_worker b = Some WorkerComp"
proof -
  let ?E = "node_env (\<lambda>_. Ret ()) fns"
  let ?a1 = "register_connectors ?E a"
  let ?cs = "if netParser a = None then common_comps else gate_comps @ [TcpComp, WsComp]"
  define a2 where "a2 = upd (\<lambda>w. w\<lparr>has_app := (\<lambda>c. has_app w c \<or> c \<in> set ?cs)\<rparr>) ?a1"
  have r: "app_running a = 0" "\<not> Running a" using assms by (auto simp: startable_def Running_def)
  have a1: "components ?a1 = ?cs" "world ?a1 = world a" "app_running ?a1 = 0" "app_worker ?a1 = Some WorkerComp"
    "app_cluster ?a1 \<noteq> None" "onShutdownFn ?a1 = onShutdownFn a"
    using assms by (auto simp: register_connectors_eq startable_def)
  have conn: "netParser a \<noteq> None \<Longrightarrow> connectors (world a) = [TcpComp, WsComp]"
    using assms by (auto simp: startable_def)
  have loop1: "for_each Set_app ?cs ?a1 = (a2, Ret ())" by (simp only: set_loop a2_def)
  have a2: "components a2 = ?cs" "app_running a2 = 0" "app_worker a2 = Some WorkerComp"
    "app_cluster a2 \<noteq> None" "onShutdownFn a2 = onShutdownFn a" "calls (world a2) = calls (world a)"
    "wk (world a2) = wk (world a)" "connectors (world a2) = connectors (world a)" "\<not> Running a2"
    and app: "\<And>c. c \<in> set ?cs \<Longrightarrow> has_app (world a2) c"
    using a1 by (auto simp: a2_def Running_def)
  obtain b1 p where loop2: "for_each (Init_of (node_env0 (\<lambda>_. Ret ()) fns) (\<lambda>_. Ret ())) ?cs a2 = (b1, Ret ())"
    "loop_effect a2 (if netParser a = None then [ClusterInit, DiscoveryLoad] else [ClusterInit, DiscoveryLoad, SetAgentHandler]) id p b1"
  proof (cases "netParser a")
    case None
    then show thesis using init_loop_plain [of fns a2] that by auto
  next
    case (Some q)
    then show thesis using init_loop_gate [of a2 fns] a2 app conn that by auto
  qed
  note b1 = loop_effectD [OF loop2(2)]
  obtain b2 where loop3: "for_each (OnAfterInit_of (\<lambda>_. Ret ())) ?cs b1 = (b2, Ret ())"
    "loop_effect b1 (if netParser a = None then [WorkerStart] else [WorkerStart, GoStart TcpComp, GoStart WsComp]) Start False b2"
    using after_loop_gate [of b1] after_loop_plain [of b1] b1(4) a2(8) conn by (cases "netParser a") auto
  note b2 = loop_effectD [OF loop3(2)]
  have "Startup_begin ?E a = seq_proc (start_worker ?E) (\<lambda>_ c. (c\<lparr>app_running := app_running c + 1\<rparr>, Ret True)) b2"
    using r(2) loop1 loop2(1) loop3(1) a1(1) a2(1) b1(6) by (simp add: Startup_begin_def)
  then show ?thesis using r a2 b1 b2
    by (simp add: start_worker_def start_wk_def make_call_def gate_calls_def plain_calls_def)
qed

section \<open>Properties of starting and stopping\<close>

lemma gate_Run_gate:
  fixes fns :: "'f \<Rightarrow> (('t, 'n, 'f) node_app, unit) proc"
  assumes "FindNode conf k = Some cfg" and "IsGate cfg"
  shows "\<exists>b. gate_Run (\<lambda>_. Ret ()) fns w conf k = Inr (b, Ret True) \<and> app_running b = 1 \<and>
    components b = gate_comps @ [TcpComp, WsComp] \<and> onShutdownFn b = [] \<and>
    calls (world b) = called False ([Routed TCReqLogin NodeTypeGate, Listened TCReqLogin] @ gate_calls) \<and>
    wk (world b) = Start (Start w) \<and> app_worker b = Some WorkerComp"
proof -
  let ?E = "node_env (\<lambda>_. Ret ()) fns"
  let ?a = "new_app w cfg :: ('t, 'n, 'f) node_app"
  let ?b = "fst (make_call (\<lambda>_. Ret ()) (Listened TCReqLogin) (fst (make_call (\<lambda>_. Ret ()) (Routed TCReqLogin NodeTypeGate) ?a)))"
  have f: "Find ?E Agents_Name ?a = Some AgentsComp"
    using Find_Name [of ?E AgentsComp ?a] assms(2) by (simp add: Name.simps new_app_def)
  have "gate_Run (\<lambda>_. Ret ()) fns w conf k = Inr (Startup_begin ?E ?b)"
    using assms f by (simp add: gate_Run_def NewAppNode_eq routeMessage_def listenMessage_def make_call_def)
      (simp add: new_app_def)
  moreover have "startable ?b" by (intro startable_call startable_new)
  moreover have "netParser ?b = Some ParserComp" "onShutdownFn ?b = []" "wk (world ?b) = w"
    "calls (world ?b) = called False [Routed TCReqLogin NodeTypeGate, Listened TCReqLogin]"
    using assms(2) by (simp_all add: make_call_def new_app_def new_world_def Running_def)
  ultimately show ?thesis using Startup_begin_calls [of ?b fns] by (auto simp: called_def)
qed

lemma auth_Run_plain:
  fixes fns :: "'f \<Rightarrow> (('t, 'n, 'f) node_app, unit) proc"
  assumes "FindNode conf k = Some cfg" and "\<not> IsGate cfg"
  shows "\<exists>b. auth_Run (\<lambda>_. Ret ()) fns w conf k = Inr (b, Ret True) \<and> app_running b = 1 \<and>
    calls (world b) = called False ([Listened TReqAuth] @ plain_calls) \<and> wk (world b) = Start (Start w)"
proof -
  let ?E = "node_env (\<lambda>_. Ret ()) fns"
  let ?b = "fst (make_call (\<lambda>_. Ret ()) (Listened TReqAuth) (new_app w cfg :: ('t, 'n, 'f) node_app))"
  have "auth_Run (\<lambda>_. Ret ()) fns w conf k = Inr (Startup_begin ?E ?b)"
    using assms by (simp add: auth_Run_def NewAppNode_eq make_call_def) (simp add: new_app_def)
  moreover have "startable ?b" by (intro startable_call startable_new)
  moreover have "netParser ?b = None" "wk (world ?b) = w" "calls (world ?b) = called False [Listened TReqAuth]"
    using assms(2) by (simp_all add: make_call_def new_app_def new_world_def Running_def)
  ultimately show ?thesis using Startup_begin_calls [of ?b fns] by (auto simp: called_def)
qed

text \<open>
  C11: The order in which a gate comes up, when no call fails. Routes and handlers are
  registered first, then come the cluster, the discovery and the agents' handler, then the
  worker; the connectors, which let clients in, are started after every \<open>Init\<close>, and all
  of it happens before the node counts as running. A node that is no gate makes the same
  calls without agents and connectors. The worker is started twice.
\<close>

theorem startup_order:
  fixes fns :: "'f \<Rightarrow> (('t, 'n, 'f) node_app, unit) proc"
  assumes "FindNode conf k = Some cfg"
  shows "(\<not> IsGate cfg \<or> (\<exists>b. gate_Run (\<lambda>_. Ret ()) fns w conf k = Inr (b, Ret True) \<and> Running b \<and>
      calls (world b) = map (\<lambda>c. (c, False))
        [Routed TCReqLogin NodeTypeGate, Listened TCReqLogin, ClusterInit, DiscoveryLoad, SetAgentHandler,
         WorkerStart, GoStart TcpComp, GoStart WsComp, WorkerStart] \<and>
      starts (wk (world b)) = starts w + 2)) \<and>
    (IsGate cfg \<or> (\<exists>b. auth_Run (\<lambda>_. Ret ()) fns w conf k = Inr (b, Ret True) \<and> Running b \<and>
      calls (world b) = map (\<lambda>c. (c, False))
        [Listened TReqAuth, ClusterInit, DiscoveryLoad, WorkerStart, WorkerStart] \<and>
      starts (wk (world b)) = starts w + 2))"
  using gate_Run_gate [OF assms, of fns w] auth_Run_plain [OF assms, of fns w]
  by (cases "IsGate cfg") (auto simp: Running_def gate_calls_def plain_calls_def Start_def)

text \<open>
  \<open>gate.Run\<close> on a node of the profile that is not marked as a gate panics before
  anything has been registered or started: the agents it asks for are not there. For an id
  that the profile does not have, both services return an error.
\<close>

theorem gate_needs_gate_node:
  "(case FindNode conf k of
      None \<Rightarrow> gate_Run result fns w conf k = Inl (Errorf ''[nodeId = %s] not found'' [ArgS k]) \<and>
        auth_Run result fns w conf k = Inl (Errorf ''[nodeId = %s] not found'' [ArgS k])
    | Some cfg \<Rightarrow> IsGate cfg \<or> (\<exists>a. gate_Run result fns w conf k = Inr (a, Panic no_agents_text) \<and>
        calls (world a) = [] \<and> \<not> Running a))"
proof (cases "FindNode conf k")
  case None
  then show ?thesis by (simp add: gate_Run_def auth_Run_def NewAppNode_eq del: sprintf.simps)
next
  case (Some cfg)
  let ?E = "node_env result fns"
  have "Find ?E Agents_Name (new_app w cfg) = None" if "\<not> IsGate cfg"
    using Find_Name [of ?E AgentsComp "new_app w cfg"] that by (simp add: Name.simps new_app_def)
  then show ?thesis using Some
    by (auto simp: gate_Run_def NewAppNode_eq routeMessage_def new_app_def new_world_def Running_def)
qed

section \<open>Stopping\<close>

lemma OnStop_calm:
  assumes "\<And>c t. result c \<noteq> Exit t"
  shows "calm (OnStop_of result)"
  unfolding calm_def
proof (intro allI)
  fix c and a :: "('t, 'n, 'f) node_app"
  show "components (fst (OnStop_of result c a)) = components a \<and> (\<forall>t. snd (OnStop_of result c a) \<noteq> Exit t)"
    using assms by (cases c) (simp_all add: component_calls worker_OnStop_def stop_wk_def stop_connector_def make_call_def
        base_OnStop_def)
qed

lemma BeforeStop_calm: "calm (\<lambda>_. base_OnBeforeStop)"
  by (simp add: calm_def base_OnBeforeStop_def)

lemma effect_BeforeStop: "effect (\<lambda>_. base_OnBeforeStop) c a = a"
  by (simp add: effect_def base_OnBeforeStop_def)

text \<open>
  C12: The order in which a gate goes down, whichever of the calls panic: the connectors,
  the discovery, the cluster, and the worker last. The node has stopped counting as running
  before the first of them. So the functions still queued when a signal ends the node are run
  after the cluster is gone, and what they answer is not sent.
\<close>

theorem shutdown_order:
  fixes fns :: "'f \<Rightarrow> (('t, 'n, 'f) node_app, unit) proc"
  assumes "FindNode conf k = Some cfg" and "IsGate cfg"
    and "gate_Run (\<lambda>_. Ret ()) fns w conf k = Inr (b, Ret True)"
    and "\<And>c t. result c \<noteq> Exit t" and "calm fns" and "\<not> closed w"
  shows "(\<exists>e. Startup_end (node_env result fns) b = (e, Ret ()) \<and> \<not> Running e \<and>
      calls (world e) = calls (world b) @ map (\<lambda>c. (c, False))
        [ConnectorStop WsComp, ConnectorStop TcpComp, DiscoveryStop, ClusterStop, WorkerStop]) \<and>
    (running n \<or> published (fst (Resp E s m n)) = published n)"
proof
  have b: "components b = gate_comps @ [TcpComp, WsComp]" "onShutdownFn b = []" "wk (world b) = Start (Start w)"
    using gate_Run_gate [OF assms(1,2), of fns w] assms(3) by auto
  have "Startup_end (node_env result fns) b =
      (fold (effect (OnStop_of result)) (rev (gate_comps @ [TcpComp, WsComp])) (b\<lparr>app_running := 0\<rparr>), Ret ())"
    using b by (subst Startup_end_calm)
      (simp_all add: assms(5) OnStop_calm assms(4) BeforeStop_calm effect_BeforeStop)
  then show "\<exists>e. Startup_end (node_env result fns) b = (e, Ret ()) \<and> \<not> Running e \<and>
      calls (world e) = calls (world b) @ map (\<lambda>c. (c, False))
        [ConnectorStop WsComp, ConnectorStop TcpComp, DiscoveryStop, ClusterStop, WorkerStop]"
    using b(3) assms(6) by (simp add: effect_def component_calls worker_OnStop_def stop_wk_def stop_connector_def
        make_call_def base_OnStop_def Start_def Running_def)
next
  have "published (fst (Resp E s m n)) = published n" if "\<not> running n"
    using that by (simp add: Resp_def pack_in_def SendBytes_def split: prod.split outcome.split sum.split)
  then show "running n \<or> published (fst (Resp E s m n)) = published n" by blast
qed

section \<open>The nodes of the repository's profile\<close>

definition repo_gate :: NodeCfg where
  "repo_gate = \<lparr>Cfg_NodeId = ''gate1'', Cfg_NodeType = ''gate'', Ports = [''ws'' \<mapsto> 10101, ''tcp'' \<mapsto> 20202],
     IsGate = True, Log = sample_config\<rparr>"

definition repo_auth :: NodeCfg where
  "repo_auth = \<lparr>Cfg_NodeId = ''auth1'', Cfg_NodeType = ''auth'', Ports = Map.empty, IsGate = False,
     Log = sample_config\<rparr>"

definition repo_profile :: "unit ClusterCfg" where
  "repo_profile = \<lparr>Project = ''xgame-sgs'', Etcd = (), Nodes = [repo_gate, repo_auth],
     Nats = \<lparr>Nats_Address = ''nats://localhost:4222'', User = [], Password = [], ReconnectDelay = 0\<rparr>\<rparr>"

lemma repo_nodes [simp]:
  "FindNode repo_profile ''gate1'' = Some repo_gate" "FindNode repo_profile ''auth1'' = Some repo_auth"
  "IsGate repo_gate" "\<not> IsGate repo_auth"
  by (simp_all add: FindNode_def repo_profile_def repo_gate_def repo_auth_def)

definition repo_worker :: "nat worker" where
  "repo_worker = \<lparr>closed = False, fs = make_chan 1024, len = 0, runners = [], posters = [], timers = [],
     stopper = NotStopping, accepted = [], finished = [], starts = 0, post_panics = 0\<rparr>"

lemma repo_worker_new: "Worker_New 1024 = Ret repo_worker"
  by (simp add: Worker_New_def NewWorker_def repo_worker_def)

type_synonym repo_app = "(nat, nat, unit) node_app"

definition no_fns :: "unit \<Rightarrow> (repo_app, unit) proc" where
  "no_fns f a = (a, Ret ())"

theorem startup_order_witness:
  "(\<exists>b. gate_Run (\<lambda>_. Ret ()) no_fns repo_worker repo_profile ''gate1'' = Inr (b, Ret True) \<and>
      starts (wk (world b)) = 2) \<and>
   (\<exists>b. auth_Run (\<lambda>_. Ret ()) no_fns repo_worker repo_profile ''auth1'' = Inr (b, Ret True) \<and>
      length (calls (world b)) = 5)"
  using startup_order [OF repo_nodes(1), of no_fns repo_worker]
    startup_order [OF repo_nodes(2), of no_fns repo_worker]
  by (auto simp: repo_worker_def)

definition worker_stop_panics :: "call \<Rightarrow> unit outcome" where
  "worker_stop_panics c = (if c = DiscoveryStop then Panic ''boom'' else Ret ())"

theorem shutdown_order_witness:
  "\<exists>b e. gate_Run (\<lambda>_. Ret ()) no_fns repo_worker repo_profile ''gate1'' = Inr (b, Ret True) \<and>
     Startup_end (node_env worker_stop_panics no_fns) b = (e, Ret ()) \<and> (WorkerStop, False) \<in> set (calls (world e))"
proof -
  obtain b where b: "gate_Run (\<lambda>_. Ret ()) no_fns repo_worker repo_profile ''gate1'' = Inr (b, Ret True)"
    using gate_Run_gate [OF repo_nodes(1,3)] by blast
  have "worker_stop_panics c \<noteq> Exit t" for c t by (simp add: worker_stop_panics_def)
  moreover have "calm no_fns" by (simp add: calm_def no_fns_def)
  moreover have "\<not> closed repo_worker" by (simp add: repo_worker_def)
  ultimately obtain e where "Startup_end (node_env worker_stop_panics no_fns) b = (e, Ret ())"
    "calls (world e) = calls (world b) @ map (\<lambda>c. (c, False))
        [ConnectorStop WsComp, ConnectorStop TcpComp, DiscoveryStop, ClusterStop, WorkerStop]"
    using shutdown_order [OF repo_nodes(1,3) b, THEN conjunct1] by blast
  then show ?thesis using b by auto
qed

section \<open>A new connection\<close>

text \<open>
  \<open>defaultOnConnectFunc\<close>: a session with a new id, an agent for it, then the parser's function
  for new agents, which adds the close function \<open>fn\<close> (\<open>None\<close> when the parser has no such
  function), the entry in the directory, and the start of the goroutines. \<open>sid\<close> is the result
  of \<open>nuid.Next\<close>, \<open>ip\<close> the remote address, \<open>self E\<close> the reference of the new agent.
\<close>

definition defaultOnConnectFunc ::
    "('t, 'm, 'f) agent_env \<Rightarrow> int \<Rightarrow> string \<Rightarrow> string \<Rightarrow> 'f option \<Rightarrow> agents \<Rightarrow> ('m, 'f) agent" where
  "defaultOnConnectFunc E now sid ip fn g =
     (let g' = g\<lparr>sessions := (sessions g)(self E := \<lparr>Sid = sid, Uid = 0, Ip = []\<rparr>)\<rparr>;
         newAgent = AddOnClose fn (NewAgent E now ip g')
     in Agent_Start (bind_agent E newAgent))"

text \<open>
  C19: A client that connects is known to the gate before it can send anything. With a new
  session id its agent is found under it, without a user, every other session is found as
  before and the directory stays consistent; and what follows is a run of the agent as its
  own properties describe it.
\<close>

theorem new_connection_is_known:
  assumes "consistent g" and "sidAgentMap g sid = None" and "\<And>k. sidAgentMap g k \<noteq> Some (self E)"
    and "a = defaultOnConnectFunc E now sid ip fn g"
  shows "GetAgent sid (mgr a) = Some (self E) \<and> agent_UID (mgr a) (self E) = 0 \<and>
    (\<forall>k u. (k = sid \<or> GetAgent k (mgr a) = GetAgent k g) \<and> GetAgentWithUID u (mgr a) = GetAgentWithUID u g) \<and>
    consistent (mgr a) \<and> agent_reach E a"
proof -
  let ?g = "g\<lparr>sessions := (sessions g)(self E := \<lparr>Sid = sid, Uid = 0, Ip = ip\<rparr>)\<rparr>"
  have m: "mgr a = BindSID (self E) ?g"
    by (simp add: assms(4) defaultOnConnectFunc_def AddOnClose_def on_connect_defs split: option.split)
  have other: "agent_SID ?g b = agent_SID g b" "agent_UID ?g b = agent_UID g b" if "sidAgentMap g k = Some b" for k b
    using assms(3) [of k] that by (auto simp: agent_SID_def agent_UID_def)
  have uid_eq: "(\<exists>b. sidAgentMap g k = Some b \<and> agent_UID ?g b = u) \<longleftrightarrow>
      (\<exists>b. sidAgentMap g k = Some b \<and> agent_UID g b = u)" for k u
    using other(2) by metis
  have "sid_wf ?g" using assms(1) other(1) by (simp add: consistent_def sid_wf_def)
  moreover have "uid_wf ?g" using assms(1) uid_eq by (simp add: consistent_def uid_wf_def)
  ultimately have c: "consistent ?g" by (simp add: consistent_def)
  have new: "agent_SID ?g (self E) = sid" "agent_UID ?g (self E) = 0"
    by (simp_all add: agent_SID_def agent_UID_def)
  have "consistent (mgr a)" unfolding m
    by (rule consistent_keeps(2) [OF c]) (use new assms(2) in simp_all)
  moreover have "GetAgentWithUID u (mgr a) = GetAgentWithUID u g" for u
  proof -
    have "uidMap g u \<noteq> Some sid" using uid_wfD [of g u sid] assms(1,2) by (auto simp: consistent_def)
    then show ?thesis using new(1)
      by (auto simp: m GetAgentWithUID_def frame_simps split: option.split)
  qed
  moreover have "GetAgent k (mgr a) = (if k = sid then Some (self E) else GetAgent k g)" for k
    using new(1) by (simp add: m GetAgent_def frame_simps)
  moreover have "agent_UID (mgr a) (self E) = 0" using new(2) by (simp add: m agent_UID_def frame_simps)
  moreover have "agent_reach E a"
  proof (rule agent_reach_step)
    show "agent_reach E (on_connect E now ip ?g)" unfolding agent_reach_def by (meson rtranclp.rtrancl_refl)
    have "a = AddOnClose fn (on_connect E now ip ?g)"
      by (simp add: assms(4) defaultOnConnectFunc_def AddOnClose_def on_connect_defs split: option.split)
    then show "agent_step E (on_connect E now ip ?g) a" using Add_fn by metis
  qed
  ultimately show ?thesis by simp
qed

theorem new_connection_is_known_witness:
  "GetAgent ''abc'' (mgr (defaultOnConnectFunc sample_agent_env 5 ''abc'' ''127.0.0.1'' (Some ())
     (NewAgents sample_sessions))) = Some 1"
proof -
  have "self sample_agent_env = 1" by (simp add: sample_agent_env_def)
  moreover have "consistent (NewAgents sample_sessions)" by (rule consistent_keeps)
  moreover have "sidAgentMap (NewAgents sample_sessions) k = None" for k by (simp add: NewAgents_def)
  ultimately show ?thesis
    using new_connection_is_known [of "NewAgents sample_sessions" "''abc''" sample_agent_env, OF _ _ _ refl]
    by simp
qed

end
