(* ===== verification/Login.thy ===== *)
theory Login
  imports Nodes
begin

text \<open>
  \<^verbatim>\<open>gate/listen_message.go\<close> and the handler of \<^verbatim>\<open>auth/auth.go\<close>, and a client's log-in from
  its frame to the answer: the gate forwards it into the cluster, a gate node handles it, the
  answer comes back to the first gate and is handed to the client's agent.
\<close>

section \<open>The handlers\<close>

text \<open>The two handlers of a gate node: its own, and the default one of \<open>Agents.Init\<close>.\<close>

datatype gate_handler = OnCReqLogin | AgentHandler

type_synonym ('c, 'l) gate_env = "(pb_type, pb_msg, gate_handler, 'c, 'l) cluster_env"
type_synonym ('c, 'l) gate_node = "(pb_type, pb_msg, gate_handler, 'c, 'l) node"

definition login_answer :: "CReqLogin \<Rightarrow> SRespLogin" where
  "login_answer req = \<lparr>SRespLogin_Code = 0, SRespLogin_Uid = ucast (crc32 (bytes_of (CReqLogin_Account req)))\<rparr>"

definition onCReqLogin :: "('c, 'l) gate_env \<Rightarrow> MsgCommon \<Rightarrow> CReqLogin \<Rightarrow> (('c, 'l) gate_node, unit) proc" where
  "onCReqLogin E sender req = Resp E sender (MSRespLogin (login_answer req))"

definition onReqAuth :: "(pb_type, pb_msg, 'h, 'c, 'l) cluster_env \<Rightarrow> MsgCommon \<Rightarrow> ReqAuth \<Rightarrow>
    ((pb_type, pb_msg, 'h, 'c, 'l) node, unit) proc" where
  "onReqAuth E sender req = Resp E sender (MRespAuth \<lparr>RespAuth_Code = 0\<rparr>)"

text \<open>
  The services of a gate. What \<open>AgentHandler\<close> does, \<open>Agents_Init_handler\<close>, is outside
  the state of the node.
\<close>

definition gate_services :: "('c, 'l) gate_env \<Rightarrow> bool" where
  "gate_services E \<longleftrightarrow>
     (\<forall>s req. run_handler E OnCReqLogin s (MCReqLogin req) = onCReqLogin E s req) \<and>
     (\<forall>s m n. run_handler E AgentHandler s m n = (n, Ret ())) \<and>
     publish_error E = (\<lambda>_ _. None) \<and> proto_ok (lib E) \<and>
     fname (lib E) = full_name \<and> mtype (lib E) = pb_msg_type"

text \<open>A gate as \<open>gate.Run\<close> sets it up.\<close>

definition gate_ready :: "('c, 'l) gate_env \<Rightarrow> ('c, 'l) gate_node \<Rightarrow> bool" where
  "gate_ready E n \<longleftrightarrow> node_ready n \<and> reg_wf (lib E) (types n) \<and>
     type2id (types n) TCReqLogin = Some (name_id (full_name TCReqLogin)) \<and>
     reqHandlers n = [name_id (full_name TCReqLogin) \<mapsto> UserHandler TCReqLogin OnCReqLogin] \<and>
     defaultHandler n = Some (DefaultHandler AgentHandler)"

section \<open>One frame\<close>

lemma pack_in_sent:
  assumes "proto_ok (lib E)" and "reg_wf (lib E) (types n)" and "type_free E m n"
    and "fits E (c\<lparr>Route := route_of E m\<rparr>) m"
  obtains g where
    "pack_in E c m n = (n\<lparr>types := g\<rparr>, Ret (Inr (encode (lib E) (c\<lparr>Route := route_of E m\<rparr>, m))))"
    "sendable (lib E) g (c\<lparr>Route := route_of E m\<rparr>, m)"
    "\<And>t i. type2id (types n) t = Some i \<Longrightarrow> type2id g t = Some i"
proof -
  let ?c = "c\<lparr>Route := route_of E m\<rparr>"
  obtain rc rm where raw: "MarshalCommon (lib E) ?c = Inr rc" "Marshal (lib E) m = Inr rm"
      "length rc < 65536" "length rm < 65536"
    using assms(4) by (auto simp: fits_def)
  obtain g where pk: "PackMessage (lib E) c m (types n) = (g, Ret (?c, Inr (frame rc rm)))"
    using PackMessage_success [OF assms(2) assms(3) [unfolded type_free_def] raw(2,1)] by blast
  have "small_bodies (lib E) (?c, m)" using raw by (auto simp: small_bodies_def)
  from PackMessage_sendable [OF assms(1,2) pk this]
  have "sendable (lib E) g (?c, m)" "frame rc rm = encode (lib E) (?c, m)" by simp_all
  note sent = this
  have "pack_in E c m n = (n\<lparr>types := g\<rparr>, Ret (Inr (encode (lib E) (?c, m))))"
    using sent(2) pk by (simp add: pack_in_def)
  note this sent(1)
  moreover have "type2id g t = Some i" if "type2id (types n) t = Some i" for t i
    using PackMessage_keeps [OF assms(2) that, of c m] pk by simp
  ultimately show thesis using that by blast
qed

text \<open>A message without a handler of its own is posted with the default one.\<close>

lemma receive_default:
  assumes "node_ready n" and "sendable (lib E) (types n) (c, m)"
    and "reqHandlers n (Route c) = None" and "defaultHandler n = Some h"
  shows "receive_turn E (nats_deliver (subject (natsSub n)) (encode (lib E) (c, m)) n) =
    Some (n\<lparr>queue := (queue n)\<lparr>buf := [Task (Some h) c m]\<rparr>\<rparr>)"
proof -
  have "ReadMessage (lib E) (types n) (encode (lib E) (c, m), None) = (Inr (c, m), ([], None))"
    using read_encode [OF assms(2), of "[]" None] by simp
  then have "process_msg E (encode (lib E) (c, m)) n =
      Some (n\<lparr>queue := (queue n)\<lparr>buf := [Task (Some h) c m]\<rparr>\<rparr>)"
    using assms by (simp add: process_msg_def post_def node_ready_def chan_send_def)
  moreover have "receive_turn E (nats_deliver (subject (natsSub n)) data n) =
      process_msg E data (n\<lparr>natsSub := (natsSub n)\<lparr>ch := (ch (natsSub n))\<lparr>buf := []\<rparr>\<rparr>\<rparr>)" for data
    using assms(1)
    by (simp add: receive_turn_def nats_deliver_def chan_recv_def chan_send_def node_ready_def)
  ultimately show ?thesis by (simp only: ready_same [OF assms(1)])
qed

lemma login_routes: "name_id (full_name TSRespLogin) \<noteq> name_id (full_name TCReqLogin)"
  using crc32_full_name_inj [of TSRespLogin TCReqLogin] by blast

text \<open>In a registry of the repository's types every type can be packed.\<close>

lemma repo_free:
  assumes "fname P = full_name" and "reg_wf P g"
  shows "id2type g (name_id (full_name t)) \<in> {None, Some t}"
proof (cases "id2type g (name_id (full_name t))")
  case (Some u)
  then have "type2id g u = Some (name_id (full_name t))" using reg_wfD(1) [OF assms(2)] by simp
  then have "name_id (full_name t) = name_id (full_name u)" using reg_wfD(2) [OF assms(2)] assms(1) by simp
  then show ?thesis using Some crc32_full_name_inj [of u t] by (simp del: full_name.simps)
qed simp

lemma repo_type_free:
  assumes "fname (lib E) = full_name" and "reg_wf (lib E) (types n)"
  shows "type_free E m n"
  unfolding type_free_def assms(1) by (rule repo_free [OF assms])

lemma gate_frame [simp]:
  "gate_ready E (n\<lparr>published := ps\<rparr>) = gate_ready E n"
  by (simp add: gate_ready_def node_ready_def)

lemma gate_ready_types:
  assumes "gate_ready E n" and "sendable (lib E) g cm"
    and "\<And>t i. type2id (types n) t = Some i \<Longrightarrow> type2id g t = Some i"
  shows "gate_ready E (n\<lparr>types := g\<rparr>)"
  using assms by (simp add: gate_ready_def node_ready_def sendable_def)

section \<open>The way of a log-in\<close>

text \<open>The header under which a message of type \<open>t\<close> travels from a gate to itself.\<close>

definition login_header :: "agents \<Rightarrow> aid \<Rightarrow> string \<Rightarrow> MsgCommon \<Rightarrow> pb_type \<Rightarrow> MsgCommon" where
  "login_header g a k c t =
     c\<lparr>SourceId := k, TargetId := k, McUid := agent_UID g a, McSid := agent_SID g a,
       Route := name_id (full_name t)\<rparr>"

lemma SendBytes_self:
  assumes "gate_ready E n" and "knows n n" and "publish_error E = (\<lambda>_ _. None)"
  shows "SendBytes E (self_id n) d (n\<lparr>types := g\<rparr>) =
    (n\<lparr>types := g, published := published n @ [(subject (natsSub n), d)]\<rparr>, None)"
  using SendBytes_ok [of "n\<lparr>types := g\<rparr>" "self_id n" "self_type n" E d] assms
  by (simp add: gate_ready_def node_ready_def knows_def)

lemma Resp_self:
  assumes "gate_services E" and "gate_ready E n" and "knows n n"
    and "SourceId c = self_id n" and "TargetId c = self_id n"
    and "fits E (c\<lparr>Route := route_of E m\<rparr>) m"
  obtains gg where
    "Resp E c m n = (n\<lparr>types := gg, published := published n @
       [(subject (natsSub n), encode (lib E) (c\<lparr>Route := route_of E m\<rparr>, m))]\<rparr>, Ret ())"
    "sendable (lib E) gg (c\<lparr>Route := route_of E m\<rparr>, m)"
    "\<And>t i. type2id (types n) t = Some i \<Longrightarrow> type2id gg t = Some i"
proof -
  have E: "proto_ok (lib E)" "publish_error E = (\<lambda>_ _. None)" "fname (lib E) = full_name"
    using assms(1) by (simp_all add: gate_services_def)
  have wf: "reg_wf (lib E) (types n)" using assms(2) by (simp add: gate_ready_def)
  obtain gg where gg: "pack_in E c m n = (n\<lparr>types := gg\<rparr>, Ret (Inr (encode (lib E) (c\<lparr>Route := route_of E m\<rparr>, m))))"
    "sendable (lib E) gg (c\<lparr>Route := route_of E m\<rparr>, m)"
    "\<And>t i. type2id (types n) t = Some i \<Longrightarrow> type2id gg t = Some i"
    using pack_in_sent [OF E(1) wf repo_type_free [of E n m, OF E(3) wf] assms(6)] by metis
  have c: "\<lparr>SourceId = TargetId c, TargetId = SourceId c, Mid = Mid c, McSid = McSid c, McUid = McUid c,
      Route = Route c\<rparr> = c"
    using assms(4,5) by (cases c) simp
  have "Resp E c m n = (n\<lparr>types := gg, published := published n @
       [(subject (natsSub n), encode (lib E) (c\<lparr>Route := route_of E m\<rparr>, m))]\<rparr>, Ret ())"
    unfolding Resp_def c Let_def using gg(1) SendBytes_self [OF assms(2,3) E(2)] assms(5)
    by simp
  with gg that show thesis by blast
qed

text \<open>The handler's turn: a forwarded log-in in, its answer out.\<close>

lemma serve_login:
  assumes "gate_services E" and "gate_ready E n" and "knows n n"
    and "SourceId c = self_id n" and "TargetId c = self_id n" and "Route c = name_id (full_name TCReqLogin)"
    and "sendable (lib E) (types n) (c, MCReqLogin r)"
    and "fits E (c\<lparr>Route := name_id (full_name TSRespLogin)\<rparr>) (MSRespLogin (login_answer r))"
  obtains g where
    "serve_one E (subject (natsSub n)) (encode (lib E) (c, MCReqLogin r)) n =
       (n\<lparr>types := g, published := published n @ [(subject (natsSub n), encode (lib E)
          (c\<lparr>Route := name_id (full_name TSRespLogin)\<rparr>, MSRespLogin (login_answer r)))]\<rparr>, Ret ())"
    "sendable (lib E) g (c\<lparr>Route := name_id (full_name TSRespLogin)\<rparr>, MSRespLogin (login_answer r))"
    "\<And>t i. type2id (types n) t = Some i \<Longrightarrow> type2id g t = Some i"
proof -
  let ?ans = "MSRespLogin (login_answer r)"
  have E: "mtype (lib E) (MCReqLogin r) = TCReqLogin" "run_handler E OnCReqLogin c (MCReqLogin r) = onCReqLogin E c r"
    "route_of E ?ans = name_id (full_name TSRespLogin)"
    using assms(1) by (simp_all add: gate_services_def del: full_name.simps)
  have "node_ready n" "reqHandlers n (Route c) = Some (UserHandler TCReqLogin OnCReqLogin)"
    using assms(2,6) by (simp_all add: gate_ready_def del: full_name.simps)
  then have "serve_one E (subject (natsSub n)) (encode (lib E) (c, MCReqLogin r)) n = Resp E c ?ans n"
    using serve_one_frame [of n E c "MCReqLogin r"] assms(7) E by (simp add: onCReqLogin_def)
  then show thesis
    using Resp_self [OF assms(1-5), of ?ans] assms(8) that unfolding E(3) by metis
qed

text \<open>
  C9: A log-in is answered. When the only gate known to the discovery is the client's own,
  its log-in is forwarded once, from the gate to the gate; the handler answers once, with the
  checksum of the account as the user id; and the answer, which has no handler of its own,
  comes to the default one with the client's request id and with the session under which the
  agents find the client.
\<close>

theorem login_reaches_client:
  assumes "gate_services E" and "gate_ready E A" and "knows A A"
    and "Random intn entries ''gate'' = Some m" and "NodeId m = self_id A"
    and "route_type (pbRoute g) (Route c) = ''gate''" and "GetAgent (agent_SID g a) g = Some a"
    and "fits E (login_header g a (self_id A) c TCReqLogin) (MCReqLogin r)"
    and "fits E (login_header g a (self_id A) c TSRespLogin) (MSRespLogin (login_answer r))"
  shows "\<exists>A1 A2 A3 d1 d2 c2. processPacket E intn entries g a c (MCReqLogin r) A = (A1, Ret True) \<and>
    published A1 = published A @ [(subject (natsSub A), d1)] \<and>
    serve_one E (subject (natsSub A)) d1 A1 = (A2, Ret ()) \<and>
    published A2 = published A1 @ [(subject (natsSub A), d2)] \<and>
    receive_turn E (nats_deliver (subject (natsSub A)) d2 A2) = Some A3 \<and>
    buf (queue A3) = [Task (Some (DefaultHandler AgentHandler)) c2 (MSRespLogin (login_answer r))] \<and>
    Agents_Init_handler g c2 = Some a \<and> Mid c2 = Mid c"
proof -
  let ?req = "MCReqLogin r" and ?ans = "MSRespLogin (login_answer r)"
  let ?k = "self_id A" and ?s = "subject (natsSub A)"
  let ?c0 = "c\<lparr>SourceId := ?k, TargetId := ?k, McUid := agent_UID g a, McSid := agent_SID g a\<rparr>"
  let ?c1 = "login_header g a ?k c TCReqLogin" and ?c2 = "login_header g a ?k c TSRespLogin"
  have E: "proto_ok (lib E)" "publish_error E = (\<lambda>_ _. None)" "fname (lib E) = full_name"
    "mtype (lib E) = pb_msg_type" "run_handler E OnCReqLogin ?c1 ?req = onCReqLogin E ?c1 r"
    using assms(1) by (simp_all add: gate_services_def)
  have ids: "route_of E ?req = name_id (full_name TCReqLogin)" "route_of E ?ans = name_id (full_name TSRespLogin)"
    using E(3,4) by (simp_all del: full_name.simps)
  have c1: "?c0\<lparr>Route := route_of E ?req\<rparr> = ?c1" "?c1\<lparr>Route := route_of E ?ans\<rparr> = ?c2"
    "SourceId ?c1 = ?k" "TargetId ?c1 = ?k" "Route ?c1 = route_of E ?req" "Route ?c2 = route_of E ?ans"
    "McSid ?c2 = agent_SID g a" "Mid ?c2 = Mid c"
    by (simp_all add: login_header_def ids del: full_name.simps)
  have wf: "reg_wf (lib E) (types A)" using assms(2) by (simp add: gate_ready_def)
  obtain g1 where g1: "pack_in E ?c0 ?req A = (A\<lparr>types := g1\<rparr>, Ret (Inr (encode (lib E) (?c1, ?req))))"
      "sendable (lib E) g1 (?c1, ?req)" "\<And>t i. type2id (types A) t = Some i \<Longrightarrow> type2id g1 t = Some i"
    using pack_in_sent [OF E(1) wf repo_type_free [of E A ?req, OF E(3) wf], of ?c0] assms(8) c1(1) by metis
  let ?d1 = "encode (lib E) (?c1, ?req)"
  let ?A1 = "A\<lparr>types := g1, published := published A @ [(?s, ?d1)]\<rparr>"
  have p: "processPacket E intn entries g a c ?req A = (?A1, Ret True)"
    using g1(1) SendBytes_self [OF assms(2,3) E(2), of ?d1 g1] assms(4-6) by (simp add: processPacket_def)
  have r1: "gate_ready E ?A1" "knows ?A1 ?A1" "?s = subject (natsSub ?A1)" "self_id ?A1 = ?k"
    using gate_ready_types [OF assms(2) g1(2,3)] assms(3) by (simp_all add: knows_def)
  obtain g2 where g2: "serve_one E (subject (natsSub ?A1)) ?d1 ?A1 = (?A1\<lparr>types := g2, published := published ?A1 @
        [(subject (natsSub ?A1), encode (lib E) (?c2, ?ans))]\<rparr>, Ret ())"
      "sendable (lib E) g2 (?c2, ?ans)" "\<And>t i. type2id (types ?A1) t = Some i \<Longrightarrow> type2id g2 t = Some i"
  proof (rule serve_login [OF assms(1) r1(1,2), of ?c1 r])
    show "SourceId ?c1 = self_id ?A1" "TargetId ?c1 = self_id ?A1" using c1(3,4) r1(4) by simp_all
    show "Route ?c1 = name_id (full_name TCReqLogin)" using c1(5) ids(1) by metis
    show "sendable (lib E) (types ?A1) (?c1, ?req)" using g1(2) by simp
    show "fits E (?c1\<lparr>Route := name_id (full_name TSRespLogin)\<rparr>) ?ans" using assms(9) c1(2) ids(2) by metis
  qed (use that c1(2) ids(2) in metis)
  let ?d2 = "encode (lib E) (?c2, ?ans)"
  let ?A2 = "?A1\<lparr>types := g2, published := published ?A1 @ [(subject (natsSub ?A1), ?d2)]\<rparr>"
  have s: "serve_one E (subject (natsSub ?A1)) ?d1 ?A1 = (?A2, Ret ())" by (rule g2(1))
  have r2: "node_ready ?A2" "reqHandlers ?A2 (Route ?c2) = None" "defaultHandler ?A2 = Some (DefaultHandler AgentHandler)"
    using assms(2) login_routes c1(6) ids by (simp_all add: gate_ready_def node_ready_def del: full_name.simps)
  have "receive_turn E (nats_deliver (subject (natsSub ?A2)) ?d2 ?A2) =
      Some (?A2\<lparr>queue := (queue ?A2)\<lparr>buf := [Task (Some (DefaultHandler AgentHandler)) ?c2 ?ans]\<rparr>\<rparr>)"
    by (rule receive_default [OF r2(1) _ r2(2,3)]) (use g2(2) in simp)
  moreover have "Agents_Init_handler g ?c2 = Some a"
    using assms(7) c1(7) by (simp add: Agents_Init_handler_def MsgCommon_GetSid_def)
  ultimately show ?thesis using p s c1(8)
    by (intro exI [of _ ?A1] exI [of _ ?A2] exI [of _ "?A2\<lparr>queue := (queue ?A2)\<lparr>buf :=
      [Task (Some (DefaultHandler AgentHandler)) ?c2 ?ans]\<rparr>\<rparr>"] exI [of _ ?d1] exI [of _ ?d2] exI [of _ ?c2]) simp
qed

text \<open>
  C37: With a second gate a log-in can get lost. A gate that has only done what \<open>gate.Run\<close>
  registers, \<open>CReqLogin\<close>, does not know the type of the answer; when the log-in was
  forwarded to another gate, the answer that comes back from there is thrown away unread: the
  frame changes nothing, and nothing is posted for the client.
\<close>

theorem other_gates_answer_is_dropped:
  assumes "gate_services E" and "node_ready A"
    and "types A = fst (RegisterMessage (lib E) (Some TCReqLogin) empty_registry)"
    and "Route c = name_id (full_name TSRespLogin)" and "fits E c (MSRespLogin s)"
  shows "receive_turn E (nats_deliver (subject (natsSub A)) (encode (lib E) (c, MSRespLogin s)) A) = Some A"
proof -
  have E: "proto_ok (lib E)" "fname (lib E) = full_name" using assms(1) by (simp_all add: gate_services_def)
  obtain rc rm where raw: "MarshalCommon (lib E) c = Inr rc" "Marshal (lib E) (MSRespLogin s) = Inr rm"
      "length rc < 65536" "length rm < 65536"
    using assms(5) by (auto simp: fits_def)
  have "id2type (types A) (Route c) = None"
    using assms(3,4) login_routes by (simp add: RegisterMessage_def E(2) empty_registry_def del: full_name.simps)
  then have "\<exists>e. fst (ReadMessage (lib E) (types A) (encode (lib E) (c, MSRespLogin s), None)) = Inl e"
    by (rule read_unregistered [OF E(1) raw])
  then have "process_msg E (encode (lib E) (c, MSRespLogin s)) A = Some A"
    by (auto simp: process_msg_def)
  moreover have "receive_turn E (nats_deliver (subject (natsSub A)) data A) =
      process_msg E data (A\<lparr>natsSub := (natsSub A)\<lparr>ch := (ch (natsSub A))\<lparr>buf := []\<rparr>\<rparr>\<rparr>)" for data
    using assms(2)
    by (simp add: receive_turn_def nats_deliver_def chan_recv_def chan_send_def node_ready_def)
  ultimately show ?thesis by (simp only: ready_same [OF assms(2)])
qed

section \<open>A sample gate\<close>

definition login_env0 :: "(string, unit) gate_env" where
  "login_env0 = \<lparr>lib = sample_lib, publish_error = (\<lambda>_ _. None),
     run_handler = (\<lambda>_ _ _ n. (n, Ret ())), run_callback = (\<lambda>_ _ _ n. (n, Ret ()))\<rparr>"

definition login_env :: "(string, unit) gate_env" where
  "login_env = login_env0\<lparr>run_handler := (\<lambda>h s m. case (h, m) of
     (OnCReqLogin, MCReqLogin r) \<Rightarrow> onCReqLogin login_env0 s r | _ \<Rightarrow> (\<lambda>n. (n, Ret ())))\<rparr>"

lemma login_services: "gate_services login_env"
proof -
  have "lib login_env = sample_lib" "publish_error login_env = (\<lambda>_ _. None)"
    by (simp_all add: login_env_def login_env0_def)
  moreover from this have "Resp login_env = Resp login_env0"
    by (intro Resp_env) (simp_all add: login_env0_def)
  ultimately show ?thesis
    by (simp add: gate_services_def proto_ok_sample onCReqLogin_def) (simp add: login_env_def onCReqLogin_def)
qed

definition login_gate :: "(string, unit) gate_node" where
  "login_gate = \<lparr>self_id = ''gate1'', self_type = ''gate'', running = True,
     members = empty_discovery\<lparr>memberMap := [''gate1'' \<mapsto> \<lparr>NodeId = ''gate1'', NodeType = ''gate'', Address = []\<rparr>]\<rparr>,
     types = fst (RegisterMessage sample_lib (Some TCReqLogin) empty_registry),
     queue = make_chan 8, queue_closed = False, prefix = ''node'', bufferSize = 1024,
     natsSub = (newNatsSubject (getRemoteSubject ''node'' ''gate'' ''gate1'') 1024)\<lparr>subscription := True\<rparr>,
     natsConn = \<lparr>conn_address = [], conn_running = True, connected = True\<rparr>,
     defaultHandler = Some (DefaultHandler AgentHandler),
     reqHandlers = [name_id (full_name TCReqLogin) \<mapsto> UserHandler TCReqLogin OnCReqLogin],
     requester = newRpcHandlerMgr, published = []\<rparr>"

definition login_agents :: agents where
  "login_agents = dir_in\<lparr>pbRoute := fst (route_all [(TCReqLogin, ''gate'')] newRouteMgr)\<rparr>"

definition login_client :: MsgCommon where
  "login_client = MsgCommon_Reset\<lparr>Mid := 7, Route := name_id (full_name TCReqLogin)\<rparr>"

lemma login_gate_ready: "gate_ready login_env login_gate" "node_ready login_gate" "knows login_gate login_gate"
proof -
  have l: "lib login_env = sample_lib" by (simp add: login_env_def login_env0_def)
  have "reg_wf sample_lib (types login_gate)"
    unfolding login_gate_def by (simp add: RegisterMessage_wf reg_wf_empty del: full_name.simps)
  moreover have "type2id (types login_gate) TCReqLogin = Some (name_id (full_name TCReqLogin))"
    by (simp add: login_gate_def RegisterMessage_def empty_registry_def del: full_name.simps)
  moreover show n: "node_ready login_gate" by (simp add: login_gate_def node_ready_def newNatsSubject_def)
  ultimately show "gate_ready login_env login_gate"
    by (simp add: gate_ready_def l del: full_name.simps) (simp add: login_gate_def)
  show "knows login_gate login_gate"
    by (simp add: login_gate_def knows_def GetType_def GetMember_def)
qed

lemma login_simps [simp]:
  "lib login_env = sample_lib" "self_id login_gate = ''gate1''" "published login_gate = []"
  by (simp_all add: login_env_def login_env0_def login_gate_def)

lemma login_agents_facts:
  "agent_SID login_agents 1 = ''s1''" "GetAgent ''s1'' login_agents = Some 1"
  "route_type (pbRoute login_agents) (Route login_client) = ''gate''"
proof -
  show "agent_SID login_agents 1 = ''s1''" "GetAgent ''s1'' login_agents = Some 1"
    by (simp_all add: login_agents_def dir_in_def BindSID_def NewAgents_def agent_SID_def sample_sessions_def
        GetAgent_def)
  show "route_type (pbRoute login_agents) (Route login_client) = ''gate''"
    by (simp add: login_agents_def route_all_def addRoute_def newRouteMgr_def route_type_def login_client_def
        del: full_name.simps)
qed

theorem login_reaches_client_witness:
  "\<exists>A1 A2 A3 d1 d2 c2. processPacket login_env (\<lambda>_. 0)
       [(''gate1'', \<lparr>NodeId = ''gate1'', NodeType = ''gate'', Address = []\<rparr>)] login_agents 1 login_client
       (MCReqLogin \<lparr>CReqLogin_Account = ''bob''\<rparr>) login_gate = (A1, Ret True) \<and>
     serve_one login_env (subject (natsSub login_gate)) d1 A1 = (A2, Ret ()) \<and>
     receive_turn login_env (nats_deliver (subject (natsSub login_gate)) d2 A2) = Some A3 \<and>
     Agents_Init_handler login_agents c2 = Some 1 \<and> Mid c2 = 7"
proof -
  let ?m = "\<lparr>NodeId = ''gate1'', NodeType = ''gate'', Address = []\<rparr>"
  have R: "Random (\<lambda>_. 0) [(''gate1'', ?m)] ''gate'' = Some ?m" by (simp add: Random_def)
  have m: "NodeId ?m = self_id login_gate" by simp
  have a: "GetAgent (agent_SID login_agents 1) login_agents = Some 1"
    unfolding login_agents_facts(1) by (rule login_agents_facts(2))
  have fit: "fits login_env (login_header login_agents 1 (self_id login_gate) login_client t) msg"
    if "length (enc_msg msg) < 65536" for t msg
    using that by (simp add: fits_def length_enc_common login_header_def login_client_def MsgCommon_Reset_def
        login_agents_facts(1) login_agents_facts(1) [unfolded One_nat_def] del: full_name.simps)
  have mid: "Mid login_client = 7" by (simp add: login_client_def)
  show ?thesis
    using login_reaches_client [where r = "\<lparr>CReqLogin_Account = ''bob''\<rparr>", OF login_services login_gate_ready(1,3) R m
        login_agents_facts(3) a fit fit] mid
    by (auto simp: login_answer_def)
qed

theorem other_gates_answer_is_dropped_witness:
  "receive_turn login_env (nats_deliver (subject (natsSub login_gate))
     (encode sample_lib (login_client\<lparr>Route := name_id (full_name TSRespLogin)\<rparr>,
        MSRespLogin \<lparr>SRespLogin_Code = 0, SRespLogin_Uid = 9\<rparr>)) login_gate) = Some login_gate"
proof -
  let ?c = "login_client\<lparr>Route := name_id (full_name TSRespLogin)\<rparr>"
  have t: "types login_gate = fst (RegisterMessage (lib login_env) (Some TCReqLogin) empty_registry)"
    by (simp add: login_gate_def)
  have r: "Route ?c = name_id (full_name TSRespLogin)" by simp
  have f: "fits login_env ?c (MSRespLogin \<lparr>SRespLogin_Code = 0, SRespLogin_Uid = 9\<rparr>)"
    by (simp add: fits_def length_enc_common login_client_def MsgCommon_Reset_def del: full_name.simps)
  show ?thesis
    using other_gates_answer_is_dropped [OF login_services login_gate_ready(2) t r f] by simp
qed

end
