(* ===== verification/Streams.thy ===== *)
theory Streams
  imports Packet Connector
begin

text \<open>
  \<open>ReadMessage\<close> takes any \<open>io.Reader\<close>: a TCP connection, a websocket connection or the
  bytes of a NATS message. This theory states what it relies on as an interface, shows that
  every reader that keeps to it is read like a sequence of bytes, and gives the two readers.
\<close>

section \<open>ReadMessage over a reader\<close>

text \<open>
  The code of \<open>ReadMessage\<close> with \<open>io.ReadAll(io.LimitReader(reader, n))\<close> as a
  parameter; \<open>'s\<close> is the state of the reader.
\<close>

definition ReadMessage_from ::
    "(nat \<Rightarrow> 's \<Rightarrow> bytes result \<times> 's) \<Rightarrow> ('t, 'm) protolib \<Rightarrow> 't registry \<Rightarrow> 's \<Rightarrow>
     (MsgCommon \<times> 'm) result \<times> 's" where
  "ReadMessage_from read_all P g r0 =
     (case read_all headLength r0 of
        (Inl e, r1) \<Rightarrow> (Inl e, r1)
      | (Inr header, r1) \<Rightarrow>
          if length header = 0 then (Inl PacketConnectClosed, r1)
          else case parseHead header of
                 Inl e \<Rightarrow> (Inl e, r1)
               | Inr (commonLen, msgLen) \<Rightarrow>
                   (case read_all (unat commonLen) r1 of
                      (Inl e, r2) \<Rightarrow> (Inl e, r2)
                    | (Inr rawCommon, r2) \<Rightarrow>
                        (case UnmarshalCommon P rawCommon of
                           Inl e \<Rightarrow> (Inl e, r2)
                         | Inr common \<Rightarrow>
                             (case read_all (unat msgLen) r2 of
                                (Inl e, r3) \<Rightarrow> (Inl e, r3)
                              | (Inr rawMsg, r3) \<Rightarrow>
                                  (case OnUnmarshal P g (Route common) rawMsg of
                                     Inl e \<Rightarrow> (Inl e, r3)
                                   | Inr msg \<Rightarrow> (Inr (common, msg), r3))))))"

lemma ReadMessage_from_bytes: "ReadMessage_from ReadAll_Limit = ReadMessage"
  by (simp only: ReadMessage_from_def ReadMessage_def fun_eq_iff) simp

text \<open>What a reader promises: it reads like the bytes it still has, and then its end.\<close>

locale io_reader =
  fixes read_all :: "nat \<Rightarrow> 's \<Rightarrow> bytes result \<times> 's"
    and content :: "'s \<Rightarrow> reader"
    and usable :: "'s \<Rightarrow> bool"
  assumes read_all: "usable s \<Longrightarrow> read_all n s = (r, s') \<Longrightarrow>
      ReadAll_Limit n (content s) = (r, content s') \<and> usable s'"
begin

lemma read_all_cases:
  assumes "usable s"
  obtains r s' where "read_all n s = (r, s')" "ReadAll_Limit n (content s) = (r, content s')" "usable s'"
  using read_all [OF assms] by (cases "read_all n s") blast

lemma ReadMessage_sim:
  assumes "usable s"
  shows "\<exists>r s'. ReadMessage_from read_all P g s = (r, s') \<and>
    ReadMessage P g (content s) = (r, content s') \<and> usable s'"
proof -
  obtain r1 s1 where 1: "read_all headLength s = (r1, s1)" "ReadAll_Limit headLength (content s) = (r1, content s1)"
    "usable s1" using assms by (rule read_all_cases)
  note defs = ReadMessage_from_def ReadMessage_def
  show ?thesis
  proof (cases "\<exists>h a b. r1 = Inr h \<and> length h \<noteq> 0 \<and> parseHead h = Inr (a, b)")
    case False
    then show ?thesis using 1
      by (auto simp: defs simp del: ReadAll_Limit.simps split: sum.split)
  next
    case True
    then obtain h a b where h: "r1 = Inr h" "length h \<noteq> 0" "parseHead h = Inr (a, b)" by blast
    obtain r2 s2 where 2: "read_all (unat a) s1 = (r2, s2)" "ReadAll_Limit (unat a) (content s1) = (r2, content s2)"
      "usable s2" using 1(3) by (rule read_all_cases)
    obtain r3 s3 where 3: "read_all (unat b) s2 = (r3, s3)" "ReadAll_Limit (unat b) (content s2) = (r3, content s3)"
      "usable s3" using 2(3) by (rule read_all_cases)
    show ?thesis using 1 2 3 h
      by (auto simp: defs simp del: ReadAll_Limit.simps split: sum.split)
  qed
qed

lemma read_n_sim:
  assumes "usable s"
  shows "\<exists>rs s'. read_n (ReadMessage_from read_all P g) k s = (rs, s') \<and>
    read_n (ReadMessage P g) k (content s) = (rs, content s') \<and> usable s'"
  using assms
proof (induction k arbitrary: s)
  case (Suc k)
  obtain r s1 where 1: "ReadMessage_from read_all P g s = (r, s1)"
    "ReadMessage P g (content s) = (r, content s1)" "usable s1"
    using ReadMessage_sim [OF Suc.prems] by blast
  obtain rs s2 where "read_n (ReadMessage_from read_all P g) k s1 = (rs, s2)"
    "read_n (ReadMessage P g) k (content s1) = (rs, content s2)" "usable s2"
    using Suc.IH [OF 1(3)] by blast
  with 1 show ?case by simp
qed simp

text \<open>The frames that the bytes of a reader begin with are read as the messages they carry.\<close>

lemma frames_are_read:
  assumes "usable s" and "\<forall>cm \<in> set cms. sendable P g cm"
    and "content s = (concat (map (encode P) cms) @ rest, e)"
  shows "\<exists>s'. read_n (ReadMessage_from read_all P g) (length cms) s = (map Inr cms, s') \<and>
    content s' = (rest, e) \<and> usable s'"
proof -
  have "read_n (ReadMessage P g) (length cms) (content s) = (map Inr cms, (rest, e))"
    unfolding assms(3) by (rule fr.dec_stream [OF assms(2)])
  with read_n_sim [OF assms(1), of P g "length cms"] show ?thesis by auto
qed

end

section \<open>The two readers\<close>

text \<open>The bytes of a NATS message, or of a TCP connection that ends with \<open>e\<close>.\<close>

interpretation raw: io_reader ReadAll_Limit "\<lambda>r. r" "\<lambda>_. True"
  by unfold_locales (simp del: ReadAll_Limit.simps)

text \<open>
  A websocket connection with the reader of its messages and the space that \<open>io.ReadAll\<close>
  offers to each read; the fuel is the bound of \<open>ws_ReadAll_spec\<close>.
\<close>

type_synonym ws_source = "(bytes \<Rightarrow> nat \<Rightarrow> nat \<times> read_status) \<times> (nat \<Rightarrow> nat) \<times> ws_conn"

fun ws_read :: "nat \<Rightarrow> ws_source \<Rightarrow> bytes result \<times> ws_source" where
  "ws_read n (rdr, room, c) =
     (case ws_ReadAll rdr room (Suc (ws_work c)) n [] c of
        Some (r, c') \<Rightarrow> (r, (rdr, room, c'))
      | None \<Rightarrow> (Inl (Err ''out of fuel''), (rdr, room, c)))"

fun ws_content :: "ws_source \<Rightarrow> reader" where
  "ws_content (rdr, room, c) = (stream c, final c)"

fun ws_usable :: "ws_source \<Rightarrow> bool" where
  "ws_usable (rdr, room, c) \<longleftrightarrow> ws_reader_ok rdr \<and> room_ok room"

lemma ws_read_spec:
  assumes "ws_usable s" and "ws_read n s = (r, s')"
  shows "ReadAll_Limit n (ws_content s) = (r, ws_content s') \<and> ws_usable s'"
proof -
  obtain rdr room c where s: "s = (rdr, room, c)" by (cases s) auto
  obtain c' r' where "ws_ReadAll rdr room (Suc (ws_work c)) n [] c = Some (r', c')"
    "case ReadAll_Limit n (stream c, final c) of
         (Inr data, (rest, e)) \<Rightarrow> r' = Inr ([] @ data) \<and> stream c' = rest \<and> final c' = e
       | (Inl e, (rest, e')) \<Rightarrow> r' = Inl e \<and> stream c' = rest \<and> final c' = e'"
    using assms(1) ws_ReadAll_spec [of rdr room c "Suc (ws_work c)" n "[]"] by (auto simp: s)
  then show ?thesis using assms
    by (auto simp: s simp del: ws_ReadAll.simps ReadAll_Limit.simps split: prod.splits sum.splits)
qed

interpretation ws: io_reader ws_read ws_content ws_usable
  by unfold_locales (rule ws_read_spec)

section \<open>Property\<close>

text \<open>
  C23: The messages of a websocket client arrive. Whatever binary messages the client cuts the
  bytes of its frames into, empty ones and cuts in the middle of a header among them, and
  however the reader hands them out, that many calls of \<open>ReadMessage\<close> return the messages
  in order, all of them return, and what is behind the frames is left for the next call.
\<close>

theorem websocket_messages_arrive:
  assumes "ws_reader_ok rdr" and "room_ok room" and "\<forall>cm \<in> set cms. sendable P g cm"
    and "concat (map snd parts) = concat (map (encode P) cms) @ rest"
  shows "\<exists>s'. read_n (ReadMessage_from ws_read P g) (length cms) (rdr, room, NewWSConn parts e) =
      (map Inr cms, s') \<and> ws_content s' = (rest, e)"
proof -
  let ?s = "(rdr, room, NewWSConn parts e)"
  have "ws_usable ?s" "ws_content ?s = (concat (map (encode P) cms) @ rest, e)"
    using assms by (simp_all add: NewWSConn_def stream_def)
  from ws.frames_are_read [OF this(1) assms(3) this(2)] show ?thesis by blast
qed

definition sample_login :: "MsgCommon \<times> pb_msg" where
  "sample_login = (MsgCommon_Reset\<lparr>Mid := 7, Route := name_id (full_name TCReqLogin)\<rparr>,
     MCReqLogin \<lparr>CReqLogin_Account = ''bob''\<rparr>)"

definition login_registry :: "pb_type registry" where
  "login_registry = fst (RegisterMessage sample_lib (Some TCReqLogin) empty_registry)"

lemma sample_login_sendable: "sendable sample_lib login_registry sample_login"
proof -
  have "reg_wf sample_lib login_registry" unfolding login_registry_def by (rule RegisterMessage_wf [OF reg_wf_empty])
  moreover have "type2id login_registry TCReqLogin = Some (name_id (full_name TCReqLogin))"
    by (simp add: login_registry_def RegisterMessage_def empty_registry_def del: full_name.simps)
  ultimately show ?thesis
    by (simp add: sendable_def sample_login_def proto_ok_sample length_enc_common MsgCommon_Reset_def
        del: full_name.simps)
qed

theorem websocket_messages_arrive_witness:
  "let bs = encode sample_lib sample_login @ encode sample_lib sample_login in
   \<exists>s'. read_n (ReadMessage_from ws_read sample_lib login_registry) 2
     (sample_rdr, (\<lambda>k. k), NewWSConn [(2, take 3 bs), (2, []), (2, drop 3 bs @ [1])] None) =
     ([Inr sample_login, Inr sample_login], s') \<and> ws_content s' = ([1], None)"
proof -
  define bs where "bs = encode sample_lib sample_login @ encode sample_lib sample_login"
  let ?parts = "[(2, take 3 bs), (2, []), (2, drop 3 bs @ [1])] :: (int \<times> bytes) list"
  have "ws_reader_ok sample_rdr" by (auto simp: ws_reader_ok_def sample_rdr_def Suc_le_eq)
  moreover have "room_ok (\<lambda>k. k)" by (simp add: room_ok_def)
  moreover have "\<forall>cm \<in> set [sample_login, sample_login]. sendable sample_lib login_registry cm"
    by (simp add: sample_login_sendable)
  moreover have "concat (map snd ?parts) = concat (map (encode sample_lib) [sample_login, sample_login]) @ [1]"
    by (simp add: append_assoc [symmetric] del: append_assoc) (simp add: bs_def)
  ultimately have "\<exists>s'. read_n (ReadMessage_from ws_read sample_lib login_registry)
      (length [sample_login, sample_login]) (sample_rdr, (\<lambda>k. k), NewWSConn ?parts None) =
      (map Inr [sample_login, sample_login], s') \<and> ws_content s' = ([1], None)"
    by (rule websocket_messages_arrive)
  then show ?thesis unfolding bs_def [symmetric] Let_def by (simp add: numeral_2_eq_2)
qed

end
