(* ===== verification/Gateway.thy ===== *)
theory Gateway
  imports Login Streams
begin

text \<open>
  The read loop of an agent, \<open>readChan\<close> of \<^verbatim>\<open>framework/pkg/xagent/agent.go\<close>, put together
  with the reader it reads from and the cluster it forwards to: from the bytes that a client
  sends to the messages that are published for it.
\<close>

section \<open>The read loop\<close>

text \<open>
  One element of the list for each turn: the random number and the order of the member
  table that \<open>Random\<close> meets. The flag says that an error ended the loop; a panic of
  \<open>processPacket\<close> ends it too (and the process with it).
\<close>

type_synonym choice = "(nat \<Rightarrow> nat) \<times> (string \<times> Member) list"

fun readChan ::
    "('t, 'm, 'h, 'c, 'l) cluster_env \<Rightarrow> (nat \<Rightarrow> 's \<Rightarrow> bytes result \<times> 's) \<Rightarrow> agents \<Rightarrow> aid \<Rightarrow>
     choice list \<Rightarrow> 's \<Rightarrow> ('t, 'm, 'h, 'c, 'l) node \<Rightarrow> 's \<times> ('t, 'm, 'h, 'c, 'l) node \<times> bool" where
  "readChan E read_all g a [] s n = (s, n, False)"
| "readChan E read_all g a ((intn, entries) # cs) s n =
     (case ReadMessage_from read_all (lib E) (types n) s of
        (Inl err, s') \<Rightarrow> (s', n, True)
      | (Inr (common, msg), s') \<Rightarrow>
          (case processPacket E intn entries g a common msg n of
             (n', Ret _) \<Rightarrow> readChan E read_all g a cs s' n'
           | (n', _) \<Rightarrow> (s', n', True)))"

section \<open>One packet\<close>

text \<open>The header that the gate writes, and what it publishes.\<close>

definition gate_header ::
    "('t, 'm, 'h, 'c, 'l) node \<Rightarrow> agents \<Rightarrow> aid \<Rightarrow> string \<Rightarrow> MsgCommon \<Rightarrow> MsgCommon" where
  "gate_header n g a k c =
     c\<lparr>SourceId := self_id n, TargetId := k, McUid := agent_UID g a, McSid := agent_SID g a\<rparr>"

definition published_for ::
    "('t, 'm, 'h, 'c, 'l) cluster_env \<Rightarrow> ('t, 'm, 'h, 'c, 'l) node \<Rightarrow> agents \<Rightarrow> aid \<Rightarrow> choice \<Rightarrow>
     MsgCommon \<times> 'm \<Rightarrow> string \<times> bytes" where
  "published_for E n g a pick cm =
     (case Random (fst pick) (snd pick) (route_type (pbRoute g) (Route (fst cm))) of
        Some member \<Rightarrow>
          (case GetType (members n) (NodeId member) of
             Inr ty \<Rightarrow> (getRemoteSubject (node.prefix n) ty (NodeId member),
                encode (lib E) (gate_header n g a (NodeId member) (fst cm), snd cm))
           | Inl _ \<Rightarrow> ([], []))
      | None \<Rightarrow> ([], []))"

text \<open>
  A message of a registered type that has a node to go to, which the discovery knows, and
  fits a frame under the gate's header.
\<close>

definition forwardable ::
    "('t, 'm, 'h, 'c, 'l) cluster_env \<Rightarrow> ('t, 'm, 'h, 'c, 'l) node \<Rightarrow> agents \<Rightarrow> aid \<Rightarrow> choice \<Rightarrow>
     MsgCommon \<times> 'm \<Rightarrow> bool" where
  "forwardable E n g a pick cm \<longleftrightarrow> sendable (lib E) (types n) cm \<and>
     (\<exists>member ty. Random (fst pick) (snd pick) (route_type (pbRoute g) (Route (fst cm))) = Some member \<and>
        GetType (members n) (NodeId member) = Inr ty \<and>
        fits E (gate_header n g a (NodeId member) (fst cm)) (snd cm))"

lemma forwardable_frame [simp]:
  "forwardable E (n\<lparr>published := ps\<rparr>) g a pick cm = forwardable E n g a pick cm"
  "published_for E (n\<lparr>published := ps\<rparr>) g a pick cm = published_for E n g a pick cm"
  by (simp_all add: forwardable_def published_for_def gate_header_def split: option.split sum.split)

text \<open>Packing a message of a registered type leaves the registry alone.\<close>

lemma pack_in_registered:
  assumes "sendable (lib E) (types n) (c, m)" and "Route c' = Route c" and "fits E c' m"
  shows "pack_in E c' m n = (n, Ret (Inr (encode (lib E) (c', m))))"
proof -
  have "type2id (types n) (mtype (lib E) m) = Some (Route c)" using assms(1) by (simp add: sendable_def)
  moreover have "c'\<lparr>Route := Route c\<rparr> = c'" using assms(2) by (cases c') simp
  ultimately show ?thesis using assms(3)
    by (auto simp: pack_in_def PackMessage_def OnMarshal_def MessageID_def encode_def frame_def fits_def)
qed

lemma processPacket_ok:
  assumes "running n" and "publish_error E = (\<lambda>_ _. None)" and "forwardable E n g a pick (c, m)"
  shows "processPacket E (fst pick) (snd pick) g a c m n =
    (n\<lparr>published := published n @ [published_for E n g a pick (c, m)]\<rparr>, Ret True)"
proof -
  obtain member ty where
    r: "Random (fst pick) (snd pick) (route_type (pbRoute g) (Route c)) = Some member"
    and ty: "GetType (members n) (NodeId member) = Inr ty"
    and ft: "fits E (gate_header n g a (NodeId member) c) m"
    using assms(3) by (auto simp: forwardable_def)
  have "Route (gate_header n g a (NodeId member) c) = Route c" by (simp add: gate_header_def)
  from pack_in_registered [OF _ this ft] assms(3)
  have "pack_in E (gate_header n g a (NodeId member) c) m n =
      (n, Ret (Inr (encode (lib E) (gate_header n g a (NodeId member) c, m))))"
    by (simp add: forwardable_def)
  moreover have "SendBytes E (NodeId member) d n =
      (n\<lparr>published := published n @ [(getRemoteSubject (node.prefix n) ty (NodeId member), d)]\<rparr>, None)" for d
    by (rule SendBytes_ok [OF assms(1) ty]) (simp add: assms(2))
  ultimately show ?thesis
    by (simp add: processPacket_def published_for_def r ty gate_header_def)
qed

section \<open>The whole stream\<close>

context io_reader
begin

text \<open>The frames that the bytes begin with are published, one for each, in their order.\<close>

lemma readChan_forwards:
  assumes "usable s" and "running n" and "publish_error E = (\<lambda>_ _. None)"
    and "list_all2 (forwardable E n g a) picks cms"
    and "content s = (concat (map (encode (lib E)) cms) @ rest, e)"
  shows "\<exists>s'. readChan E read_all g a picks s n =
      (s', n\<lparr>published := published n @ map2 (published_for E n g a) picks cms\<rparr>, False) \<and>
    content s' = (rest, e) \<and> usable s'"
  using assms(4,1,2,5)
proof (induction picks arbitrary: cms s n)
  case (Cons pick picks cms')
  then obtain cm cms where cms': "cms' = cm # cms" and ok: "forwardable E n g a pick cm"
    and oks: "list_all2 (forwardable E n g a) picks cms"
    by (auto simp: list_all2_Cons1)
  obtain c m where cm: "cm = (c, m)" by (cases cm)
  let ?n = "n\<lparr>published := published n @ [published_for E n g a pick cm]\<rparr>"
  have "content s = (encode (lib E) cm @ concat (map (encode (lib E)) cms) @ rest, e)"
    using Cons.prems(4) cms' by simp
  moreover have "sendable (lib E) (types n) cm" using ok by (simp add: forwardable_def)
  ultimately have "ReadMessage (lib E) (types n) (content s) =
      (Inr cm, (concat (map (encode (lib E)) cms) @ rest, e))"
    by (simp only: read_encode)
  then obtain s1 where s1: "ReadMessage_from read_all (lib E) (types n) s = (Inr cm, s1)"
    "content s1 = (concat (map (encode (lib E)) cms) @ rest, e)" "usable s1"
    using ReadMessage_sim [OF Cons.prems(2), of "lib E" "types n"] by auto
  have p: "processPacket E (fst pick) (snd pick) g a c m n = (?n, Ret True)"
    unfolding cm by (rule processPacket_ok [OF Cons.prems(3) assms(3) ok [unfolded cm]])
  obtain s' where "readChan E read_all g a picks s1 ?n =
      (s', ?n\<lparr>published := published ?n @ map2 (published_for E ?n g a) picks cms\<rparr>, False)"
    "content s' = (rest, e)" "usable s'"
    using Cons.IH [OF _ s1(3) _ s1(2), of ?n] Cons.prems(3) oks by auto
  then show ?case using s1(1) p by (cases pick) (simp add: cm cms')
qed (simp)

end

section \<open>Property\<close>

text \<open>
  C21: Whatever a websocket client sends is forwarded in order. The bytes of its frames may be
  cut into binary messages anywhere and reach the reader in pieces of any size; as long as
  each message has a node to go to, the read loop publishes one message for each frame, in
  the order of the frames, each to the subject of the node that \<open>Random\<close> chose and under
  the gate's header. Nothing else of the node changes, no frame ends the loop, and the bytes
  behind the frames are left for the next turn.
\<close>

theorem client_frames_forwarded_in_order:
  assumes "ws_reader_ok rdr" and "room_ok room" and "running n" and "publish_error E = (\<lambda>_ _. None)"
    and "list_all2 (forwardable E n g a) picks cms"
    and "concat (map snd parts) = concat (map (encode (lib E)) cms) @ rest"
  shows "\<exists>s'. readChan E ws_read g a picks (rdr, room, NewWSConn parts e) n =
      (s', n\<lparr>published := published n @ map2 (published_for E n g a) picks cms\<rparr>, False) \<and>
    ws_content s' = (rest, e)"
proof -
  let ?s = "(rdr, room, NewWSConn parts e)"
  have "ws_usable ?s" "ws_content ?s = (concat (map (encode (lib E)) cms) @ rest, e)"
    using assms by (simp_all add: NewWSConn_def stream_def)
  from ws.readChan_forwards [OF this(1) assms(3,4,5) this(2)] show ?thesis by blast
qed

definition sample_pick :: choice where
  "sample_pick = (\<lambda>_. 0, [(''a'', \<lparr>NodeId = ''a'', NodeType = ''auth'', Address = []\<rparr>)])"

definition sample_frames :: "(MsgCommon \<times> pb_msg) list" where
  "sample_frames = [(sample_forged, sample_req), (sample_forged\<lparr>Mid := 6\<rparr>, sample_req)]"

lemma sample_frames_forwardable:
  "list_all2 (forwardable sample_env sample_auth sample_routed 1) [sample_pick, sample_pick] sample_frames"
proof -
  have R: "Random (fst sample_pick) (snd sample_pick) (route_type (pbRoute sample_routed) (Route sample_forged)) =
      Some \<lparr>NodeId = ''a'', NodeType = ''auth'', Address = []\<rparr>"
    by (simp add: Random_def sample_pick_def sample_routed_def route_all_def addRoute_def newRouteMgr_def
        route_type_def sample_forged_def del: full_name.simps)
  have k: "agent_SID sample_routed 1 = ''s1''" "agent_UID sample_routed 1 = 0" "self_id sample_auth = ''a''"
    "GetType (members sample_auth) ''a'' = Inr ''auth''"
    by (simp_all add: sample_routed_def dir_in_def BindSID_def NewAgents_def agent_SID_def
        agent_UID_def sample_sessions_def sample_node_defs GetType_def GetMember_def)
  have "sendable sample_lib (types sample_auth) (sample_forged\<lparr>Mid := i\<rparr>, sample_req)" for i
    using sample_wf(2) by (simp add: sendable_def proto_ok_sample handlers_wf_def sample_types
        sample_req_def length_enc_common sample_forged_def del: full_name.simps)
  then have "forwardable sample_env sample_auth sample_routed 1 sample_pick (sample_forged\<lparr>Mid := i\<rparr>, sample_req)" for i
    using R k by (simp add: forwardable_def gate_header_def fits_def sample_req_def length_enc_common
        sample_forged_def del: full_name.simps)
  from this [of "Mid sample_forged"] this [of 6] show ?thesis by (simp add: sample_frames_def)
qed

theorem client_frames_forwarded_in_order_witness:
  "let bs = concat (map (encode sample_lib) sample_frames) in
   \<exists>s' n'. readChan sample_env ws_read sample_routed 1 [sample_pick, sample_pick]
       (sample_rdr, \<lambda>k. k, NewWSConn [(2, take 3 bs), (2, []), (2, drop 3 bs @ [1])] None) sample_auth =
       (s', n', False) \<and>
     published n' = published sample_auth @
       map (published_for sample_env sample_auth sample_routed 1 sample_pick) sample_frames \<and>
     ws_content s' = ([1], None)"
proof -
  define bs where "bs = concat (map (encode sample_lib) sample_frames)"
  let ?parts = "[(2, take 3 bs), (2, []), (2, drop 3 bs @ [1])] :: (int \<times> bytes) list"
  have "ws_reader_ok sample_rdr" by (auto simp: ws_reader_ok_def sample_rdr_def Suc_le_eq)
  moreover have "room_ok (\<lambda>k. k)" by (simp add: room_ok_def)
  moreover have "running sample_auth" by (simp add: sample_node_defs)
  moreover have "publish_error sample_env = (\<lambda>_ _. None)" by simp
  moreover have "concat (map snd ?parts) = concat (map (encode (lib sample_env)) sample_frames) @ [1]"
    by (simp add: append_assoc [symmetric] del: append_assoc) (simp add: bs_def)
  ultimately obtain s' where "readChan sample_env ws_read sample_routed 1 [sample_pick, sample_pick]
       (sample_rdr, \<lambda>k. k, NewWSConn ?parts None) sample_auth =
       (s', sample_auth\<lparr>published := published sample_auth @
          map2 (published_for sample_env sample_auth sample_routed 1) [sample_pick, sample_pick] sample_frames\<rparr>, False)"
     "ws_content s' = ([1], None)"
    using client_frames_forwarded_in_order [OF _ _ _ _ sample_frames_forwardable] by meson
  then show ?thesis unfolding bs_def [symmetric] Let_def by (simp add: sample_frames_def)
qed

end
