(* ===== verification/Client.thy ===== *)
theory Client
  imports Gateway
begin

text \<open>
  \<^verbatim>\<open>demo/client/main.go\<close>: the client that logs in again and again over TCP. Its write loop and
  its read loop, and what becomes of its log-ins at a gate.
\<close>

section \<open>The client\<close>

text \<open>
  The process of the client: the registry of its packet package, the counter \<open>mid\<close> and
  the bytes it has written to the connection.
\<close>

record client =
  c_types :: "pb_type registry"
  c_mid :: u32
  c_written :: bytes

text \<open>The format of the account, in the bytes of its UTF-8 text.\<close>

definition account_format :: string where
  "account_format =
     [CHR 0xE5, CHR 0xB8, CHR 0x83, CHR 0xE4, CHR 0xBB, CHR 0x80, CHR ''*'',
      CHR 0xE6, CHR 0x88, CHR 0x88, CHR 0xE9, CHR 0x97, CHR 0xA8] @ '' %d''"

definition account_text :: "int \<Rightarrow> string" where
  "account_text x = sprintf account_format [ArgD x]"

text \<open>
  What \<open>main\<close> does before its loops: a failing \<open>Dial\<close> ends the process, then the type of
  the answer is registered.
\<close>

definition client_start :: "(pb_type, pb_msg) protolib \<Rightarrow> error option \<Rightarrow> (client, unit) proc" where
  "client_start P dial_err s =
     (case dial_err of
        Some e \<Rightarrow> (s, Exit (err_text e))
      | None \<Rightarrow>
          (case RegisterMessage P (Some TSRespLogin) (c_types s) of
             (g, Ret _) \<Rightarrow> (s\<lparr>c_types := g\<rparr>, Ret ())
           | (g, Panic m) \<Rightarrow> (s\<lparr>c_types := g\<rparr>, Panic m)
           | (g, Exit m) \<Rightarrow> (s\<lparr>c_types := g\<rparr>, Exit m)))"

text \<open>
  The write loop, one random number for each turn. \<open>False\<close> when an error ended it; what
  \<open>conn.Write\<close> returns is a parameter, and a failing one writes nothing.
\<close>

fun client_loop ::
    "(pb_type, pb_msg) protolib \<Rightarrow> (bytes \<Rightarrow> error option) \<Rightarrow> int list \<Rightarrow> (client, bool) proc" where
  "client_loop P write_err [] s = (s, Ret True)"
| "client_loop P write_err (x # xs) s =
     (let s1 = s\<lparr>c_mid := c_mid s + 1\<rparr>
      in case PackMessage P (MsgCommon_Reset\<lparr>Mid := c_mid s1\<rparr>)
              (MCReqLogin \<lparr>CReqLogin_Account = account_text x\<rparr>) (c_types s1) of
           (g, Ret (_, Inl err)) \<Rightarrow> (s1\<lparr>c_types := g\<rparr>, Ret False)
         | (g, Ret (_, Inr data)) \<Rightarrow>
             (case write_err data of
                Some err \<Rightarrow> (s1\<lparr>c_types := g\<rparr>, Ret False)
              | None \<Rightarrow> client_loop P write_err xs
                  (s1\<lparr>c_types := g, c_written := c_written s1 @ data\<rparr>))
         | (g, Panic m) \<Rightarrow> (s1\<lparr>c_types := g\<rparr>, Panic m)
         | (g, Exit m) \<Rightarrow> (s1\<lparr>c_types := g\<rparr>, Exit m))"

text \<open>The read loop for some turns, with what it logs: after an error it goes on reading.\<close>

fun client_reads ::
    "(pb_type, pb_msg) protolib \<Rightarrow> pb_type registry \<Rightarrow> nat \<Rightarrow> reader \<Rightarrow>
     (MsgCommon \<times> pb_msg) result list \<times> reader" where
  "client_reads P g 0 r = ([], r)"
| "client_reads P g (Suc k) r =
     (case ReadMessage P g r of
        (x, r') \<Rightarrow> (case client_reads P g k r' of (xs, r'') \<Rightarrow> (x # xs, r'')))"

section \<open>Its log-ins\<close>

text \<open>The messages of the write loop after the id \<open>i\<close>.\<close>

fun logins :: "u32 \<Rightarrow> int list \<Rightarrow> (MsgCommon \<times> pb_msg) list" where
  "logins i [] = []"
| "logins i (x # xs) =
     (MsgCommon_Reset\<lparr>Mid := i + 1, Route := name_id (full_name TCReqLogin)\<rparr>,
      MCReqLogin \<lparr>CReqLogin_Account = account_text x\<rparr>) # logins (i + 1) xs"

lemma length_logins [simp]: "length (logins i xs) = length xs"
  by (induction xs arbitrary: i) simp_all

definition repo_lib :: "(pb_type, pb_msg) protolib \<Rightarrow> bool" where
  "repo_lib P \<longleftrightarrow> proto_ok P \<and> fname P = full_name \<and> mtype P = pb_msg_type"

lemma client_loop_writes:
  assumes "repo_lib P" and "write_err = (\<lambda>_. None)" and "reg_wf P (c_types s)"
    and "\<forall>cm \<in> set (logins (c_mid s) xs). \<exists>rc rm. MarshalCommon P (fst cm) = Inr rc \<and>
      Marshal P (snd cm) = Inr rm"
  shows "\<exists>g. client_loop P write_err xs s =
      (s\<lparr>c_types := g, c_mid := c_mid s + of_nat (length xs),
         c_written := c_written s @ concat (map (encode P) (logins (c_mid s) xs))\<rparr>, Ret True) \<and>
    reg_wf P g \<and> (\<forall>t i. type2id (c_types s) t = Some i \<longrightarrow> type2id g t = Some i)"
  using assms(3,4)
proof (induction xs arbitrary: s)
  case Nil
  then show ?case by (intro exI [of _ "c_types s"]) simp
next
  case (Cons x xs)
  let ?m = "MCReqLogin \<lparr>CReqLogin_Account = account_text x\<rparr>"
  let ?c = "MsgCommon_Reset\<lparr>Mid := c_mid s + 1\<rparr>"
  let ?c' = "?c\<lparr>Route := name_id (full_name TCReqLogin)\<rparr>"
  have lib: "fname P = full_name" "mtype P ?m = TCReqLogin" using assms(1) by (auto simp: repo_lib_def)
  obtain rc rm where raw: "MarshalCommon P ?c' = Inr rc" "Marshal P ?m = Inr rm"
    using Cons.prems(2) by auto
  have free: "id2type (c_types s) (name_id (fname P (mtype P ?m))) \<in> {None, Some (mtype P ?m)}"
    unfolding lib by (rule repo_free [OF lib(1) Cons.prems(1)])
  obtain g where pk: "PackMessage P ?c ?m (c_types s) = (g, Ret (?c', Inr (frame rc rm)))"
    using PackMessage_success [OF Cons.prems(1) free raw(2), of ?c rc] raw(1) unfolding lib by blast
  let ?s = "s\<lparr>c_mid := c_mid s + 1, c_types := g, c_written := c_written s @ frame rc rm\<rparr>"
  have "reg_wf P (c_types ?s)" using PackMessage_wf [OF Cons.prems(1), of ?c ?m] pk by simp
  from Cons.IH [OF this] Cons.prems(2) obtain g' where
    "client_loop P write_err xs ?s =
      (?s\<lparr>c_types := g', c_mid := c_mid ?s + of_nat (length xs),
         c_written := c_written ?s @ concat (map (encode P) (logins (c_mid ?s) xs))\<rparr>, Ret True)"
    "reg_wf P g'" "\<forall>t i. type2id g t = Some i \<longrightarrow> type2id g' t = Some i" by auto
  moreover have "type2id g t = Some i" if "type2id (c_types s) t = Some i" for t i
    using PackMessage_keeps [OF Cons.prems(1) that, of ?c ?m] pk by simp
  moreover have "encode P (?c', ?m) = frame rc rm" by (simp add: encode_def raw del: full_name.simps)
  ultimately show ?case using pk assms(2)
    by (intro exI [of _ g']) (simp add: Let_def add.assoc del: full_name.simps)
qed

lemma forwardable_marshals:
  assumes "list_all2 (forwardable E n g a) picks cms"
  shows "\<forall>cm \<in> set cms. \<exists>rc rm. MarshalCommon (lib E) (fst cm) = Inr rc \<and> Marshal (lib E) (snd cm) = Inr rm"
  using assms by (induction rule: list_all2_induct) (auto simp: forwardable_def sendable_def)

lemma client_reads_read_n: "client_reads P g = read_n (ReadMessage P g)"
proof (intro ext)
  show "client_reads P g k r = read_n (ReadMessage P g) k r" for k r
    by (induction k arbitrary: r) simp_all
qed

lemma client_start_ok:
  assumes "repo_lib P" and "reg_wf P (c_types s)"
  obtains g where "client_start P None s = (s\<lparr>c_types := g\<rparr>, Ret ())" "reg_wf P g"
    "type2id g TSRespLogin = Some (name_id (full_name TSRespLogin))"
proof -
  have f: "fname P = full_name" using assms(1) by (simp add: repo_lib_def)
  obtain g where r: "RegisterMessage P (Some TSRespLogin) (c_types s) =
      (g, Ret (Inr (name_id (full_name TSRespLogin))))" "reg_wf P g"
    using RegisterMessage_repo [OF f assms(2)] by blast
  moreover have "type2id g TSRespLogin = Some (name_id (full_name TSRespLogin))"
    using RegisterMessage_repo_ids [OF f assms(2), of TSRespLogin] r(1) by simp
  ultimately show thesis using that by (simp add: client_start_def)
qed

section \<open>Properties\<close>

definition client0 :: client where
  "client0 = \<lparr>c_types = empty_registry, c_mid = 0, c_written = []\<rparr>"

text \<open>The bytes of the client, and the registry with which it reads.\<close>

lemma client_writes:
  assumes "repo_lib P" and "write_err = (\<lambda>_. None)"
    and "\<forall>cm \<in> set (logins 0 xs). \<exists>rc rm. MarshalCommon P (fst cm) = Inr rc \<and> Marshal P (snd cm) = Inr rm"
  obtains s1 r where "client_start P None client0 = (s1, Ret ())"
    "client_loop P write_err xs s1 = (client0\<lparr>c_types := r, c_mid := of_nat (length xs),
       c_written := concat (map (encode P) (logins 0 xs))\<rparr>, Ret True)"
    "reg_wf P r" "type2id r TSRespLogin = Some (name_id (full_name TSRespLogin))"
proof -
  obtain r1 where 1: "client_start P None client0 = (client0\<lparr>c_types := r1\<rparr>, Ret ())" "reg_wf P r1"
      "type2id r1 TSRespLogin = Some (name_id (full_name TSRespLogin))"
    using client_start_ok [OF assms(1), of client0] reg_wf_empty by (auto simp: client0_def)
  obtain r2 where "client_loop P write_err xs (client0\<lparr>c_types := r1\<rparr>) =
      (client0\<lparr>c_types := r2, c_mid := of_nat (length xs), c_written := concat (map (encode P) (logins 0 xs))\<rparr>, Ret True)"
      "reg_wf P r2" "type2id r2 TSRespLogin = Some (name_id (full_name TSRespLogin))"
    using client_loop_writes [OF assms(1,2), of "client0\<lparr>c_types := r1\<rparr>" xs] 1(2,3) assms(3)
    by (auto simp: client0_def simp del: full_name.simps)
  with 1(1) that show thesis by blast
qed

text \<open>
  The log-ins of the demo client pass a gate. As long as its connection takes what it
  writes, the client never leaves its write loop, and the read loop of the gate at the other
  end of the TCP connection forwards one log-in for each turn of the client, in order and
  under the ids 1, 2, 3 and so on, with the connection read to its end.
\<close>

theorem demo_logins_forwarded:
  assumes "repo_lib (lib E)" and "write_err = (\<lambda>_. None)"
    and "running n" and "publish_error E = (\<lambda>_ _. None)"
    and "list_all2 (forwardable E n g a) picks (logins 0 xs)"
  shows "\<exists>s1 s2. client_start (lib E) None client0 = (s1, Ret ()) \<and>
    client_loop (lib E) write_err xs s1 = (s2, Ret True) \<and> c_mid s2 = of_nat (length xs) \<and>
    readChan E ReadAll_Limit g a picks (c_written s2, e) n =
      (([], e), n\<lparr>published := published n @ map2 (published_for E n g a) picks (logins 0 xs)\<rparr>, False)"
proof -
  have "\<forall>cm \<in> set (logins 0 xs). \<exists>rc rm. MarshalCommon (lib E) (fst cm) = Inr rc \<and> Marshal (lib E) (snd cm) = Inr rm"
    by (rule forwardable_marshals [OF assms(5)])
  then obtain s1 r where s1: "client_start (lib E) None client0 = (s1, Ret ())"
    "client_loop (lib E) write_err xs s1 = (client0\<lparr>c_types := r, c_mid := of_nat (length xs),
       c_written := concat (map (encode (lib E)) (logins 0 xs))\<rparr>, Ret True)"
    by (rule client_writes [OF assms(1,2)])
  have "readChan E ReadAll_Limit g a picks (concat (map (encode (lib E)) (logins 0 xs)), e) n =
      (([], e), n\<lparr>published := published n @ map2 (published_for E n g a) picks (logins 0 xs)\<rparr>, False)"
    using raw.readChan_forwards [OF TrueI assms(3,4,5), of _ "[]" e] by auto
  with s1 show ?thesis by auto
qed

definition demo_gate :: sample_node where
  "demo_gate = sample_auth\<lparr>types := login_registry\<rparr>"

definition demo_routed :: agents where
  "demo_routed = dir_in\<lparr>pbRoute := fst (route_all [(TCReqLogin, ''auth'')] newRouteMgr)\<rparr>"

lemma sample_logins_forwardable:
  "list_all2 (forwardable sample_env demo_gate demo_routed 1) [sample_pick, sample_pick] (logins 0 [7, 42])"
proof -
  have R: "Random (fst sample_pick) (snd sample_pick)
      (route_type (pbRoute demo_routed) (name_id (full_name TCReqLogin))) =
      Some \<lparr>NodeId = ''a'', NodeType = ''auth'', Address = []\<rparr>"
    by (simp add: Random_def sample_pick_def demo_routed_def route_all_def addRoute_def newRouteMgr_def
        route_type_def del: full_name.simps)
  have k: "agent_SID demo_routed 1 = ''s1''" "agent_UID demo_routed 1 = 0" "self_id demo_gate = ''a''"
    "GetType (members demo_gate) ''a'' = Inr ''auth''" "types demo_gate = login_registry"
    by (simp_all add: demo_routed_def dir_in_def BindSID_def NewAgents_def agent_SID_def
        agent_UID_def sample_sessions_def sample_node_defs GetType_def GetMember_def demo_gate_def)
  have l: "length (account_text 7) = 15" "length (account_text 42) = 16"
    by (simp_all add: account_text_def account_format_def sprintf.simps fmt_verb_def show_int_def
        show_nat.simps)
  have reg: "reg_wf sample_lib login_registry"
    "type2id login_registry TCReqLogin = Some (name_id (full_name TCReqLogin))"
    using sample_login_sendable by (simp_all add: sendable_def sample_login_def del: full_name.simps)
  show ?thesis using R k l reg
    by (simp add: forwardable_def sendable_def proto_ok_sample gate_header_def fits_def
        length_enc_common MsgCommon_Reset_def del: full_name.simps)
qed

theorem demo_logins_forwarded_witness:
  "\<exists>s1 s2. client_start sample_lib None client0 = (s1, Ret ()) \<and>
    client_loop sample_lib (\<lambda>_. None) [7, 42] s1 = (s2, Ret True) \<and> c_mid s2 = 2 \<and>
    readChan sample_env ReadAll_Limit demo_routed 1 [sample_pick, sample_pick] (c_written s2, None) demo_gate =
      (([], None), demo_gate\<lparr>published := published demo_gate @
         map (published_for sample_env demo_gate demo_routed 1 sample_pick) (logins 0 [7, 42])\<rparr>, False)"
proof -
  have "repo_lib (lib sample_env)" by (simp add: repo_lib_def proto_ok_sample)
  moreover have "running demo_gate" by (simp add: demo_gate_def sample_node_defs)
  ultimately show ?thesis
    using demo_logins_forwarded [OF _ refl _ _ sample_logins_forwardable, of None] by simp
qed

text \<open>
  The read loop gets the answers in order. On a connection that has ended it does not stop:
  every further turn fails at once, without waiting for anything.
\<close>

theorem client_reads_answers:
  assumes "\<forall>cm \<in> set cms. sendable P g cm"
  shows "client_reads P g (length cms + k) (concat (map (encode P) cms), None) =
    (map Inr cms @ replicate k (Inl PacketConnectClosed), ([], None))"
proof -
  have spin: "client_reads P g k ([], None) = (replicate k (Inl PacketConnectClosed), ([], None))"
    by (induction k) (simp_all add: ReadMessage_def packet_consts)
  show ?thesis using assms
  proof (induction cms)
    case (Cons cm cms)
    have "ReadMessage P g (encode P cm @ concat (map (encode P) cms), None) =
        (Inr cm, (concat (map (encode P) cms), None))"
      using Cons.prems by (simp add: read_encode)
    then show ?case using Cons by simp
  qed (simp add: spin)
qed

end
