(* ===== verification/Demo.thy ===== *)
theory Demo
  imports Client
begin

text \<open>
  The demo client (\<^verbatim>\<open>demo/client/main.go\<close>) at a cluster of one gate: from the accounts it
  draws to the answers its read loop gets, through the gate's read loop, the cluster, the
  log-in handler, the default handler, the agent's queues and its writer.
\<close>

section \<open>The gate's part\<close>

text \<open>The messages of the gate's own subject, each handled before the next is received.\<close>

fun serve_each ::
    "('t, 'm, 'h, 'c, 'l) cluster_env \<Rightarrow> string \<Rightarrow> bytes list \<Rightarrow> (('t, 'm, 'h, 'c, 'l) node, unit) proc" where
  "serve_each E subj [] n = (n, Ret ())"
| "serve_each E subj (d # ds) n = seq_proc (serve_one E subj d) (\<lambda>_. serve_each E subj ds) n"

text \<open>
  An answer at the gate: the receive loop posts it, the worker takes it with the handler of
  \<open>Agents.Init\<close>, which looks the agent up and hands it the message. \<open>None\<close> where that is
  not what happens.
\<close>

definition answer_turn ::
    "('c, 'l) gate_env \<Rightarrow> (pb_type, pb_msg, 'f) agent_env \<Rightarrow> agents \<Rightarrow> bytes \<Rightarrow>
     ('c, 'l) gate_node \<times> (pb_msg, 'f) agent \<Rightarrow> (('c, 'l) gate_node \<times> (pb_msg, 'f) agent) option" where
  "answer_turn E AE g d s =
     (case receive_turn E (nats_deliver (subject (natsSub (fst s))) d (fst s)) of
        None \<Rightarrow> None
      | Some n \<Rightarrow>
          (case chan_recv (queue n) of
             Received (Task (Some (DefaultHandler AgentHandler)) c m) q \<Rightarrow>
               if Agents_Init_handler g c = Some (self AE)
               then map_option (Pair (n\<lparr>queue := q\<rparr>)) (Response (writeBacklog (aset AE)) c m (snd s))
               else None
           | _ \<Rightarrow> None))"

text \<open>The answers in turn, with any steps of the agent's goroutines behind each.\<close>

inductive answer_run ::
    "('c, 'l) gate_env \<Rightarrow> (pb_type, pb_msg, 'f) agent_env \<Rightarrow> agents \<Rightarrow> bytes list \<Rightarrow>
     ('c, 'l) gate_node \<times> (pb_msg, 'f) agent \<Rightarrow> ('c, 'l) gate_node \<times> (pb_msg, 'f) agent \<Rightarrow> bool" for E AE g where
  Handled_all: "answer_run E AE g [] s s"
| Handled: "\<lbrakk>answer_turn E AE g d (n, a) = Some (n1, a1); (agent_step AE)\<^sup>*\<^sup>* a1 a2;
      answer_run E AE g ds (n1, a2) s'\<rbrakk> \<Longrightarrow> answer_run E AE g (d # ds) (n, a) s'"

section \<open>Log-ins and answers\<close>

text \<open>What the client's log-ins become at the gate \<open>k\<close>, and the answers to them.\<close>

fun forwarded :: "agents \<Rightarrow> aid \<Rightarrow> string \<Rightarrow> MsgCommon \<times> pb_msg \<Rightarrow> MsgCommon \<times> pb_msg" where
  "forwarded g a k (c, m) = (login_header g a k c TCReqLogin, m)"

fun reply :: "agents \<Rightarrow> aid \<Rightarrow> string \<Rightarrow> MsgCommon \<times> pb_msg \<Rightarrow> MsgCommon \<times> pb_msg" where
  "reply g a k (c, MCReqLogin r) = (login_header g a k c TSRespLogin, MSRespLogin (login_answer r))"
| "reply g a k (c, m) = (c, m)"

text \<open>A log-in that fits its three frames: the client's, the forwarded one, and the answer.\<close>

definition login_fits :: "('c, 'l) gate_env \<Rightarrow> agents \<Rightarrow> aid \<Rightarrow> string \<Rightarrow> MsgCommon \<times> pb_msg \<Rightarrow> bool" where
  "login_fits E g a k cm \<longleftrightarrow>
     (\<exists>r. snd cm = MCReqLogin r) \<and> Route (fst cm) = name_id (full_name TCReqLogin) \<and>
     fits E (fst cm) (snd cm) \<and> fits E (fst (forwarded g a k cm)) (snd (forwarded g a k cm)) \<and>
     fits E (fst (reply g a k cm)) (snd (reply g a k cm))"

lemma sendableI:
  assumes "proto_ok (lib E)" and "reg_wf (lib E) r" and "type2id r (mtype (lib E) m) = Some (Route c)"
    and "fits E c m"
  shows "sendable (lib E) r (c, m)"
  using assms by (simp add: sendable_def fits_def)

lemma sendable_later:
  assumes "sendable P r cm" and "reg_wf P r'" and "\<And>t i. type2id r t = Some i \<Longrightarrow> type2id r' t = Some i"
  shows "sendable P r' cm"
  using assms by (simp add: sendable_def)

lemma sendable_wf: "sendable P r cm \<Longrightarrow> reg_wf P r"
  by (simp add: sendable_def)

text \<open>A gate that \<open>Random\<close> always gives itself forwards to itself.\<close>

definition own_pick :: "('c, 'l) gate_node \<Rightarrow> choice \<Rightarrow> bool" where
  "own_pick n pick \<longleftrightarrow> (\<exists>m. Random (fst pick) (snd pick) ''gate'' = Some m \<and> NodeId m = self_id n)"

lemma login_forwardable:
  assumes "gate_services E" and "gate_ready E n" and "knows n n" and "own_pick n pick"
    and "route_type (pbRoute g) (name_id (full_name TCReqLogin)) = ''gate''"
    and "login_fits E g a (self_id n) cm"
  shows "forwardable E n g a pick cm"
    and "published_for E n g a pick cm =
      (subject (natsSub n), encode (lib E) (forwarded g a (self_id n) cm))"
proof -
  obtain m where m: "Random (fst pick) (snd pick) ''gate'' = Some m" "NodeId m = self_id n"
    using assms(4) by (auto simp: own_pick_def)
  obtain c r where cm: "cm = (c, MCReqLogin r)" using assms(6) by (cases cm) (auto simp: login_fits_def)
  have c: "Route c = name_id (full_name TCReqLogin)" using assms(6) cm by (simp add: login_fits_def)
  have hd: "gate_header n g a (self_id n) c = login_header g a (self_id n) c TCReqLogin"
    using c by (cases c) (simp add: gate_header_def login_header_def del: full_name.simps)
  have "sendable (lib E) (types n) cm"
    unfolding cm using assms(1,2,6) c cm
    by (intro sendableI) (simp_all add: gate_services_def gate_ready_def login_fits_def del: full_name.simps)
  moreover have ty: "GetType (members n) (NodeId m) = Inr (self_type n)"
    using assms(3) m(2) by (simp add: knows_def)
  ultimately show "forwardable E n g a pick cm"
    using assms(5,6) m c cm hd by (simp add: forwardable_def login_fits_def del: full_name.simps)
  show "published_for E n g a pick cm =
      (subject (natsSub n), encode (lib E) (forwarded g a (self_id n) cm))"
    using assms(2,5) m c hd ty
    by (simp add: published_for_def cm gate_ready_def node_ready_def del: full_name.simps)
qed

text \<open>The handler answers each of the forwarded log-ins, in order.\<close>

lemma serve_logins:
  assumes "gate_services E" and "gate_ready E n" and "knows n n"
    and "\<forall>cm \<in> set cms. login_fits E g a (self_id n) cm"
  obtains r where
    "serve_each E (subject (natsSub n)) (map (\<lambda>cm. encode (lib E) (forwarded g a (self_id n) cm)) cms) n =
       (n\<lparr>types := r, published := published n @
          map (\<lambda>cm. (subject (natsSub n), encode (lib E) (reply g a (self_id n) cm))) cms\<rparr>, Ret ())"
    "reg_wf (lib E) r" "\<And>t i. type2id (types n) t = Some i \<Longrightarrow> type2id r t = Some i"
    "\<forall>cm \<in> set cms. sendable (lib E) r (reply g a (self_id n) cm)"
  using assms(2-4)
proof (induction cms arbitrary: n thesis)
  case Nil
  then show ?case by (intro Nil(1) [of "types n"]) (simp_all add: gate_ready_def)
next
  case (Cons cm cms)
  let ?k = "self_id n"
  obtain c r where cm: "cm = (c, MCReqLogin r)" using Cons.prems(4) by (cases cm) (auto simp: login_fits_def)
  have fit: "fits E (login_header g a ?k c TCReqLogin) (MCReqLogin r)"
    "fits E (login_header g a ?k c TSRespLogin) (MSRespLogin (login_answer r))"
    using Cons.prems(4) cm by (simp_all add: login_fits_def)
  have hd: "(login_header g a ?k c TCReqLogin)\<lparr>Route := name_id (full_name TSRespLogin)\<rparr> =
      login_header g a ?k c TSRespLogin"
    "SourceId (login_header g a ?k c TCReqLogin) = ?k" "TargetId (login_header g a ?k c TCReqLogin) = ?k"
    "Route (login_header g a ?k c TCReqLogin) = name_id (full_name TCReqLogin)"
    by (simp_all add: login_header_def del: full_name.simps)
  have sd: "sendable (lib E) (types n) (login_header g a ?k c TCReqLogin, MCReqLogin r)"
    using assms(1) Cons.prems(2) fit(1) hd(4)
    by (intro sendableI) (simp_all add: gate_services_def gate_ready_def del: full_name.simps)
  obtain r1 where r1: "serve_one E (subject (natsSub n)) (encode (lib E) (forwarded g a ?k cm)) n =
       (n\<lparr>types := r1, published := published n @ [(subject (natsSub n), encode (lib E) (reply g a ?k cm))]\<rparr>, Ret ())"
    "sendable (lib E) r1 (reply g a ?k cm)" "\<And>t i. type2id (types n) t = Some i \<Longrightarrow> type2id r1 t = Some i"
    using serve_login [OF assms(1) Cons.prems(2,3) hd(2-4) sd] fit(2) unfolding hd(1) cm forwarded.simps reply.simps
    by metis
  let ?n = "n\<lparr>types := r1, published := published n @ [(subject (natsSub n), encode (lib E) (reply g a ?k cm))]\<rparr>"
  have n: "gate_ready E ?n" "knows ?n ?n" "\<forall>cm \<in> set cms. login_fits E g a (self_id ?n) cm"
    using gate_ready_types [OF Cons.prems(2) r1(2,3)] Cons.prems(3,4) by (simp_all add: knows_def)
  obtain r2 where r2: "serve_each E (subject (natsSub n)) (map (\<lambda>cm. encode (lib E) (forwarded g a ?k cm)) cms) ?n =
       (?n\<lparr>types := r2, published := published ?n @
          map (\<lambda>cm. (subject (natsSub n), encode (lib E) (reply g a ?k cm))) cms\<rparr>, Ret ())"
    "reg_wf (lib E) r2" "\<And>t i. type2id r1 t = Some i \<Longrightarrow> type2id r2 t = Some i"
    "\<forall>cm \<in> set cms. sendable (lib E) r2 (reply g a ?k cm)"
    using Cons.IH [OF _ n] by auto
  show ?case
  proof (rule Cons.prems(1))
    show "\<forall>cm' \<in> set (cm # cms). sendable (lib E) r2 (reply g a ?k cm')"
      using r2(4) sendable_later [OF r1(2) r2(2,3)] by simp
  qed (use r1 r2 in \<open>simp_all\<close>)
qed


text \<open>A connection at rest with its writer in the select.\<close>

definition ready_agent :: "('t, 'm, 'f) agent_env \<Rightarrow> ('m, 'f) agent \<Rightarrow> bool" where
  "ready_agent AE ag \<longleftrightarrow>
     writer_pc ag = WrSelect \<and> state ag \<noteq> AgentClosed \<and> 0 < writeBacklog (aset AE) \<and>
     buf (chPending ag) = [] \<and> 0 < cap (chPending ag) \<and> \<not> isclosed (chPending ag) \<and>
     buf (chWrite ag) = [] \<and> 0 < cap (chWrite ag) \<and> \<not> isclosed (chWrite ag)"

lemma ready_agent_new: "0 < writeBacklog (aset AE) \<Longrightarrow> ready_agent AE (on_connect AE now ip g)"
  by (simp add: ready_agent_def on_connect_defs AgentInit_def AgentClosed_def make_chan_def)

lemma pack_frame_sendable:
  assumes "sendable (alib AE) (areg AE) cm"
  shows "pack_frame AE cm = Some (Inr (encode (alib AE) cm))"
proof -
  obtain c m where cm: "cm = (c, m)" by (cases cm)
  have "c\<lparr>Route := Route c\<rparr> = c" by (cases c) simp
  then show ?thesis using assms
    by (auto simp: cm pack_frame_def PackMessage_def OnMarshal_def MessageID_def encode_def frame_def sendable_def)
qed

text \<open>A message for the client can go through both queues to the connection.\<close>

lemma agent_delivers:
  assumes "ready_agent AE ag" and "sendable (alib AE) (areg AE) (c, m)"
  obtains ag1 where "Response (writeBacklog (aset AE)) c m ag = Some ag1"
    "(agent_step AE)\<^sup>*\<^sup>* ag1 (ag\<lparr>offered := offered ag @ [(c, m)], wire := wire ag @ [encode (alib AE) (c, m)]\<rparr>)"
proof -
  let ?bs = "encode (alib AE) (c, m)"
  let ?ag1 = "ag\<lparr>chPending := (chPending ag)\<lparr>buf := [(c, m)]\<rparr>, offered := offered ag @ [(c, m)]\<rparr>"
  let ?ag2 = "ag\<lparr>offered := offered ag @ [(c, m)], writer_pc := WrSend ?bs\<rparr>"
  let ?ag3 = "ag\<lparr>offered := offered ag @ [(c, m)], chWrite := (chWrite ag)\<lparr>buf := [?bs]\<rparr>, writer_pc := WrSelect\<rparr>"
  let ?ag4 = "ag\<lparr>offered := offered ag @ [(c, m)], wire := wire ag @ [?bs]\<rparr>"
  note R = assms(1) [unfolded ready_agent_def]
  have same: "(chPending ag)\<lparr>buf := []\<rparr> = chPending ag" "(chWrite ag)\<lparr>buf := []\<rparr> = chWrite ag"
    using R by (simp_all add: empty_chan)
  have ag4: "ag\<lparr>offered := offered ag @ [(c, m)], writer_pc := WrSelect, wire := wire ag @ [?bs]\<rparr> = ?ag4"
    using R by (cases ag) simp
  have "Response (writeBacklog (aset AE)) c m ag = Some ?ag1"
    using R by (simp add: Response_def sendPending_defs chan_send_def)
  moreover have "agent_step AE ?ag1 ?ag2"
    using Pending_packed [of ?ag1 "(c, m)" "chPending ag" AE ?bs] R same pack_frame_sendable [OF assms(2)]
    by (simp add: chan_recv_def)
  moreover have "agent_step AE ?ag2 ?ag3"
    using SendRaw [of ?ag2 ?bs "(chWrite ag)\<lparr>buf := [?bs]\<rparr>" AE] R by (simp add: chan_send_def)
  moreover have "agent_step AE ?ag3 ?ag4"
    using Write [of ?ag3 ?bs "chWrite ag" AE] R same by (simp add: chan_recv_def ag4)
  ultimately show thesis using that by (meson converse_rtranclp_into_rtranclp rtranclp.rtrancl_refl)
qed

lemma answer_turn_ok:
  assumes "gate_ready E n" and "sendable (lib E) (types n) (c, m)" and "Route c = name_id (full_name TSRespLogin)"
    and "GetAgent (McSid c) g = Some (self AE)" and "Response (writeBacklog (aset AE)) c m ag = Some ag1"
  shows "answer_turn E AE g (encode (lib E) (c, m)) (n, ag) = Some (n, ag1)"
proof -
  have n: "node_ready n" "reqHandlers n (Route c) = None" "defaultHandler n = Some (DefaultHandler AgentHandler)"
    using assms(1,3) login_routes by (simp_all add: gate_ready_def del: full_name.simps)
  show ?thesis
    unfolding answer_turn_def fst_conv snd_conv receive_default [OF n(1) assms(2) n(2,3)]
    using assms(4,5) ready_same(2) [OF n(1)]
    by (simp add: chan_recv_def Agents_Init_handler_def MsgCommon_GetSid_def)
qed

text \<open>Each answer comes to the connection before the next one is taken.\<close>

lemma answers_delivered:
  assumes "gate_ready E n" and "\<forall>cm \<in> set cms. sendable (lib E) (types n) cm \<and>
      Route (fst cm) = name_id (full_name TSRespLogin) \<and> GetAgent (McSid (fst cm)) g = Some (self AE)"
    and "alib AE = lib E" and "areg AE = types n" and "ready_agent AE ag"
  shows "answer_run E AE g (map (encode (lib E)) cms) (n, ag)
    (n, ag\<lparr>offered := offered ag @ cms, wire := wire ag @ map (encode (lib E)) cms\<rparr>)"
  using assms(2,5)
proof (induction cms arbitrary: ag)
  case Nil
  show ?case by (simp add: Handled_all)
next
  case (Cons cm cms)
  obtain c m where cm: "cm = (c, m)" by (cases cm)
  have sd: "sendable (lib E) (types n) (c, m)" using Cons.prems(1) cm by simp
  let ?ag = "ag\<lparr>offered := offered ag @ [(c, m)], wire := wire ag @ [encode (lib E) (c, m)]\<rparr>"
  obtain ag1 where ag1: "Response (writeBacklog (aset AE)) c m ag = Some ag1" "(agent_step AE)\<^sup>*\<^sup>* ag1 ?ag"
    using agent_delivers [OF Cons.prems(2), of c m] sd assms(3,4) by metis
  have "answer_turn E AE g (encode (lib E) cm) (n, ag) = Some (n, ag1)"
    unfolding cm using Cons.prems(1) cm by (intro answer_turn_ok [OF assms(1) sd _ _ ag1(1)]) auto
  moreover have "ready_agent AE ?ag" using Cons.prems(2) by (simp add: ready_agent_def)
  with Cons.IH [of ?ag] Cons.prems(1) have "answer_run E AE g (map (encode (lib E)) cms) (n, ?ag)
      (n, ?ag\<lparr>offered := offered ?ag @ cms, wire := wire ?ag @ map (encode (lib E)) cms\<rparr>)" by simp
  ultimately have "answer_run E AE g (encode (lib E) cm # map (encode (lib E)) cms) (n, ag)
      (n, ?ag\<lparr>offered := offered ?ag @ cms, wire := wire ?ag @ map (encode (lib E)) cms\<rparr>)"
    using ag1(2) by (intro Handled)
  then show ?case by (simp add: cm)
qed


section \<open>Property\<close>

lemma logins_route: "cm \<in> set (logins i xs) \<Longrightarrow> \<exists>x. snd cm = MCReqLogin \<lparr>CReqLogin_Account = account_text x\<rparr>"
  by (induction xs arbitrary: i) (auto simp del: full_name.simps)

lemma reply_facts:
  assumes "cm \<in> set (logins i xs)"
  shows "Route (fst (reply g a k cm)) = name_id (full_name TSRespLogin)"
    and "McSid (fst (reply g a k cm)) = agent_SID g a"
    and "pb_msg_type (snd (reply g a k cm)) = TSRespLogin"
  using logins_route [OF assms] by (cases cm; auto simp: login_header_def simp del: full_name.simps)+

text \<open>What the answers say: the ids of the requests, and a user id for each account.\<close>

lemma reply_logins:
  "map (\<lambda>(c, m). (Mid c, m)) (map (reply g a k) (logins (of_nat i) xs)) =
   map (\<lambda>(j, x). (of_nat j, MSRespLogin \<lparr>SRespLogin_Code = 0,
      SRespLogin_Uid = ucast (crc32 (bytes_of (account_text x)))\<rparr>)) (enumerate (Suc i) xs)"
proof (induction xs arbitrary: i)
  case (Cons x xs)
  from Cons [of "Suc i"] show ?case
    by (simp add: login_header_def login_answer_def add.commute del: full_name.simps)
qed simp

text \<open>What a gate that always picks itself makes of them.\<close>

lemma demo_forwards:
  assumes "gate_services E" and "gate_ready E A" and "knows A A"
    and "length picks = length cms" and "\<forall>pick \<in> set picks. own_pick A pick"
    and "route_type (pbRoute g) (name_id (full_name TCReqLogin)) = ''gate''"
    and "\<forall>cm \<in> set cms. login_fits E g a (self_id A) cm"
  shows "readChan E ReadAll_Limit g a picks (concat (map (encode (lib E)) cms), e) A =
    (([], e), A\<lparr>published := published A @
       map (\<lambda>cm. (subject (natsSub A), encode (lib E) (forwarded g a (self_id A) cm))) cms\<rparr>, False)"
proof -
  have fw: "forwardable E A g a (picks ! i) (cms ! i)"
      "published_for E A g a (picks ! i) (cms ! i) =
        (subject (natsSub A), encode (lib E) (forwarded g a (self_id A) (cms ! i)))" if "i < length cms" for i
    using login_forwardable [OF assms(1-3) _ assms(6)] assms(4,5,7) that by (metis nth_mem)+
  have "list_all2 (forwardable E A g a) picks cms"
    using fw(1) assms(4) by (simp add: list_all2_conv_all_nth)
  moreover have "map2 (published_for E A g a) picks cms =
      map (\<lambda>cm. (subject (natsSub A), encode (lib E) (forwarded g a (self_id A) cm))) cms"
    using fw(2) assms(4) by (intro nth_equalityI) simp_all
  ultimately show ?thesis
    using raw.readChan_forwards [OF TrueI, of A E g a picks cms "(concat (map (encode (lib E)) cms), e)" "[]" e]
      assms(1,2) by (simp add: gate_services_def gate_ready_def node_ready_def)
qed

text \<open>Its answers to them, up to the connection.\<close>

lemma demo_answers:
  assumes "gate_services E" and "gate_ready E A" and "knows A A"
    and "GetAgent (agent_SID g (self AE)) g = Some (self AE)"
    and "\<forall>cm \<in> set (logins i xs). login_fits E g (self AE) (self_id A) cm"
    and "alib AE = lib E" and "0 < writeBacklog (aset AE)"
  obtains A2 ag where
    "serve_each E (subject (natsSub A))
       (map (\<lambda>cm. encode (lib E) (forwarded g (self AE) (self_id A) cm)) (logins i xs)) A = (A2, Ret ())"
    "published A2 = published A @ map (Pair (subject (natsSub A)))
       (map (encode (lib E)) (map (reply g (self AE) (self_id A)) (logins i xs)))"
    "answer_run E (AE\<lparr>areg := types A2\<rparr>) g (map (encode (lib E)) (map (reply g (self AE) (self_id A)) (logins i xs)))
       (A2, on_connect AE now ip g0) (A2, ag)"
    "wire ag = map (encode (lib E)) (map (reply g (self AE) (self_id A)) (logins i xs))"
    "\<forall>cm \<in> set (logins i xs). sendable (lib E) (types A2) (reply g (self AE) (self_id A) cm)"
proof -
  let ?P = "lib E" and ?a = "self AE" and ?k = "self_id A" and ?s = "subject (natsSub A)" and ?cms = "logins i xs"
  let ?out = "map (reply g ?a ?k) ?cms" and ?ag = "on_connect AE now ip g0"
  obtain r where r: "serve_each E ?s (map (\<lambda>cm. encode ?P (forwarded g ?a ?k cm)) ?cms) A =
       (A\<lparr>types := r, published := published A @ map (\<lambda>cm. (?s, encode ?P (reply g ?a ?k cm))) ?cms\<rparr>, Ret ())"
    "reg_wf ?P r" "\<And>t i. type2id (types A) t = Some i \<Longrightarrow> type2id r t = Some i"
    "\<forall>cm \<in> set ?cms. sendable ?P r (reply g ?a ?k cm)"
    using serve_logins [OF assms(1-3,5)] by blast
  let ?A2 = "A\<lparr>types := r, published := published A @ map (\<lambda>cm. (?s, encode ?P (reply g ?a ?k cm))) ?cms\<rparr>"
  let ?AE = "AE\<lparr>areg := types ?A2\<rparr>"
  have A2: "gate_ready E ?A2"
    using assms(2) r(2,3) by (simp add: gate_ready_def node_ready_def del: full_name.simps)
  have out: "\<forall>cm \<in> set ?out. sendable ?P (types ?A2) cm \<and>
      Route (fst cm) = name_id (full_name TSRespLogin) \<and> GetAgent (McSid (fst cm)) g = Some (self ?AE)"
    using r(4) assms(4) by (auto simp: reply_facts simp del: full_name.simps)
  have "ready_agent ?AE ?ag" using ready_agent_new [of AE now ip g0] assms(7) by (simp add: ready_agent_def)
  from answers_delivered [OF A2 out _ _ this] assms(6)
  have "answer_run E ?AE g (map (encode ?P) ?out) (?A2, ?ag)
      (?A2, ?ag\<lparr>offered := offered ?ag @ ?out, wire := wire ?ag @ map (encode ?P) ?out\<rparr>)" by simp
  from that [OF r(1) _ this] r(4) show thesis by (simp add: on_connect_defs)
qed

text \<open>
  C6: The demo client can get its answers. At a cluster of one gate, which \<open>Random\<close> always
  chooses, there is a run of client, gate, handler, default handler and the agent's goroutines
  in which every log-in of the client's write loop is answered: the gate's read loop forwards
  each of them, each is handled before the next, each answer is offered to the agent and
  written before the next, and the client reads from the connection one answer for each
  log-in, in order, under the request ids 1, 2, 3 and so on, with code 0 and the checksum of
  the account as the user. It is one schedule: in others an answer does not come, as Login shows
  for a gate that gets the answer of another one's client, and Agent for a writer that waits
  for itself.
\<close>

theorem demo_client_can_be_answered:
  assumes "gate_services E" and "gate_ready E A" and "knows A A" and "write_err = (\<lambda>_. None)"
    and "length picks = length xs" and "\<forall>pick \<in> set picks. own_pick A pick"
    and "route_type (pbRoute g) (name_id (full_name TCReqLogin)) = ''gate''"
    and "GetAgent (agent_SID g (self AE)) g = Some (self AE)"
    and "\<forall>cm \<in> set (logins 0 xs). login_fits E g (self AE) (self_id A) cm"
    and "alib AE = lib E" and "0 < writeBacklog (aset AE)"
  shows "\<exists>s1 s2 A1 A2 ag cms.
    client_start (lib E) None client0 = (s1, Ret ()) \<and>
    client_loop (lib E) write_err xs s1 = (s2, Ret True) \<and>
    readChan E ReadAll_Limit g (self AE) picks (c_written s2, e) A = (([], e), A1, False) \<and>
    serve_each E (subject (natsSub A)) (map snd (drop (length (published A)) (published A1))) A1 = (A2, Ret ()) \<and>
    answer_run E (AE\<lparr>areg := types A2\<rparr>) g (map snd (drop (length (published A1)) (published A2)))
      (A2, on_connect AE now ip g0) (A2, ag) \<and>
    client_reads (lib E) (c_types s2) (length xs) (concat (wire ag), None) = (map Inr cms, ([], None)) \<and>
    map (\<lambda>(c, m). (Mid c, m)) cms =
      map (\<lambda>(i, x). (of_nat i, MSRespLogin \<lparr>SRespLogin_Code = 0,
        SRespLogin_Uid = ucast (crc32 (bytes_of (account_text x)))\<rparr>)) (enumerate 1 xs)"
proof -
  let ?P = "lib E" and ?a = "self AE" and ?k = "self_id A" and ?s = "subject (natsSub A)"
  let ?cms = "logins 0 xs"
  let ?out = "map (reply g ?a ?k) ?cms"
  have P: "repo_lib ?P" "mtype ?P = pb_msg_type" "proto_ok ?P" using assms(1) by (simp_all add: gate_services_def repo_lib_def)
  have "\<forall>cm \<in> set ?cms. \<exists>rc rm. MarshalCommon ?P (fst cm) = Inr rc \<and> Marshal ?P (snd cm) = Inr rm"
    using assms(9) by (force simp: login_fits_def fits_def simp del: full_name.simps)
  then obtain s1 r2 where 1: "client_start ?P None client0 = (s1, Ret ())"
    and 2: "client_loop ?P write_err xs s1 = (client0\<lparr>c_types := r2, c_mid := of_nat (length xs),
        c_written := concat (map (encode ?P) ?cms)\<rparr>, Ret True)"
      "reg_wf ?P r2" "type2id r2 TSRespLogin = Some (name_id (full_name TSRespLogin))"
    by (rule client_writes [OF P(1) assms(4)])
  let ?s2 = "client0\<lparr>c_types := r2, c_mid := of_nat (length xs), c_written := concat (map (encode ?P) ?cms)\<rparr>"
  let ?A1 = "A\<lparr>published := published A @ map (\<lambda>cm. (?s, encode ?P (forwarded g ?a ?k cm))) ?cms\<rparr>"
  have 3: "readChan E ReadAll_Limit g ?a picks (c_written ?s2, e) A = (([], e), ?A1, False)"
    using demo_forwards [OF assms(1-3) _ assms(6,7,9)] assms(5) by simp
  have A1: "gate_ready E ?A1" "knows ?A1 ?A1" "\<forall>cm \<in> set ?cms. login_fits E g ?a (self_id ?A1) cm"
    using assms(2,3,9) by (simp_all add: knows_def)
  have same: "self_id ?A1 = ?k" "natsSub ?A1 = natsSub A" by simp_all
  obtain A2 ag where 4: "serve_each E ?s (map (\<lambda>cm. encode ?P (forwarded g ?a ?k cm)) ?cms) ?A1 = (A2, Ret ())"
    "published A2 = published ?A1 @ map (Pair ?s) (map (encode ?P) ?out)"
    "answer_run E (AE\<lparr>areg := types A2\<rparr>) g (map (encode ?P) ?out) (A2, on_connect AE now ip g0) (A2, ag)"
    "wire ag = map (encode ?P) ?out" "\<forall>cm \<in> set ?cms. sendable ?P (types A2) (reply g ?a ?k cm)"
    using demo_answers [OF assms(1) A1(1,2) assms(8) A1(3) assms(10,11), unfolded same] by blast
  have "\<forall>cm \<in> set ?out. sendable ?P r2 cm"
    using 4(5) 2(2,3) P(2) by (auto simp: sendable_def reply_facts simp del: full_name.simps)
  from client_reads_answers [OF this, of 0]
  have rd: "client_reads ?P (c_types ?s2) (length xs) (concat (wire ag), None) = (map Inr ?out, ([], None))"
    unfolding 4(4) by simp
  have fr: "map snd (drop (length (published A)) (published ?A1)) = map (\<lambda>cm. encode ?P (forwarded g ?a ?k cm)) ?cms"
    "map snd (drop (length (published ?A1)) (published A2)) = map (encode ?P) ?out"
    unfolding 4(2) by (simp_all add: comp_def)
  have 5: "map (\<lambda>(c, m). (Mid c, m)) ?out =
      map (\<lambda>(i, x). (of_nat i, MSRespLogin \<lparr>SRespLogin_Code = 0,
        SRespLogin_Uid = ucast (crc32 (bytes_of (account_text x)))\<rparr>)) (enumerate 1 xs)"
    using reply_logins [of g ?a ?k 0 xs] by simp
  show ?thesis
    by (rule exI [of _ s1], rule exI [of _ ?s2], rule exI [of _ ?A1], rule exI [of _ A2],
        rule exI [of _ ag], rule exI [of _ ?out], unfold fr, intro conjI) (rule 1 2(1) 3 4(1,3) rd 5)+
qed

definition login_pick :: choice where
  "login_pick = (\<lambda>_. 0, [(''gate1'', \<lparr>NodeId = ''gate1'', NodeType = ''gate'', Address = []\<rparr>)])"

lemma sample_logins_fit:
  "\<forall>cm \<in> set (logins 0 [7, 42]). login_fits login_env login_agents 1 ''gate1'' cm"
proof -
  have l: "length (account_text 7) = 15" "length (account_text 42) = 16"
    by (simp_all add: account_text_def account_format_def sprintf.simps fmt_verb_def show_int_def
        show_nat.simps)
  have "fits login_env (login_header login_agents 1 ''gate1'' (MsgCommon_Reset\<lparr>Mid := i, Route := j\<rparr>) t) m"
    "fits login_env (MsgCommon_Reset\<lparr>Mid := i, Route := j\<rparr>) m" if "length (enc_msg m) < 65536" for i j t m
    using that login_agents_facts(1) by (simp_all add: fits_def length_enc_common login_header_def
        MsgCommon_Reset_def del: full_name.simps)
  then show ?thesis using l by (simp add: login_fits_def login_answer_def del: full_name.simps)
qed

theorem demo_client_can_be_answered_witness:
  "\<exists>s1 s2 A1 A2 ag cms.
    client_start sample_lib None client0 = (s1, Ret ()) \<and>
    client_loop sample_lib (\<lambda>_. None) [7, 42] s1 = (s2, Ret True) \<and>
    readChan login_env ReadAll_Limit login_agents 1 [login_pick, login_pick] (c_written s2, None) login_gate =
      (([], None), A1, False) \<and>
    serve_each login_env (subject (natsSub login_gate)) (map snd (published A1)) A1 = (A2, Ret ()) \<and>
    answer_run login_env (sample_agent_env\<lparr>areg := types A2\<rparr>) login_agents
      (map snd (drop (length (published A1)) (published A2))) (A2, on_connect sample_agent_env 0 [] login_agents) (A2, ag) \<and>
    client_reads sample_lib (c_types s2) 2 (concat (wire ag), None) = (map Inr cms, ([], None)) \<and>
    map (\<lambda>(c, m). (Mid c, m)) cms =
      [(1, MSRespLogin \<lparr>SRespLogin_Code = 0, SRespLogin_Uid = ucast (crc32 (bytes_of (account_text 7)))\<rparr>),
       (2, MSRespLogin \<lparr>SRespLogin_Code = 0, SRespLogin_Uid = ucast (crc32 (bytes_of (account_text 42)))\<rparr>)]"
proof -
  have picks: "\<forall>pick \<in> set [login_pick, login_pick]. own_pick login_gate pick"
    by (simp add: own_pick_def login_pick_def Random_def)
  have route: "route_type (pbRoute login_agents) (name_id (full_name TCReqLogin)) = ''gate''"
    using login_agents_facts(3) by (simp add: login_client_def del: full_name.simps)
  have AE: "self sample_agent_env = 1" "alib sample_agent_env = lib login_env" "0 < writeBacklog (aset sample_agent_env)"
    by (simp_all add: sample_agent_env_def default_settings_def)
  have agent: "GetAgent (agent_SID login_agents (self sample_agent_env)) login_agents = Some (self sample_agent_env)"
    unfolding AE(1) login_agents_facts(1) by (rule login_agents_facts(2))
  have fit: "\<forall>cm \<in> set (logins 0 [7, 42]). login_fits login_env login_agents (self sample_agent_env) (self_id login_gate) cm"
    unfolding AE(1) login_simps by (rule sample_logins_fit)
  show ?thesis
    using demo_client_can_be_answered [where e = None and now = 0 and ip = "[]" and ?g0.0 = login_agents, OF login_services
        login_gate_ready(1,3) refl _ picks route agent fit AE(2,3)]
    unfolding AE(1) login_simps
    by (simp add: numeral_2_eq_2 del: client_loop.simps readChan.simps serve_each.simps client_reads.simps)
qed

end
