(* ===== verification/Clients.thy ===== *)
theory Clients
  imports Network Demo
begin

text \<open>
  The clients of all gates at the same time: what they send is forwarded by their gate's
  \<open>processPacket\<close>, handled anywhere in the cluster, and answers come to the default handler of
  a gate, which looks the session up in the gate's directory. Clients connect, log in and
  leave meanwhile, the nodes call each other, and messages come late, never or twice. Each node
  has its worker goroutines, whose steps interleave as in Network.
\<close>

section \<open>The state\<close>

text \<open>
  \<open>sent\<close> records whose message it is, the header it left its first node with, and the
  message: a client is a gate and an agent, \<open>None\<close> stands for a node's own call. \<open>handed\<close>
  records what the default handler gave to an agent.
\<close>

type_synonym 'm origin = "(string \<times> aid) option \<times> MsgCommon \<times> 'm"

record ('t, 'm, 'h, 'c, 'l) world =
  w_nodes :: "string \<Rightarrow> ('t, 'm, 'h, 'c, 'l) node option"
  w_jobs :: "string \<Rightarrow> ('t, 'm, 'h) job list"
  w_dirs :: "string \<Rightarrow> agents"
  sent :: "'m origin list"
  handed :: "(string \<times> aid \<times> MsgCommon \<times> 'm) list"

text \<open>What handlers can make of a message, by any number of answers.\<close>

definition derived :: "('h \<Rightarrow> 'm \<Rightarrow> 'm) \<Rightarrow> 'm \<Rightarrow> 'm \<Rightarrow> bool" where
  "derived ans = (\<lambda>m m'. \<exists>h. m' = ans h m)\<^sup>*\<^sup>*"

text \<open>The message and all that is derived from it fit frames, there and back.\<close>

definition family_fits :: "('t, 'm, 'h, 'c, 'l) cluster_env \<Rightarrow> ('h \<Rightarrow> 'm \<Rightarrow> 'm) \<Rightarrow> MsgCommon \<Rightarrow> 'm \<Rightarrow> bool" where
  "family_fits E ans c m0 \<longleftrightarrow>
     (\<forall>m. derived ans m0 m \<longrightarrow>
        fits E (c\<lparr>Route := route_of E m\<rparr>) m \<and> fits E (answer_header c (route_of E m)) m)"

text \<open>
  Handlers answer with \<open>ans\<close>, apart from the default handler \<open>ah\<close> of the gates, whose effect
  is outside the node.
\<close>

definition relaying :: "('t, 'm, 'h, 'c, 'l) cluster_env \<Rightarrow> ('h \<Rightarrow> 'm \<Rightarrow> 'm) \<Rightarrow> 'h \<Rightarrow> bool" where
  "relaying E ans ah \<longleftrightarrow> proto_ok (lib E) \<and> inj (\<lambda>t. name_id (fname (lib E) t)) \<and>
     (\<forall>h. h \<noteq> ah \<longrightarrow> run_handler E h = (\<lambda>c m. Resp E c (ans h m))) \<and>
     (\<forall>c m n. run_handler E ah c m n = (n, Ret ()))"

definition handed_over ::
    "'h \<Rightarrow> agents \<Rightarrow> string \<Rightarrow> ('t, 'm, 'h) task \<Rightarrow> (string \<times> aid \<times> MsgCommon \<times> 'm) list" where
  "handed_over ah g i t =
     (case t of Task h c m \<Rightarrow>
        if h \<noteq> Some (DefaultHandler ah) then []
        else (case Agents_Init_handler g c of Some a \<Rightarrow> [(i, a, c, m)] | None \<Rightarrow> []))"

section \<open>Steps\<close>

text \<open>A callback ends, in \<open>Ended_by\<close>, by a panic, which leaves its id, or by returning.\<close>

inductive world_step ::
    "('t, 'm, 'h, 'c, 'l) cluster_env \<Rightarrow> ('h \<Rightarrow> 'm \<Rightarrow> 'm) \<Rightarrow> 'h \<Rightarrow>
     ('t, 'm, 'h, 'c, 'l) world \<Rightarrow> ('t, 'm, 'h, 'c, 'l) world \<Rightarrow> bool" for E ans ah where
  Client_sends: "\<lbrakk>w_nodes s i = Some n; processPacket E intn entries (w_dirs s i) a c m n = (n', r);
      Random intn entries (route_type (pbRoute (w_dirs s i)) (Route c)) = Some k;
      family_fits E ans (gate_header n (w_dirs s i) a (NodeId k) c) m\<rbrakk> \<Longrightarrow>
    world_step E ans ah s (s\<lparr>w_nodes := (w_nodes s)(i \<mapsto> n'),
      sent := sent s @ [(Some (i, a), gate_header n (w_dirs s i) a (NodeId k) c, m)]\<rparr>)"
| Node_calls: "\<lbrakk>w_nodes s i = Some n; requestAsync E k req (Some cb) n = (n', r);
      family_fits E ans (new_common (self_id n) k (mid (requester n) + 1)) req\<rbrakk> \<Longrightarrow>
    world_step E ans ah s (s\<lparr>w_nodes := (w_nodes s)(i \<mapsto> n'),
      sent := sent s @ [(None, new_common (self_id n) k (mid (requester n) + 1), req)]\<rparr>)"
| Node_tells: "\<lbrakk>w_nodes s i = Some n; PublishMsg E k msg n = (n', r);
      family_fits E ans (new_common (self_id n) k 0) msg\<rbrakk> \<Longrightarrow>
    world_step E ans ah s (s\<lparr>w_nodes := (w_nodes s)(i \<mapsto> n'),
      sent := sent s @ [(None, new_common (self_id n) k 0, msg)]\<rparr>)"
| Carried: "\<lbrakk>w_nodes s i = Some n; (subj, d) \<in> set (published n); w_nodes s j = Some n2\<rbrakk> \<Longrightarrow>
    world_step E ans ah s (s\<lparr>w_nodes := (w_nodes s)(j \<mapsto> nats_deliver subj d n2)\<rparr>)"
| Received_by: "\<lbrakk>w_nodes s i = Some n; receive_turn E n = Some n'\<rbrakk> \<Longrightarrow>
    world_step E ans ah s (s\<lparr>w_nodes := (w_nodes s)(i \<mapsto> n')\<rparr>)"
| Taken_by: "\<lbrakk>w_nodes s i = Some n; length (w_jobs s i) < worker_goroutines; take_task n = Some (t, n')\<rbrakk> \<Longrightarrow>
    world_step E ans ah s (s\<lparr>w_nodes := (w_nodes s)(i \<mapsto> n'), w_jobs := (w_jobs s)(i := w_jobs s i @ [Holding t])\<rparr>)"
| Begun_by: "\<lbrakk>w_nodes s i = Some n; w_jobs s i = js @ Holding t # ks; start_job E t n = (n', new)\<rbrakk> \<Longrightarrow>
    world_step E ans ah s (s\<lparr>w_nodes := (w_nodes s)(i \<mapsto> n'), w_jobs := (w_jobs s)(i := js @ new @ ks),
      handed := handed s @ handed_over ah (w_dirs s i) i t\<rparr>)"
| Ended_by: "\<lbrakk>w_nodes s i = Some n; w_jobs s i = js @ Calling x # ks;
      n' = n \<or> n' = n\<lparr>requester := unregisterCallback x (requester n)\<rparr>\<rbrakk> \<Longrightarrow>
    world_step E ans ah s (s\<lparr>w_nodes := (w_nodes s)(i \<mapsto> n'), w_jobs := (w_jobs s)(i := js @ ks)\<rparr>)"
| Table: "w_nodes s i = Some n \<Longrightarrow>
    world_step E ans ah s (s\<lparr>w_nodes := (w_nodes s)(i \<mapsto> n\<lparr>members := tab, running := b\<rparr>)\<rparr>)"
| Connects: "world_step E ans ah s (s\<lparr>w_dirs := (w_dirs s)(i := BindSID a (w_dirs s i))\<rparr>)"
| Logs_in: "world_step E ans ah s (s\<lparr>w_dirs := (w_dirs s)(i := fst (BindUID sid uid (w_dirs s i)))\<rparr>)"
| Leaves: "world_step E ans ah s (s\<lparr>w_dirs := (w_dirs s)(i := Unbind sid (w_dirs s i))\<rparr>)"

section \<open>Invariant\<close>

text \<open>Every message on its way is derived from one that was sent, under its header or the way back.\<close>

definition traced ::
    "('t, 'm, 'h, 'c, 'l) cluster_env \<Rightarrow> ('h \<Rightarrow> 'm \<Rightarrow> 'm) \<Rightarrow> 'm origin set \<Rightarrow> MsgCommon \<times> 'm \<Rightarrow> bool" where
  "traced E ans S cm \<longleftrightarrow>
     (\<exists>w h m0. (w, h, m0) \<in> S \<and> family_fits E ans h m0 \<and> derived ans m0 (snd cm) \<and>
        fst cm \<in> {h\<lparr>Route := route_of E (snd cm)\<rparr>, answer_header h (route_of E (snd cm))})"

lemma traced_mono: "traced E ans S cm \<Longrightarrow> S \<subseteq> T \<Longrightarrow> traced E ans T cm"
  unfolding traced_def by blast

lemma traced_fits:
  assumes "traced E ans S (c, m)"
  shows "fits E c m" and "Route c = route_of E m"
  using assms by (auto simp: traced_def family_fits_def answer_header_def)

lemma traced_origin:
  assumes "(w, h, m) \<in> S" and "family_fits E ans h m"
  shows "traced E ans S (h\<lparr>Route := route_of E m\<rparr>, m)"
  using assms unfolding traced_def derived_def by auto

lemma answer_header_twice: "answer_header (answer_header h r) r' = h\<lparr>Route := r'\<rparr>"
  "answer_header (h\<lparr>Route := r\<rparr>) r' = answer_header h r'"
  by (cases h; simp add: answer_header_def)+

lemma traced_answer:
  assumes "traced E ans S (c, m)"
  shows "traced E ans S (answer_header c (route_of E (ans u m)), ans u m)"
proof -
  obtain w h m0 where S: "(w, h, m0) \<in> S" "family_fits E ans h m0" "derived ans m0 m"
    and c: "c \<in> {h\<lparr>Route := route_of E m\<rparr>, answer_header h (route_of E m)}"
    using assms by (auto simp: traced_def)
  have "derived ans m0 (ans u m)"
    using S(3) unfolding derived_def by (rule rtranclp.rtrancl_into_rtrancl) blast
  moreover have "answer_header c (route_of E (ans u m)) \<in>
      {h\<lparr>Route := route_of E (ans u m)\<rparr>, answer_header h (route_of E (ans u m))}"
    using c by (auto simp: answer_header_twice)
  ultimately show ?thesis using S(1,2) unfolding traced_def fst_conv snd_conv by blast
qed

definition traced_bytes where
  "traced_bytes E ans S d \<longleftrightarrow> (\<exists>cm. traced E ans S cm \<and> d = encode (lib E) cm)"

fun traced_task where
  "traced_task E ans S (Task h c m) \<longleftrightarrow> traced E ans S (c, m)"

definition node_traced where
  "node_traced E ans S n \<longleftrightarrow> reg_wf (lib E) (types n) \<and>
     (\<forall>f \<in> set (published n). traced_bytes E ans S (snd f)) \<and>
     (\<forall>d \<in> set (buf (ch (natsSub n))). traced_bytes E ans S d) \<and>
     (\<forall>t \<in> set (buf (queue n)). traced_task E ans S t)"

lemma node_traced_mono:
  assumes "node_traced E ans S n" and "S \<subseteq> T"
  shows "node_traced E ans T n"
proof -
  have b: "traced_bytes E ans T d" if "traced_bytes E ans S d" for d
    using that traced_mono [OF _ assms(2)] unfolding traced_bytes_def by blast
  have t: "traced_task E ans T t" if "traced_task E ans S t" for t
    using that traced_mono [OF _ assms(2)] by (cases t) auto
  show ?thesis using assms(1) b t unfolding node_traced_def by blast
qed

lemma node_traced_emits:
  assumes "node_traced E ans S n" and "emits E cm n n'" and "traced E ans S cm"
  shows "node_traced E ans S n'"
proof -
  have d: "traced_bytes E ans S (encode (lib E) cm)" using assms(3) unfolding traced_bytes_def by blast
  obtain g out where n': "n' = n\<lparr>types := g, published := published n @ out\<rparr>" "reg_wf (lib E) g"
    and out: "\<forall>f \<in> set out. snd f = encode (lib E) cm"
    using assms(2) unfolding emits_def by (metis snd_conv)
  have "traced_bytes E ans S (snd f)" if "f \<in> set out" for f using bspec [OF out that] d by simp
  then show ?thesis using assms(1) n'(2) unfolding n'(1) by (simp add: node_traced_def ball_Un)
qed

lemma node_traced_frame [simp]:
  "node_traced E ans S (n\<lparr>requester := rq'\<rparr>) = node_traced E ans S n"
  "node_traced E ans S (n\<lparr>members := tab, running := b\<rparr>) = node_traced E ans S n"
  by (simp_all add: node_traced_def)

lemma node_traced_deliver:
  assumes "node_traced E ans S n" and "traced_bytes E ans S d"
  shows "node_traced E ans S (nats_deliver subj d n)"
  using assms by (auto simp: node_traced_def nats_deliver_def chan_send_def)

lemma read_traced:
  assumes "proto_ok (lib E)" and "inj (\<lambda>t. name_id (fname (lib E) t))"
    and "reg_wf (lib E) g" and "traced E ans S (c, m)"
    and "fst (ReadMessage (lib E) g (encode (lib E) (c, m), None)) = Inr x"
  shows "x = (c, m)"
  using read_fitting [OF assms(1-3) traced_fits [OF assms(4)]] assms(5) by auto

lemma node_traced_post:
  assumes "node_traced E ans S n" and "traced_task E ans S t" and "post t n = Some n'"
  shows "node_traced E ans S n'"
  using assms by (auto simp: node_traced_def post_def chan_simps split: if_splits chan_send.splits)

lemma node_traced_receive:
  assumes "relaying E ans ah" and "node_traced E ans S n" and "receive_turn E n = Some n'"
  shows "node_traced E ans S n'"
proof -
  obtain d c where rec: "chan_recv (ch (natsSub n)) = Received d c"
    "process_msg E d (n\<lparr>natsSub := (natsSub n)\<lparr>ch := c\<rparr>\<rparr>) = Some n'"
    using assms(3) by (auto simp: receive_turn_def split: chan_recv.splits)
  let ?n = "n\<lparr>natsSub := (natsSub n)\<lparr>ch := c\<rparr>\<rparr>"
  have ok: "node_traced E ans S ?n" "traced_bytes E ans S d" "reg_wf (lib E) (types ?n)"
    using assms(2) rec(1) by (auto simp: node_traced_def chan_simps)
  show ?thesis
  proof (cases "fst (ReadMessage (lib E) (types ?n) (d, None))")
    case (Inl e)
    then show ?thesis using rec(2) ok by (simp add: process_msg_def)
  next
    case (Inr x)
    obtain cc m where cm: "traced E ans S (cc, m)" "d = encode (lib E) (cc, m)"
      using ok(2) by (auto simp: traced_bytes_def)
    have "x = (cc, m)"
      using read_traced [OF _ _ ok(3) cm(1)] Inr cm(2) assms(1) by (simp add: relaying_def)
    then have "post (Task (handler_at ?n (Route cc)) cc m) ?n = Some n'"
      using rec(2) Inr by (simp add: process_msg_at)
    then show ?thesis using node_traced_post [OF ok(1), of "Task (handler_at ?n (Route cc)) cc m" n'] cm(1) by simp
  qed
qed

text \<open>What \<open>Resp\<close> and \<open>processPacket\<close> send.\<close>

lemma emits_answer:
  assumes "proto_ok (lib E)" and "reg_wf (lib E) (types n)" and "fits E (answer_header c (route_of E m)) m"
  shows "emits E (answer_header c (route_of E m), m) n (fst (Resp E c m n))"
proof -
  let ?c = "answer_header c (Route c)"
  have c: "?c\<lparr>Route := route_of E m\<rparr> = answer_header c (route_of E m)" by (simp add: answer_header_def)
  obtain g o1 where p: "pack_in E ?c m n = (n\<lparr>types := g\<rparr>, o1)" "reg_wf (lib E) g"
    "\<And>d. o1 = Ret (Inr d) \<Longrightarrow> d = encode (lib E) (answer_header c (route_of E m), m)"
    using pack_in_cases [OF assms(1,2), where c = ?c and m = m] assms(3) unfolding c by metis
  have R: "Resp E c m n = seq_proc (pack_in E ?c m) (\<lambda>r n'. case r of Inl err \<Rightarrow> (n', Ret ())
      | Inr data \<Rightarrow> (fst (SendBytes E (SourceId c) data n'), Ret ())) n"
    by (simp add: Resp_def answer_header_def)
  show ?thesis unfolding R
    using p(1) emits_types [OF p(2)] p(3)
      emits_SendBytes [OF p(2), of "(answer_header c (route_of E m), m)" "SourceId c" n]
    by (auto simp: answer_header_def split: outcome.split sum.split prod.split)
qed

lemma emits_processPacket:
  assumes "proto_ok (lib E)" and "reg_wf (lib E) (types n)"
    and "Random intn entries (route_type (pbRoute g) (Route c)) = Some k"
    and "fits E ((gate_header n g a (NodeId k) c)\<lparr>Route := route_of E m\<rparr>) m"
  shows "emits E ((gate_header n g a (NodeId k) c)\<lparr>Route := route_of E m\<rparr>, m) n
    (fst (processPacket E intn entries g a c m n))"
proof -
  let ?c = "gate_header n g a (NodeId k) c"
  obtain r o1 where p: "pack_in E ?c m n = (n\<lparr>types := r\<rparr>, o1)" "reg_wf (lib E) r"
    "\<And>d. o1 = Ret (Inr d) \<Longrightarrow> d = encode (lib E) (?c\<lparr>Route := route_of E m\<rparr>, m)"
    using pack_in_cases [OF assms(1,2,4)] by metis
  have "TargetId ?c = NodeId k" by (simp add: gate_header_def)
  then show ?thesis
    using assms(3) p(1) emits_types [OF p(2)] p(3)
      emits_SendBytes [OF p(2), of "(?c\<lparr>Route := route_of E m\<rparr>, m)" "NodeId k" n]
    by (auto simp: processPacket_def gate_header_def split: outcome.split sum.split prod.split option.split)
qed

lemma node_traced_run:
  assumes "relaying E ans ah" and "node_traced E ans S n" and "traced E ans S (c, m)"
  shows "node_traced E ans S (fst (run_handler E h c m n))"
proof (cases "h = ah")
  case False
  have P: "proto_ok (lib E)" "run_handler E h = (\<lambda>c m. Resp E c (ans h m))"
    using assms(1) False by (simp_all add: relaying_def)
  let ?cm = "(answer_header c (route_of E (ans h m)), ans h m)"
  have t: "traced E ans S ?cm" by (rule traced_answer [OF assms(3)])
  have wf: "reg_wf (lib E) (types n)" using assms(2) by (simp add: node_traced_def)
  have "emits E ?cm n (fst (Resp E c (ans h m) n))"
    by (rule emits_answer [OF P(1) wf traced_fits(1) [OF t]])
  then show ?thesis unfolding P(2) by (rule node_traced_emits [OF assms(2) _ t])
qed (use assms in \<open>simp add: relaying_def\<close>)

lemma node_traced_start:
  assumes "relaying E ans ah" and "node_traced E ans S n" and "traced_task E ans S t"
  shows "node_traced E ans S (fst (start_job E t n))"
proof -
  obtain h c m where t: "t = Task h c m" by (cases t)
  have "traced E ans S (c, m)" using assms(3) by (simp add: t)
  note run = node_traced_run [OF assms(1,2) this]
  have "node_traced E ans S (fst (call_handler E h c m n))" if "h \<noteq> Some RespHandler"
    using assms(2) run that by (cases "(E, h, c, m, n)" rule: call_handler.cases) simp_all
  then show ?thesis using assms(2) by (simp add: start_job_def t)
qed

lemma node_traced_take:
  assumes "node_traced E ans S n" and "take_task n = Some (t, n')"
  shows "node_traced E ans S n'" and "traced_task E ans S t"
  using assms by (auto simp: take_task_def node_traced_def chan_simps split: chan_recv.splits)

text \<open>Where a header comes from; a client's session id never changes.\<close>

definition origin_ok :: "(string \<Rightarrow> agents) \<Rightarrow> 'm origin \<Rightarrow> bool" where
  "origin_ok dirs x \<longleftrightarrow>
     (case x of (None, h, _) \<Rightarrow> McSid h = [] | (Some (i, a), h, _) \<Rightarrow> McSid h = agent_SID (dirs i) a)"

definition same_sessions :: "(string \<Rightarrow> agents) \<Rightarrow> (string \<Rightarrow> agents) \<Rightarrow> bool" where
  "same_sessions d0 d \<longleftrightarrow> (\<forall>i a. agent_SID (d i) a = agent_SID (d0 i) a)"

definition own_sessions :: "(string \<Rightarrow> agents) \<Rightarrow> bool" where
  "own_sessions d \<longleftrightarrow> inj (\<lambda>(i, a). agent_SID (d i) a) \<and> (\<forall>i a. agent_SID (d i) a \<noteq> [])"

definition handed_ok where
  "handed_ok ans d S x \<longleftrightarrow> (case x of (i, a, c, m) \<Rightarrow> McSid c = agent_SID (d i) a \<and>
     (\<exists>c0 m0. (Some (i, a), c0, m0) \<in> S \<and> Mid c = Mid c0 \<and> derived ans m0 m))"

definition world_inv where
  "world_inv E ans d0 s \<longleftrightarrow>
     (\<forall>i n. w_nodes s i = Some n \<longrightarrow> node_traced E ans (set (sent s)) n) \<and>
     (\<forall>i. \<forall>t \<in> set (tasks_of (w_jobs s i)). traced_task E ans (set (sent s)) t) \<and>
     (\<forall>x \<in> set (sent s). origin_ok d0 x) \<and> same_sessions d0 (w_dirs s) \<and>
     (\<forall>i. sid_wf (w_dirs s i)) \<and> (\<forall>x \<in> set (handed s). handed_ok ans d0 (set (sent s)) x)"

lemma world_invD:
  assumes "world_inv E ans d0 s"
  shows "w_nodes s i = Some n \<Longrightarrow> node_traced E ans (set (sent s)) n"
    and "x \<in> set (sent s) \<Longrightarrow> origin_ok d0 x" and "agent_SID (w_dirs s i) a = agent_SID (d0 i) a"
    and "sid_wf (w_dirs s i)" and "y \<in> set (handed s) \<Longrightarrow> handed_ok ans d0 (set (sent s)) y"
    and "t \<in> set (tasks_of (w_jobs s i)) \<Longrightarrow> traced_task E ans (set (sent s)) t"
  using assms unfolding world_inv_def same_sessions_def by blast+

lemma session_frames [simp]:
  "agent_SID (BindSID b g) a = agent_SID g a" "agent_SID (Unbind sid g) a = agent_SID g a"
  "agent_SID (fst (BindUID sid uid g)) a = agent_SID g a"
  by (auto simp: agent_SID_def BindSID_def Unbind_def BindUID_def split: option.split)

text \<open>A new message, sent by a node that stays traced.\<close>

lemma world_inv_sends:
  assumes "world_inv E ans d0 s" and "w_nodes s i = Some n" and "origin_ok d0 x"
    and "node_traced E ans (set (sent s @ [x])) n'"
  shows "world_inv E ans d0 (s\<lparr>w_nodes := (w_nodes s)(i \<mapsto> n'), sent := sent s @ [x]\<rparr>)"
proof -
  have sub: "set (sent s) \<subseteq> set (sent s @ [x])" by auto
  note D = world_invD [OF assms(1)]
  have "node_traced E ans (set (sent s @ [x])) n2" if "w_nodes s j = Some n2" for j n2
    by (rule node_traced_mono [OF D(1) [OF that] sub])
  moreover have "handed_ok ans d0 (set (sent s @ [x])) y" if "y \<in> set (handed s)" for y
    using D(5) [OF that] unfolding handed_ok_def by (auto split: prod.splits)
  moreover have "traced_task E ans (set (sent s @ [x])) t" if "t \<in> set (tasks_of (w_jobs s j))" for j t
    using D(6) [OF that] traced_mono [OF _ sub] by (cases t) auto
  ultimately show ?thesis using assms(1,3,4) unfolding world_inv_def by auto
qed

lemma world_inv_node:
  assumes "world_inv E ans d0 s" and "node_traced E ans (set (sent s)) n'"
  shows "world_inv E ans d0 (s\<lparr>w_nodes := (w_nodes s)(i \<mapsto> n')\<rparr>)"
  using assms unfolding world_inv_def by auto

lemma world_inv_jobs:
  assumes "world_inv E ans d0 s" and "node_traced E ans (set (sent s)) n'"
    and "\<And>t. t \<in> set (tasks_of js) \<Longrightarrow> traced_task E ans (set (sent s)) t"
  shows "world_inv E ans d0 (s\<lparr>w_nodes := (w_nodes s)(i \<mapsto> n'), w_jobs := (w_jobs s)(i := js)\<rparr>)"
  using assms unfolding world_inv_def by auto

lemma world_inv_handed:
  assumes "world_inv E ans d0 s" and "\<And>x. x \<in> set hs \<Longrightarrow> handed_ok ans d0 (set (sent s)) x"
  shows "world_inv E ans d0 (s\<lparr>handed := handed s @ hs\<rparr>)"
  using assms unfolding world_inv_def by auto

lemma world_inv_dir:
  assumes "world_inv E ans d0 s" and "sid_wf g" and "\<And>a. agent_SID g a = agent_SID (w_dirs s i) a"
  shows "world_inv E ans d0 (s\<lparr>w_dirs := (w_dirs s)(i := g)\<rparr>)"
  using assms unfolding world_inv_def same_sessions_def by auto

text \<open>The default handler finds the agent whose message this is.\<close>

lemma handed_over_ok:
  assumes "world_inv E ans d0 s" and "own_sessions d0" and "traced_task E ans (set (sent s)) t"
    and "x \<in> set (handed_over ah (w_dirs s i) i t)"
  shows "handed_ok ans d0 (set (sent s)) x"
proof -
  note D = world_invD [OF assms(1)]
  obtain f c m where t: "t = Task f c m" by (cases t)
  have "f = Some (DefaultHandler ah)" using assms(4) by (simp add: handed_over_def t split: if_splits)
  then obtain a where a: "Agents_Init_handler (w_dirs s i) c = Some a" and x: "x = (i, a, c, m)"
    using assms(4) by (cases "Agents_Init_handler (w_dirs s i) c") (simp_all add: handed_over_def t)
  have "traced E ans (set (sent s)) (c, m)" using assms(3) by (simp add: t)
  then obtain w h m0 where S: "(w, h, m0) \<in> set (sent s)" "derived ans m0 m" and
    c: "McSid c = McSid h" "Mid c = Mid h"
    by (auto simp: traced_def answer_header_def)
  have "agent_SID (w_dirs s i) a = McSid c"
    using a D(4) [of i] by (auto simp: Agents_Init_handler_def GetAgent_def sid_wf_def MsgCommon_GetSid_def)
  then have sid: "agent_SID (d0 i) a = McSid h" using D(3) c(1) by simp
  have o: "origin_ok d0 (w, h, m0)" by (rule D(2) [OF S(1)])
  show ?thesis
  proof (cases w)
    case None
    then show ?thesis using o sid assms(2) by (simp add: origin_ok_def own_sessions_def)
  next
    case (Some p)
    obtain j b where p: "p = (j, b)" by (cases p)
    have "agent_SID (d0 j) b = agent_SID (d0 i) a" using o sid by (simp add: origin_ok_def Some p)
    then have "(j, b) = (i, a)" using assms(2) unfolding own_sessions_def inj_def by fastforce
    then show ?thesis using S c sid unfolding x handed_ok_def Some p by auto
  qed
qed

lemma world_inv_step:
  assumes "world_step E ans ah s s'" and "relaying E ans ah" and "own_sessions d0" and "world_inv E ans d0 s"
  shows "world_inv E ans d0 s'"
proof -
  note D = world_invD [OF assms(4)]
  have P: "proto_ok (lib E)" using assms(2) by (simp add: relaying_def)
  have wf: "reg_wf (lib E) (types n)" if "w_nodes s i = Some n" for i n
    using D(1) [OF that] by (simp add: node_traced_def)
  have grow: "node_traced E ans (set (sent s @ [x])) n" if "w_nodes s i = Some n" for i n x
    by (rule node_traced_mono [OF D(1) [OF that]]) auto
  have fam: "traced E ans (set (sent s @ [(w, h, m)])) (h\<lparr>Route := route_of E m\<rparr>, m)"
    "fits E (h\<lparr>Route := route_of E m\<rparr>) m" if "family_fits E ans h m" for w h m
    using that by (auto intro!: traced_origin simp: family_fits_def derived_def)
  have cc: "(new_common k i x)\<lparr>Route := r\<rparr> = call_common k i x r" for k i x r by (simp add: call_common_def)
  show ?thesis using assms(1)
  proof (cases rule: world_step.cases)
    case (Client_sends i n intn entries a c m n' r k)
    let ?h = "gate_header n (w_dirs s i) a (NodeId k) c"
    have "emits E (?h\<lparr>Route := route_of E m\<rparr>, m) n n'"
      using emits_processPacket [OF P wf [OF Client_sends(2)] Client_sends(4) fam(2) [OF Client_sends(5)]] Client_sends(3)
      by simp
    from node_traced_emits [OF grow [OF Client_sends(2)] this fam(1) [OF Client_sends(5)]]
    show ?thesis unfolding Client_sends(1)
      by (intro world_inv_sends [OF assms(4) Client_sends(2)]) (simp_all add: origin_ok_def gate_header_def D(3))
  next
    case (Node_calls i n k req cb n' r)
    let ?h = "new_common (self_id n) k (mid (requester n) + 1)"
    let ?n = "n\<lparr>requester := snd (registerCallback (Some cb) (requester n))\<rparr>"
    have "fst (requestAsync E k req (Some cb) n) = fst (send_request E k req (mid (requester n) + 1) ?n)"
      by (simp add: requestAsync_def registerCallback_def)
    then have n': "n' = fst (send_request E k req (mid (requester n) + 1) ?n)" unfolding Node_calls(3) fst_conv .
    have e: "emits E (?h\<lparr>Route := route_of E req\<rparr>, req) ?n n'"
      using emits_send_request [OF P, of ?n k "mid (requester n) + 1" req] wf [OF Node_calls(2)]
        fam(2) [OF Node_calls(4)] unfolding n' by (simp add: cc)
    have g: "node_traced E ans (set (sent s @ [(None, ?h, req)])) ?n" using grow [OF Node_calls(2)] by simp
    from node_traced_emits [OF g e fam(1) [OF Node_calls(4)]]
    show ?thesis unfolding Node_calls(1)
      by (intro world_inv_sends [OF assms(4) Node_calls(2)]) (simp_all add: origin_ok_def new_common_def MsgCommon_Reset_def)
  next
    case (Node_tells i n k msg n' r)
    let ?h = "new_common (self_id n) k 0"
    have "emits E (?h\<lparr>Route := route_of E msg\<rparr>, msg) n n'"
      using emits_PublishMsg [OF P wf [OF Node_tells(2)], of k msg] fam(2) [OF Node_tells(4)] Node_tells(3)
      by (simp add: cc)
    from node_traced_emits [OF grow [OF Node_tells(2)] this fam(1) [OF Node_tells(4)]]
    show ?thesis unfolding Node_tells(1)
      by (intro world_inv_sends [OF assms(4) Node_tells(2)]) (simp_all add: origin_ok_def new_common_def MsgCommon_Reset_def)
  next
    case (Carried i n subj d j n2)
    have "traced_bytes E ans (set (sent s)) d"
      using D(1) [OF Carried(2)] Carried(3) by (force simp: node_traced_def)
    from node_traced_deliver [OF D(1) [OF Carried(4)] this] show ?thesis
      unfolding Carried(1) by (rule world_inv_node [OF assms(4)])
  next
    case (Received_by i n n')
    show ?thesis unfolding Received_by(1)
      by (rule world_inv_node [OF assms(4) node_traced_receive [OF assms(2) D(1) [OF Received_by(2)] Received_by(3)]])
  next
    case (Taken_by i n t n')
    note T = node_traced_take [OF D(1) [OF Taken_by(2)] Taken_by(4)]
    show ?thesis unfolding Taken_by(1)
      by (rule world_inv_jobs [OF assms(4) T(1)]) (use T(2) D(6) [of _ i] in auto)
  next
    case (Begun_by i n js t ks n' new)
    have t: "traced_task E ans (set (sent s)) t" by (rule D(6) [of _ i]) (simp add: Begun_by(3))
    have "tasks_of new = []" using Begun_by(4) by (auto simp: start_job_def split: task.splits if_splits)
    then have "traced_task E ans (set (sent s)) u" if "u \<in> set (tasks_of (js @ new @ ks))" for u
      using that D(6) [of u i] by (auto simp: Begun_by(3))
    then have "world_inv E ans d0 (s\<lparr>w_nodes := (w_nodes s)(i \<mapsto> n'), w_jobs := (w_jobs s)(i := js @ new @ ks)\<rparr>)"
      using node_traced_start [OF assms(2) D(1) [OF Begun_by(2)] t] unfolding Begun_by(4) fst_conv
      by (intro world_inv_jobs [OF assms(4)])
    from world_inv_handed [OF this, of "handed_over ah (w_dirs s i) i t"] show ?thesis
      using handed_over_ok [OF assms(4,3) t, of _ ah i] unfolding Begun_by(1) by simp
  next
    case (Ended_by i n js x ks n')
    have "node_traced E ans (set (sent s)) n'" using D(1) [OF Ended_by(2)] Ended_by(4) by auto
    then show ?thesis unfolding Ended_by(1)
      by (rule world_inv_jobs [OF assms(4)]) (use D(6) [of _ i] in \<open>auto simp: Ended_by(3)\<close>)
  next
    case (Table i n tab b)
    show ?thesis unfolding Table(1) by (rule world_inv_node [OF assms(4)]) (use D(1) [OF Table(2)] in simp)
  next
    case (Connects i a)
    show ?thesis unfolding Connects(1) by (rule world_inv_dir [OF assms(4)]) (simp_all add: sid_wf_keeps D(4))
  next
    case (Logs_in i sid uid)
    show ?thesis unfolding Logs_in(1) by (rule world_inv_dir [OF assms(4)]) (simp_all add: sid_wf_keeps D(4))
  next
    case (Leaves i sid)
    show ?thesis unfolding Leaves(1) by (rule world_inv_dir [OF assms(4)]) (simp_all add: sid_wf_keeps D(4))
  qed
qed

lemma world_run:
  assumes "(world_step E ans ah)\<^sup>*\<^sup>* s0 s" and "relaying E ans ah" and "own_sessions d0" and "world_inv E ans d0 s0"
  shows "world_inv E ans d0 s"
  using assms(1,4) by (induction rule: rtranclp_induct) (auto intro: world_inv_step [OF _ assms(2,3)])

section \<open>Property\<close>

text \<open>Nodes that have been set up and have not done anything yet.\<close>

definition fresh_world where
  "fresh_world E s \<longleftrightarrow> sent s = [] \<and> handed s = [] \<and> (\<forall>i. w_jobs s i = []) \<and> (\<forall>i. sid_wf (w_dirs s i)) \<and>
     (\<forall>i n. w_nodes s i = Some n \<longrightarrow> reg_wf (lib E) (types n) \<and> published n = [] \<and>
        buf (ch (natsSub n)) = [] \<and> buf (queue n) = [])"

lemma fresh_world_inv: "fresh_world E s \<Longrightarrow> world_inv E ans (w_dirs s) s"
  by (auto simp: fresh_world_def world_inv_def node_traced_def same_sessions_def)

text \<open>
  C7: A client only gets answers to its own requests. Session ids are unique and not empty.
  Then, whatever the clients of all gates send under whatever request ids, however clients
  connect, log in and leave, whatever the nodes ask each other, and in whatever order messages
  arrive, late, never or twice: a message that the default handler of a gate hands to an agent
  carries the session of that agent, and comes, by answers of handlers, from a message that the
  gate had forwarded for this agent under the same request id.
\<close>

theorem clients_get_their_own_answers:
  assumes "fresh_world E s0" and "own_sessions (w_dirs s0)" and "relaying E ans ah"
    and "(world_step E ans ah)\<^sup>*\<^sup>* s0 s" and "(i, a, c, m) \<in> set (handed s)"
  shows "McSid c = agent_SID (w_dirs s i) a \<and>
    (\<exists>c0 m0. (Some (i, a), c0, m0) \<in> set (sent s) \<and> Mid c = Mid c0 \<and> derived ans m0 m)"
proof -
  have inv: "world_inv E ans (w_dirs s0) s"
    by (rule world_run [OF assms(4,3,2) fresh_world_inv [OF assms(1)]])
  from world_invD(5) [OF inv assms(5)] world_invD(3) [OF inv, of i a] show ?thesis
    by (simp add: handed_ok_def)
qed

section \<open>A sample run\<close>

lemma world_serves:
  assumes "w_nodes s i = Some n" and "(subj, d) \<in> set (published n)" and "w_nodes s j = Some n2" and "w_jobs s j = []"
    and "receive_turn E (nats_deliver subj d n2) = Some n3" and "buf (queue n3) = [Task h c m]" and "h \<noteq> Some RespHandler"
  shows "(world_step E ans ah)\<^sup>*\<^sup>* s (s\<lparr>w_nodes := (w_nodes s)(j \<mapsto> fst (work_turn E n3)),
    handed := handed s @ handed_over ah (w_dirs s j) j (Task h c m)\<rparr>)"
proof -
  let ?t = "Task h c m" and ?n4 = "n3\<lparr>queue := (queue n3)\<lparr>buf := []\<rparr>\<rparr>"
  have t: "take_task n3 = Some (?t, ?n4)" using assms(6) by (simp add: take_task_def chan_recv_def)
  have b: "start_job E ?t ?n4 = (fst (work_turn E n3), [])"
    using assms(6,7) by (simp add: start_job_def work_turn_def chan_recv_def)
  let ?s1 = "s\<lparr>w_nodes := (w_nodes s)(j \<mapsto> nats_deliver subj d n2)\<rparr>"
  let ?s2 = "?s1\<lparr>w_nodes := (w_nodes ?s1)(j \<mapsto> n3)\<rparr>"
  let ?s3 = "?s2\<lparr>w_nodes := (w_nodes ?s2)(j \<mapsto> ?n4), w_jobs := (w_jobs ?s2)(j := w_jobs ?s2 j @ [Holding ?t])\<rparr>"
  let ?s4 = "?s3\<lparr>w_nodes := (w_nodes ?s3)(j \<mapsto> fst (work_turn E n3)), w_jobs := (w_jobs ?s3)(j := [] @ [] @ []),
    handed := handed ?s3 @ handed_over ah (w_dirs ?s3 j) j ?t\<rparr>"
  have "world_step E ans ah s ?s1" by (rule Carried [OF assms(1-3)])
  moreover have "world_step E ans ah ?s1 ?s2" by (rule Received_by [OF _ assms(5)]) simp
  moreover have "world_step E ans ah ?s2 ?s3"
    by (rule Taken_by [OF _ _ t]) (simp_all add: assms(4) worker_goroutines_def)
  moreover have "world_step E ans ah ?s3 ?s4" by (rule Begun_by [OF _ _ b]) (simp_all add: assms(4))
  ultimately have "(world_step E ans ah)\<^sup>*\<^sup>* s ?s4" by (meson rtranclp.rtrancl_into_rtrancl rtranclp.rtrancl_refl)
  moreover have "?s4 = s\<lparr>w_nodes := (w_nodes s)(j \<mapsto> fst (work_turn E n3)),
      handed := handed s @ handed_over ah (w_dirs s j) j ?t\<rparr>"
    by (rule world.equality) (simp_all add: fun_upd_idem assms(4))
  ultimately show ?thesis by metis
qed

fun login_ans :: "gate_handler \<Rightarrow> pb_msg \<Rightarrow> pb_msg" where
  "login_ans h (MCReqLogin r) = MSRespLogin (login_answer r)"
| "login_ans h m = m"

definition relay_env :: "(string, unit) gate_env" where
  "relay_env = login_env0\<lparr>run_handler := (\<lambda>h s m. case h of
     OnCReqLogin \<Rightarrow> Resp login_env0 s (login_ans h m) | AgentHandler \<Rightarrow> (\<lambda>n. (n, Ret ())))\<rparr>"

lemma relay_services: "gate_services relay_env" "relaying relay_env login_ans AgentHandler" "lib relay_env = sample_lib"
proof -
  show l: "lib relay_env = sample_lib" by (simp add: relay_env_def login_env0_def)
  have e: "Resp relay_env = Resp login_env0"
    by (intro Resp_env) (simp_all add: relay_env_def login_env0_def)
  have p: "publish_error relay_env = (\<lambda>_ _. None)" by (simp add: relay_env_def login_env0_def)
  have r: "run_handler relay_env OnCReqLogin = (\<lambda>s m. Resp relay_env s (login_ans OnCReqLogin m))"
    "run_handler relay_env AgentHandler = (\<lambda>s m n. (n, Ret ()))"
    unfolding e by (simp_all add: relay_env_def)
  show "gate_services relay_env"
    using l p r by (simp add: gate_services_def proto_ok_sample onCReqLogin_def)
  have "run_handler relay_env h = (\<lambda>c m. Resp relay_env c (login_ans h m))" if "h \<noteq> AgentHandler" for h
    using that r(1) by (cases h) simp_all
  then show "relaying relay_env login_ans AgentHandler"
    using l r(2) crc32_full_name_inj
    by (auto simp: relaying_def proto_ok_sample inj_def relay_env_def login_env0_def simp del: full_name.simps)
qed

text \<open>Directories whose sessions are named after the agent and the gate.\<close>

definition own_dir :: "string \<Rightarrow> agents" where
  "own_dir i = (NewAgents (\<lambda>a. \<lparr>Sid = replicate a CHR ''x'' @ CHR ''/'' # i, Uid = 0, Ip = []\<rparr>))
     \<lparr>pbRoute := fst (route_all [(TCReqLogin, ''gate'')] newRouteMgr)\<rparr>"

lemma own_dir_sessions: "own_sessions own_dir" "sid_wf (own_dir i)"
proof -
  have sid: "agent_SID (own_dir i) a = replicate a CHR ''x'' @ CHR ''/'' # i" for i a
    by (simp add: own_dir_def NewAgents_def agent_SID_def)
  have one: "a = b \<and> i = j" if "replicate a CHR ''x'' @ CHR ''/'' # i = replicate b CHR ''x'' @ CHR ''/'' # j" for a b i j
  proof -
    have "takeWhile (\<lambda>c. c = CHR ''x'') (replicate k CHR ''x'' @ CHR ''/'' # l) = replicate k CHR ''x''" for k l
      by (induction k) simp_all
    from this [of a i] this [of b j] that have "replicate a CHR ''x'' = replicate b CHR ''x''" by simp
    then have "a = b" by (metis length_replicate)
    then show ?thesis using that by simp
  qed
  have "inj (\<lambda>(i, a). agent_SID (own_dir i) a)"
    by (rule injI) (use one in \<open>auto simp only: split_paired_all prod.case sid\<close>)
  then show "own_sessions own_dir" by (simp add: own_sessions_def sid)
  show "sid_wf (own_dir i)" by (simp add: sid_wf_def own_dir_def NewAgents_def)
qed

definition sample_world :: "(pb_type, pb_msg, gate_handler, string, unit) world" where
  "sample_world = \<lparr>w_nodes = [''gate1'' \<mapsto> login_gate], w_jobs = \<lambda>_. [], w_dirs = own_dir, sent = [], handed = []\<rparr>"

definition sample_req_login :: CReqLogin where
  "sample_req_login = \<lparr>CReqLogin_Account = ''bob''\<rparr>"

definition gate1_dir :: agents where
  "gate1_dir = BindSID 1 (own_dir ''gate1'')"

lemma gate1_dir_facts:
  "agent_SID gate1_dir 1 = ''x/gate1''" "agent_UID gate1_dir 1 = 0" "GetAgent ''x/gate1'' gate1_dir = Some 1"
  "route_type (pbRoute gate1_dir) (name_id (full_name TCReqLogin)) = ''gate''"
proof -
  have s: "agent_SID (own_dir ''gate1'') 1 = ''x/gate1''"
    by (simp add: own_dir_def NewAgents_def agent_SID_def)
  show "agent_SID gate1_dir 1 = ''x/gate1''" unfolding gate1_dir_def by (simp only: session_frames s)
  show "GetAgent ''x/gate1'' gate1_dir = Some 1" unfolding gate1_dir_def by (simp only: GetAgent_def BindSID_def s) simp
  show "agent_UID gate1_dir 1 = 0" by (simp add: gate1_dir_def BindSID_def own_dir_def NewAgents_def agent_UID_def)
  have "pbRoute gate1_dir = pbRoute login_agents"
    by (simp add: gate1_dir_def BindSID_def own_dir_def login_agents_def)
  then show "route_type (pbRoute gate1_dir) (name_id (full_name TCReqLogin)) = ''gate''"
    using login_agents_facts(3) by (simp add: login_client_def del: full_name.simps)
qed

lemma login_derived:
  "derived login_ans (MCReqLogin r) m \<Longrightarrow> m \<in> {MCReqLogin r, MSRespLogin (login_answer r)}"
  unfolding derived_def by (induction rule: rtranclp_induct) auto

lemma gate1_fits:
  assumes "length (enc_msg m) < 65536"
  shows "fits relay_env (login_header gate1_dir 1 ''gate1'' login_client t) m"
    and "fits relay_env (answer_header (login_header gate1_dir 1 ''gate1'' login_client t) r) m"
    and "fits relay_env ((login_header gate1_dir 1 ''gate1'' login_client t)\<lparr>Route := r\<rparr>) m" and "fits relay_env login_client m"
  using assms by (simp_all add: fits_def length_enc_common login_header_def answer_header_def relay_services(3)
      login_client_def MsgCommon_Reset_def gate1_dir_facts gate1_dir_facts(1) [unfolded One_nat_def] del: full_name.simps)

lemma gate1_family: "family_fits relay_env login_ans (login_header gate1_dir 1 ''gate1'' login_client t) (MCReqLogin sample_req_login)"
proof -
  have "length (enc_msg m) < 65536" if "derived login_ans (MCReqLogin sample_req_login) m" for m
    using login_derived [OF that] by (auto simp: sample_req_login_def login_answer_def)
  then show ?thesis unfolding family_fits_def using gate1_fits(2,3) by blast
qed

lemma gate1_ready: "gate_ready relay_env login_gate" "knows login_gate login_gate"
  using login_gate_ready(1,3) by (simp_all add: gate_ready_def relay_services(3))

definition gate1_request :: bytes where
  "gate1_request = encode sample_lib
     (login_header gate1_dir 1 ''gate1'' login_client TCReqLogin, MCReqLogin sample_req_login)"

text \<open>The client connects and sends a log-in.\<close>

lemma sample_world_sends:
  "\<exists>s. (world_step relay_env login_ans AgentHandler)\<^sup>*\<^sup>* sample_world s \<and>
     w_nodes s = [''gate1'' \<mapsto> login_gate\<lparr>published := [(subject (natsSub login_gate), gate1_request)]\<rparr>] \<and>
     handed s = [] \<and> w_dirs s = own_dir(''gate1'' := gate1_dir) \<and> w_jobs s ''gate1'' = []"
proof -
  let ?E = relay_env and ?A = login_gate and ?g = gate1_dir and ?r = sample_req_login
  let ?step = "world_step ?E login_ans AgentHandler"
  let ?s1 = "sample_world\<lparr>w_dirs := own_dir(''gate1'' := ?g)\<rparr>"
  let ?c1 = "login_header ?g 1 ''gate1'' login_client TCReqLogin"
  have s1: "?step sample_world ?s1"
    using Connects [of ?E login_ans AgentHandler sample_world "''gate1''" 1] by (simp add: sample_world_def gate1_dir_def)
  have route: "Route login_client = name_id (full_name TCReqLogin)" by (simp add: login_client_def del: full_name.simps)
  have small: "length (enc_msg (MCReqLogin ?r)) < 65536" "length (enc_msg (MSRespLogin (login_answer ?r))) < 65536"
    by (simp_all add: sample_req_login_def login_answer_def)
  have fit: "login_fits ?E ?g 1 (self_id ?A) (login_client, MCReqLogin ?r)"
    using gate1_fits small route by (simp add: login_fits_def del: full_name.simps)
  have pick: "own_pick ?A login_pick" by (simp add: own_pick_def login_pick_def Random_def)
  note fw = login_forwardable [OF relay_services(1) gate1_ready pick gate1_dir_facts(4) fit]
  let ?A1 = "?A\<lparr>published := [(subject (natsSub ?A), gate1_request)]\<rparr>"
  have "processPacket ?E (fst login_pick) (snd login_pick) ?g 1 login_client (MCReqLogin ?r) ?A = (?A1, Ret True)"
    using processPacket_ok [OF _ _ fw(1)] fw(2) gate1_ready(1) relay_services(1)
    by (simp add: gate_services_def gate_ready_def node_ready_def relay_services(3) gate1_request_def del: full_name.simps)
  moreover have "Random (fst login_pick) (snd login_pick) (route_type (pbRoute ?g) (Route login_client)) =
      Some \<lparr>NodeId = ''gate1'', NodeType = ''gate'', Address = []\<rparr>"
    unfolding route gate1_dir_facts(4) by (simp add: login_pick_def Random_def)
  moreover have "gate_header ?A ?g 1 ''gate1'' login_client = ?c1"
    using route by (cases login_client) (simp add: gate_header_def login_header_def del: full_name.simps)
  ultimately obtain s2 where s2: "?step ?s1 s2" "w_nodes s2 = [''gate1'' \<mapsto> ?A1]" "handed s2 = []" "w_dirs s2 = own_dir(''gate1'' := ?g)" "w_jobs s2 ''gate1'' = []"
    using Client_sends [of ?s1 "''gate1''" ?A ?E _ _ 1 login_client] gate1_family [of TCReqLogin]
    by (fastforce simp: sample_world_def)
  have "?step\<^sup>*\<^sup>* sample_world s2" using s1 s2(1) by (meson rtranclp.rtrancl_into_rtrancl rtranclp.rtrancl_refl)
  then show ?thesis using s2(2-5) by blast
qed

text \<open>The gate serves it, and the answer is handed over.\<close>

lemma sample_world_run:
  "\<exists>s. (world_step relay_env login_ans AgentHandler)\<^sup>*\<^sup>* sample_world s \<and>
     handed s = [(''gate1'', 1, login_header gate1_dir 1 ''gate1'' login_client TSRespLogin,
       MSRespLogin (login_answer sample_req_login))]"
proof -
  let ?E = relay_env and ?A = login_gate and ?g = gate1_dir and ?r = sample_req_login
  let ?step = "world_step ?E login_ans AgentHandler"
  let ?c1 = "login_header ?g 1 ''gate1'' login_client TCReqLogin" and ?c2 = "login_header ?g 1 ''gate1'' login_client TSRespLogin"
  let ?subj = "subject (natsSub ?A)"
  let ?d1 = gate1_request and ?d2 = "encode sample_lib (?c2, MSRespLogin (login_answer ?r))"
  have small: "length (enc_msg (MCReqLogin ?r)) < 65536" "length (enc_msg (MSRespLogin (login_answer ?r))) < 65536"
    by (simp_all add: sample_req_login_def login_answer_def)
  let ?A1 = "?A\<lparr>published := [(?subj, ?d1)]\<rparr>"
  obtain s2 where s2: "?step\<^sup>*\<^sup>* sample_world s2" "w_nodes s2 = [''gate1'' \<mapsto> ?A1]" "handed s2 = []"
    "w_dirs s2 = own_dir(''gate1'' := ?g)" "w_jobs s2 ''gate1'' = []"
    using sample_world_sends by blast
  have A1: "gate_ready ?E ?A1" "knows ?A1 ?A1" using gate1_ready by (simp_all add: knows_def)
  have hd: "SourceId ?c1 = self_id ?A1" "TargetId ?c1 = self_id ?A1" "Route ?c1 = name_id (full_name TCReqLogin)"
    "?c1\<lparr>Route := name_id (full_name TSRespLogin)\<rparr> = ?c2" by (simp_all add: login_header_def del: full_name.simps)
  have sd: "sendable (lib ?E) (types ?A1) (?c1, MCReqLogin ?r)"
    using A1(1) relay_services(1) gate1_fits(1) small(1) hd(3)
    by (intro sendableI) (simp_all add: gate_services_def gate_ready_def del: full_name.simps)
  have f2: "fits ?E (?c1\<lparr>Route := name_id (full_name TSRespLogin)\<rparr>) (MSRespLogin (login_answer ?r))"
    unfolding hd(4) by (rule gate1_fits(1) [OF small(2)])
  obtain g2 where g2: "serve_one ?E ?subj ?d1 ?A1 = (?A1\<lparr>types := g2, published := [(?subj, ?d1), (?subj, ?d2)]\<rparr>, Ret ())"
    "sendable (lib ?E) g2 (?c2, MSRespLogin (login_answer ?r))" "\<And>t i. type2id (types ?A1) t = Some i \<Longrightarrow> type2id g2 t = Some i"
    using serve_login [OF relay_services(1) A1 hd(1-3) sd f2] unfolding hd(4) relay_services(3) gate1_request_def by auto
  let ?A2 = "?A1\<lparr>types := g2, published := [(?subj, ?d1), (?subj, ?d2)]\<rparr>"
  let ?B1 = "?A1\<lparr>queue := (queue ?A1)\<lparr>buf := [Task (Some (UserHandler TCReqLogin OnCReqLogin)) ?c1 (MCReqLogin ?r)]\<rparr>\<rparr>"
  let ?B2 = "?A2\<lparr>queue := (queue ?A2)\<lparr>buf := [Task (Some (DefaultHandler AgentHandler)) ?c2 (MSRespLogin (login_answer ?r))]\<rparr>\<rparr>"
  have r1: "receive_turn ?E (nats_deliver ?subj ?d1 ?A1) = Some ?B1"
    using receive_frame [of ?A1 ?E ?c1 "MCReqLogin ?r" "UserHandler TCReqLogin OnCReqLogin"] A1(1) sd hd(3)
    by (simp add: gate_ready_def relay_services(3) gate1_request_def del: full_name.simps)
  then have w1: "fst (work_turn ?E ?B1) = ?A2" using g2(1) by (simp add: serve_one_def)
  have A2: "gate_ready ?E ?A2"
    using gate_ready_types [OF A1(1) g2(2,3)] by (simp add: gate_ready_def node_ready_def)
  have "Route ?c2 = name_id (full_name TSRespLogin)" by (simp add: login_header_def del: full_name.simps)
  then have r2: "receive_turn ?E (nats_deliver ?subj ?d2 ?A2) = Some ?B2"
    using receive_default [of ?A2 ?E ?c2 "MSRespLogin (login_answer ?r)" "DefaultHandler AgentHandler"] A2 g2(2) login_routes
    by (simp add: gate_ready_def relay_services(3) del: full_name.simps)
  let ?s3 = "s2\<lparr>w_nodes := [''gate1'' \<mapsto> ?A2], handed := []\<rparr>"
  let ?t1 = "Task (Some (UserHandler TCReqLogin OnCReqLogin)) ?c1 (MCReqLogin ?r)"
  let ?t2 = "Task (Some (DefaultHandler AgentHandler :: (pb_type, gate_handler) handler)) ?c2 (MSRespLogin (login_answer ?r))"
  have "handed_over AgentHandler ?g ''gate1'' ?t1 = []" by (simp add: handed_over_def)
  then have s3: "?step\<^sup>*\<^sup>* s2 ?s3"
    using world_serves [of s2 "''gate1''" ?A1 ?subj ?d1 "''gate1''" ?A1 ?E ?B1 "Some (UserHandler TCReqLogin OnCReqLogin)" ?c1
        "MCReqLogin ?r" login_ans AgentHandler] r1 w1 s2(2-5) by simp
  have "McSid ?c2 = ''x/gate1''" by (simp add: login_header_def gate1_dir_facts(1) gate1_dir_facts(1) [unfolded One_nat_def])
  then have "Agents_Init_handler ?g ?c2 = Some 1"
    using gate1_dir_facts(3) by (simp add: Agents_Init_handler_def MsgCommon_GetSid_def)
  then have h: "handed_over AgentHandler ?g ''gate1'' ?t2 = [(''gate1'', 1, ?c2, MSRespLogin (login_answer ?r))]"
    by (simp add: handed_over_def)
  have g: "w_dirs ?s3 ''gate1'' = ?g" "handed ?s3 = []" by (simp_all add: s2(4))
  have "?step\<^sup>*\<^sup>* ?s3 (?s3\<lparr>w_nodes := (w_nodes ?s3)(''gate1'' \<mapsto> fst (work_turn ?E ?B2)),
      handed := handed ?s3 @ handed_over AgentHandler (w_dirs ?s3 ''gate1'') ''gate1'' ?t2\<rparr>)"
    by (rule world_serves [of ?s3 "''gate1''" ?A2 ?subj ?d2 "''gate1''" ?A2 ?E ?B2 "Some (DefaultHandler AgentHandler)" ?c2
        "MSRespLogin (login_answer ?r)" login_ans AgentHandler]) (use r2 s2(5) in simp_all)
  then have "?step\<^sup>*\<^sup>* ?s3 (?s3\<lparr>w_nodes := (w_nodes ?s3)(''gate1'' \<mapsto> fst (work_turn ?E ?B2)),
      handed := [(''gate1'', 1, ?c2, MSRespLogin (login_answer ?r))]\<rparr>)" unfolding g h append_Nil .
  with s2(1) s3 have "?step\<^sup>*\<^sup>* sample_world (?s3\<lparr>w_nodes := (w_nodes ?s3)(''gate1'' \<mapsto> fst (work_turn ?E ?B2)),
      handed := [(''gate1'', 1, ?c2, MSRespLogin (login_answer ?r))]\<rparr>)"
    by (meson rtranclp_trans)
  then show ?thesis by (intro exI conjI) (assumption, simp)
qed

theorem clients_get_their_own_answers_witness:
  "\<exists>s. (world_step relay_env login_ans AgentHandler)\<^sup>*\<^sup>* sample_world s \<and>
     (\<exists>c m. (''gate1'', 1, c, m) \<in> set (handed s) \<and>
        (\<exists>c0 m0. (Some (''gate1'', 1), c0, m0) \<in> set (sent s) \<and> Mid c = Mid c0 \<and> derived login_ans m0 m))"
proof -
  obtain s where s: "(world_step relay_env login_ans AgentHandler)\<^sup>*\<^sup>* sample_world s"
    "handed s = [(''gate1'', 1, login_header gate1_dir 1 ''gate1'' login_client TSRespLogin,
       MSRespLogin (login_answer sample_req_login))]"
    using sample_world_run by blast
  have "fresh_world relay_env sample_world"
    using own_dir_sessions(2) gate1_ready(1)
    by (simp add: fresh_world_def sample_world_def gate_ready_def node_ready_def)
  moreover have "own_sessions (w_dirs sample_world)" by (simp add: sample_world_def own_dir_sessions)
  ultimately show ?thesis
    using clients_get_their_own_answers [OF _ _ relay_services(2) s(1)] s by fastforce
qed

end
