(* ===== verification/Collision.thy ===== *)
theory Collision
  imports Gateway
begin

text \<open>
  Two kinds of request ids meet in a gate. The gate's own calls get theirs from
  \<^verbatim>\<open>requester.registerCallback\<close>, a client chooses its own, and \<^verbatim>\<open>Agent.processPacket\<close>
  (\<^verbatim>\<open>xagent/agent.go\<close>) forwards the client's under the gate's name. The answer goes to the
  gate, where \<^verbatim>\<open>ClusterComponent.callHandler\<close> (\<^verbatim>\<open>cluster/msg_handler.go\<close>) looks at the
  type of the answer only.
\<close>

text \<open>
  C34: A client can take an answer from its gate. The gate forwards the request id that the
  client chose, and the gate's own calls have ids of the same kind: when a client sends a
  request with the id of a call of the gate that is still waiting, and the gate has
  registered the type of the answer, the answer to the client's request runs the gate's
  callback, uses it up, and never reaches the client.
\<close>

theorem client_id_takes_gates_callback:
  fixes A B :: "('t, 'm, 'h, 'c, 'l) node"
  assumes "proto_ok (lib E)" and "publish_error E = (\<lambda>_ _. None)"
    and "node_ready A" "node_ready B" "knows A B" "knows B A" "reg_wf (lib E) (types B)"
    and "forwardable E A g a pick (c, req)"
    and "Random (fst pick) (snd pick) (route_type (pbRoute g) (Route c)) = Some k" "NodeId k = self_id B"
    and "type2id (types B) (mtype (lib E) req) = Some (route_of E req)"
    and "reqHandlers B (route_of E req) = Some (UserHandler (mtype (lib E) req) h)"
    and "run_handler E h = (\<lambda>s m. Resp E s (answer m))" "type_free E (answer req) B"
    and "fits E (answer_header (gate_header A g a (self_id B) c) (route_of E (answer req))) (answer req)"
    and "reqHandlers A (route_of E (answer req)) = Some RespHandler"
    and "type2id (types A) (mtype (lib E) (answer req)) = Some (route_of E (answer req))"
    and "handlers (requester A) (Mid c) = Some cb"
  shows "\<exists>A1 B1 d1 d2. processPacket E (fst pick) (snd pick) g a c req A = (A1, Ret True) \<and>
    A1 = A\<lparr>published := published A @ [(subject (natsSub B), d1)]\<rparr> \<and>
    serve_one E (subject (natsSub B)) d1 B = (B1, Ret ()) \<and>
    published B1 = published B @ [(subject (natsSub A), d2)] \<and>
    serve_one E (subject (natsSub A)) d2 A1 =
      seq_proc (run_callback E cb (answer req) None)
        (\<lambda>_ n. (set_requester (unregisterCallback (Mid c)) n, Ret ())) A1"
proof -
  let ?c1 = "gate_header A g a (self_id B) c"
  let ?c2 = "answer_header ?c1 (route_of E (answer req))"
  let ?d1 = "encode (lib E) (?c1, req)" and ?d2 = "encode (lib E) (?c2, answer req)"
  let ?A1 = "A\<lparr>published := published A @ [(subject (natsSub B), ?d1)]\<rparr>"
  have sA: "sendable (lib E) (types A) (c, req)" using assms(8) by (simp add: forwardable_def)
  then have route: "Route c = route_of E req"
    using reg_wfD(2) by (fastforce simp: sendable_def)
  have c1: "SourceId ?c1 = self_id A" "Route ?c1 = route_of E req" "Mid ?c2 = Mid c" "Route ?c2 = route_of E (answer req)"
    by (simp_all add: gate_header_def route answer_header_def)
  have f1: "fits E ?c1 req" using assms(8-10) by (auto simp: forwardable_def)
  have ty: "GetType (members A) (self_id B) = Inr (self_type B)" "node.prefix A = node.prefix B"
    "subject (natsSub B) = getRemoteSubject (node.prefix B) (self_type B) (self_id B)"
    using assms(4,5) by (simp_all add: knows_def node_ready_def)
  have p: "processPacket E (fst pick) (snd pick) g a c req A = (?A1, Ret True)"
    using processPacket_ok [OF _ assms(2,8)] assms(3,9,10) ty
    by (simp add: published_for_def node_ready_def)
  obtain B1 where B1: "serve_one E (subject (natsSub B)) ?d1 B = (B1, Ret ())"
    "published B1 = published B @ [(subject (natsSub A), ?d2)]"
    using answer_back [OF assms(1,2,7,3,4,6,14,11,12,13) c1(1,2) f1 assms(15)] by metis
  have "sendable (lib E) (types ?A1) (?c2, answer req)"
    using assms(1,15,17) sA c1(4) by (auto simp: sendable_def fits_def)
  moreover have "node_ready ?A1" using assms(3) by (simp add: node_ready_def)
  moreover have "reqHandlers ?A1 (Route ?c2) = Some RespHandler" using assms(16) c1(4) by simp
  ultimately have "serve_one E (subject (natsSub ?A1)) ?d2 ?A1 = call_handler E (Some RespHandler) ?c2 (answer req) ?A1"
    by (intro serve_one_frame)
  then have "serve_one E (subject (natsSub A)) ?d2 ?A1 =
      seq_proc (run_callback E cb (answer req) None)
        (\<lambda>_ n. (set_requester (unregisterCallback (Mid c)) n, Ret ())) ?A1"
    using assms(18) c1(3) by (simp add: getCallback_def)
  with p B1 show ?thesis by (intro exI [of _ ?A1] exI [of _ B1] exI [of _ ?d1] exI [of _ ?d2]) simp
qed

text \<open>A gate with a call of its own on the way, id 1, and a client that chose that id.\<close>

definition waiting_gate :: sample_node where
  "waiting_gate = sample_gate\<lparr>
     types := fst (RegisterMessage sample_lib (Some TGtGaReqAB) (types sample_gate)),
     requester := snd (registerCallback (Some ''cb'') newRpcHandlerMgr)\<rparr>"

definition sample_same_id :: MsgCommon where
  "sample_same_id = sample_forged\<lparr>Mid := 1\<rparr>"

lemma waiting_gate_types:
  "reg_wf sample_lib (types waiting_gate)"
  "types waiting_gate = \<lparr>id2type = [name_id (full_name TGtGaRspAB) \<mapsto> TGtGaRspAB, name_id (full_name TGtGaReqAB) \<mapsto> TGtGaReqAB],
     type2id = [TGtGaRspAB \<mapsto> name_id (full_name TGtGaRspAB), TGtGaReqAB \<mapsto> name_id (full_name TGtGaReqAB)],
     id2name = [name_id (full_name TGtGaRspAB) \<mapsto> full_name TGtGaRspAB, name_id (full_name TGtGaReqAB) \<mapsto> full_name TGtGaReqAB]\<rparr>"
proof -
  show eq: "types waiting_gate = \<lparr>id2type = [name_id (full_name TGtGaRspAB) \<mapsto> TGtGaRspAB, name_id (full_name TGtGaReqAB) \<mapsto> TGtGaReqAB],
     type2id = [TGtGaRspAB \<mapsto> name_id (full_name TGtGaRspAB), TGtGaReqAB \<mapsto> name_id (full_name TGtGaReqAB)],
     id2name = [name_id (full_name TGtGaRspAB) \<mapsto> full_name TGtGaRspAB, name_id (full_name TGtGaReqAB) \<mapsto> full_name TGtGaReqAB]\<rparr>"
    using sample_ids by (simp add: waiting_gate_def sample_types RegisterMessage_def del: full_name.simps)
  have "reg_wf sample_lib (types sample_gate)" using sample_wf(1) by (simp add: handlers_wf_def)
  then show "reg_wf sample_lib (types waiting_gate)"
    using RegisterMessage_wf [of sample_lib "types sample_gate" "Some TGtGaReqAB"]
    by (simp add: waiting_gate_def)
qed

lemma waiting_gate_forwards:
  "forwardable sample_env waiting_gate sample_routed 1 sample_pick (sample_same_id, sample_req)"
proof -
  have R: "Random (fst sample_pick) (snd sample_pick) (route_type (pbRoute sample_routed) (Route sample_same_id)) =
      Some \<lparr>NodeId = ''a'', NodeType = ''auth'', Address = []\<rparr>"
    by (simp add: Random_def sample_pick_def sample_routed_def route_all_def addRoute_def newRouteMgr_def
        route_type_def sample_forged_def sample_same_id_def del: full_name.simps)
  have k: "agent_SID sample_routed 1 = ''s1''" "agent_UID sample_routed 1 = 0" "self_id waiting_gate = ''g''"
    "GetType (members waiting_gate) ''a'' = Inr ''auth''"
    by (simp_all add: waiting_gate_def sample_routed_def dir_in_def BindSID_def NewAgents_def agent_SID_def
        agent_UID_def sample_sessions_def sample_node_defs GetType_def GetMember_def)
  have "sendable sample_lib (types waiting_gate) (sample_same_id, sample_req)"
    using waiting_gate_types(1) by (simp add: sendable_def proto_ok_sample waiting_gate_types(2)
        sample_req_def length_enc_common sample_forged_def sample_same_id_def del: full_name.simps)
  then show ?thesis using R k by (simp add: forwardable_def gate_header_def fits_def sample_req_def
        length_enc_common sample_forged_def sample_same_id_def del: full_name.simps)
qed

theorem client_id_takes_gates_callback_witness:
  "\<exists>A1 B1 d1 d2.
     processPacket sample_env (fst sample_pick) (snd sample_pick) sample_routed 1 sample_same_id sample_req
       waiting_gate = (A1, Ret True) \<and>
     serve_one sample_env (subject (natsSub sample_auth)) d1 sample_auth = (B1, Ret ()) \<and>
     published B1 = [(subject (natsSub waiting_gate), d2)] \<and>
     handlers (requester A1) 1 = Some ''cb'' \<and>
     serve_one sample_env (subject (natsSub waiting_gate)) d2 A1 =
       (set_requester (unregisterCallback 1) A1, Ret ())"
proof -
  let ?m = "\<lparr>NodeId = ''a'', NodeType = ''auth'', Address = []\<rparr>"
  note ids = sample_ids sample_ids [symmetric]
  have R: "Random (fst sample_pick) (snd sample_pick) (route_type (pbRoute sample_routed) (Route sample_same_id)) = Some ?m"
    by (simp add: Random_def sample_pick_def sample_routed_def route_all_def addRoute_def newRouteMgr_def
        route_type_def sample_forged_def sample_same_id_def del: full_name.simps)
  have nodes: "node_ready waiting_gate" "knows waiting_gate sample_auth" "knows sample_auth waiting_gate"
    using sample_ready by (simp_all add: node_ready_def knows_def waiting_gate_def)
  have wf: "reg_wf (lib sample_env) (types sample_auth)" using sample_wf(2) by (simp add: handlers_wf_def)
  have tf: "type_free sample_env (sum_answer sample_req) sample_auth"
    using ids by (auto simp: type_free_def sample_types sample_req_def simp del: full_name.simps)
  have r: "type2id (types sample_auth) (mtype (lib sample_env) sample_req) = Some (route_of sample_env sample_req)"
    "reqHandlers sample_auth (route_of sample_env sample_req) =
       Some (UserHandler (mtype (lib sample_env) sample_req) ())" "NodeId ?m = self_id sample_auth"
    "reqHandlers waiting_gate (route_of sample_env (sum_answer sample_req)) = Some RespHandler"
    "type2id (types waiting_gate) (mtype (lib sample_env) (sum_answer sample_req)) =
       Some (route_of sample_env (sum_answer sample_req))"
    "handlers (requester waiting_gate) (Mid sample_same_id) = Some ''cb''"
    using ids by (simp_all add: sample_types waiting_gate_types(2) waiting_gate_def sample_node_defs sample_same_id_def
        registerCallback_def RegisterMessage_def empty_registry_def del: full_name.simps)
  have f: "fits sample_env (answer_header (gate_header waiting_gate sample_routed 1 (self_id sample_auth) sample_same_id)
       (route_of sample_env (sum_answer sample_req))) (sum_answer sample_req)"
    by (simp add: fits_def answer_header_def gate_header_def waiting_gate_def sample_node_defs length_enc_common
        sample_routed_def dir_in_def BindSID_def NewAgents_def agent_SID_def
        agent_UID_def sample_sessions_def del: full_name.simps)
  obtain A1 B1 d1 d2 where runs:
    "processPacket sample_env (fst sample_pick) (snd sample_pick) sample_routed 1 sample_same_id sample_req
       waiting_gate = (A1, Ret True)"
    "A1 = waiting_gate\<lparr>published := published waiting_gate @ [(subject (natsSub sample_auth), d1)]\<rparr>"
    "serve_one sample_env (subject (natsSub sample_auth)) d1 sample_auth = (B1, Ret ())"
    "published B1 = published sample_auth @ [(subject (natsSub waiting_gate), d2)]"
    "serve_one sample_env (subject (natsSub waiting_gate)) d2 A1 =
      seq_proc (run_callback sample_env ''cb'' (sum_answer sample_req) None)
        (\<lambda>_ n. (set_requester (unregisterCallback (Mid sample_same_id)) n, Ret ())) A1"
    using client_id_takes_gates_callback [where E = sample_env and A = waiting_gate and B = sample_auth and
        answer = sum_answer and h = "()", OF _ _ nodes(1) sample_ready(2) nodes(2,3) wf waiting_gate_forwards
        R r(3) r(1,2) sample_run_handler tf f r(4-6)] proto_ok_sample by auto
  moreover have "handlers (requester A1) 1 = Some ''cb''"
    using runs(2) r(6) by (simp add: sample_same_id_def)
  ultimately show ?thesis
    by (intro exI [of _ A1] exI [of _ B1] exI [of _ d1] exI [of _ d2])
      (simp add: sample_same_id_def sample_node_defs)
qed

end
