(* ===== verification/Offers.thy ===== *)
theory Offers
  imports Agent
begin

text \<open>
  The worker goroutines that offer messages to a connection, with \<open>sendPending\<close> of
  \<^verbatim>\<open>framework/pkg/xagent/agent.go\<close> as it is: the length of the queue is checked first, and the
  send comes later, when other goroutines may have filled the queue.
\<close>

section \<open>How many offers can wait\<close>

definition offers_inv :: "nat \<Rightarrow> ('t, 'm, 'f) agent_env \<Rightarrow> ('m, 'f) agent \<Rightarrow> bool" where
  "offers_inv k E a \<longleftrightarrow>
     cap (chPending a) = nat (writeBacklog (aset E)) \<and> \<not> isclosed (chPending a) \<and>
     length (buf (chPending a)) \<le> cap (chPending a) \<and>
     length (buf (chPending a)) + length (senders a) \<le> cap (chPending a) + (k - 1)"

lemma offers_inv_step:
  assumes "offer_step k E a b" and "offers_inv k E a"
  shows "offers_inv k E b"
proof -
  have step: "agent_step E a b" and k: "length (senders b) \<le> k"
    and c: "length (senders a) < length (senders b) \<Longrightarrow> int (length (buf (chPending a))) < writeBacklog (aset E)"
    using assms(1) by (simp_all add: offer_step_def sendPending_check_def)
  from step show ?thesis
  proof (cases rule: agent_step.cases)
    case (Check limit cm)
    then have "length (buf (chPending a)) < cap (chPending a)" using c assms(2) by (auto simp: offers_inv_def)
    then show ?thesis using k assms(2) by (auto simp: offers_inv_def Check(1))
  qed (use assms(2) in \<open>auto simp: offers_inv_def agent_ops chan_simps sendPending_send_Some split: option.splits\<close>)
qed

lemma offers_inv_reach:
  assumes "offer_reach k E a" and "settings_ok (aset E)"
  shows "offers_inv k E a"
proof -
  obtain now ip g where "(offer_step k E)\<^sup>*\<^sup>* (on_connect E now ip g) a"
    using assms(1) by (auto simp: offer_reach_def)
  then show ?thesis
  proof (induction rule: rtranclp_induct)
    case base
    show ?case using assms(2) by (simp add: offers_inv_def on_connect_defs)
  qed (rule offers_inv_step)
qed

section \<open>An offer that waits for good\<close>

text \<open>The writer is stuck at its send, and the queue of messages is full behind it.\<close>

definition jammed :: "MsgCommon \<times> 'm \<Rightarrow> bytes \<Rightarrow> ('m, 'f) agent \<Rightarrow> bool" where
  "jammed cm bs a \<longleftrightarrow> stuck bs a \<and> cm \<in> set (senders a) \<and> cap (chPending a) \<le> length (buf (chPending a))"

lemma jammed_step:
  assumes "agent_step E a b" and "jammed cm bs a"
  shows "jammed cm bs b"
proof -
  have s: "stuck bs b" using stuck_step [OF assms(1)] assms(2) by (simp add: jammed_def)
  from assms(1) show ?thesis
    by (cases rule: agent_step.cases)
      (use assms(2) s in \<open>auto simp: jammed_def stuck_def agent_ops chan_simps sendPending_send_Some split: option.splits\<close>)
qed

lemma jammed_forever:
  assumes "(agent_step E)\<^sup>*\<^sup>* a b" and "jammed cm bs a"
  shows "jammed cm bs b"
  using assms by (induction rule: rtranclp_induct) (auto intro: jammed_step)

text \<open>The agent with a stuck writer and \<open>j\<close> messages waiting.\<close>

definition filled :: "('t, 'm, 'f) agent_env \<Rightarrow> MsgCommon \<times> 'm \<Rightarrow> bytes \<Rightarrow> nat \<Rightarrow> ('m, 'f) agent" where
  "filled E cm bs j =
     (let n = nat (writeBacklog (aset E))
      in (blocked E cm bs n)\<lparr>chPending := (make_chan n)\<lparr>buf := replicate j cm\<rparr>, offered := replicate (Suc n + j) cm\<rparr>)"

lemma filled_fields:
  "chPending (filled E cm bs j) = (make_chan (nat (writeBacklog (aset E))))\<lparr>buf := replicate j cm\<rparr>"
  "state (filled E cm bs j) = AgentInit" "senders (filled E cm bs j) = []"
  "offered (filled E cm bs j) = replicate (Suc (nat (writeBacklog (aset E))) + j) cm"
  by (simp_all add: filled_def Let_def blocked_def packed_def on_connect_defs)

lemma filled_reach:
  assumes "settings_ok (aset E)" and "0 < k" and "pack_frame E cm = Some (Inr bs)"
  shows "j \<le> nat (writeBacklog (aset E)) \<Longrightarrow> offer_reach k E (filled E cm bs j)"
proof (induction j)
  case 0
  have "filled E cm bs 0 = blocked E cm bs (nat (writeBacklog (aset E)))"
    by (simp add: filled_def Let_def blocked_def packed_def on_connect_defs make_chan_def)
  then show ?case using blocked_stuck(1) [OF assms] by metis
next
  case (Suc j)
  have ok: "0 < writeBacklog (aset E)" using assms(1) by (simp add: settings_ok_def)
  have e: "replicate (Suc i) cm = replicate i cm @ [cm]" for i by (simp add: replicate_append_same)
  have "sendPending (writeBacklog (aset E)) (fst cm) (snd cm) (filled E cm bs j) =
      Some ((filled E cm bs j)\<lparr>chPending := (make_chan (nat (writeBacklog (aset E))))\<lparr>buf := replicate (Suc j) cm\<rparr>,
        offered := replicate (Suc (nat (writeBacklog (aset E))) + Suc j) cm\<rparr>)"
    unfolding add_Suc_right e using Suc.prems
    by (simp add: sendPending_defs filled_fields chan_send_def AgentInit_def AgentClosed_def)
  moreover have "(filled E cm bs j)\<lparr>chPending := (make_chan (nat (writeBacklog (aset E))))\<lparr>buf := replicate (Suc j) cm\<rparr>,
        offered := replicate (Suc (nat (writeBacklog (aset E))) + Suc j) cm\<rparr> = filled E cm bs (Suc j)"
    by (simp add: filled_def Let_def)
  ultimately show ?case
    using offer_reach_offer [OF Suc.IH _ ok] Suc.prems assms(2) by (metis Suc_leD filled_fields(3) list.size(3))
qed

section \<open>Properties\<close>

text \<open>
  C29: Offers to a client. With a backlog that does not change, and at most \<open>k\<close> goroutines that
  offer messages to a connection at the same time, at most \<open>k - 1\<close> of them wait in the send of
  \<open>sendPending\<close>: there is room in the queue for the others. A single goroutine never waits; a
  node has two worker goroutines.
\<close>

theorem offers_wait_at_most:
  assumes "offer_reach k E a" and "settings_ok (aset E)" and "0 < k"
  shows "length (senders a) \<le> (cap (chPending a) - length (buf (chPending a))) + (k - 1) \<and>
    (k = 1 \<longrightarrow> (\<forall>cm \<in> set (senders a). sendPending_send cm a \<noteq> None))"
proof -
  note I = offers_inv_reach [OF assms(1,2), unfolded offers_inv_def]
  have "sendPending_send cm a \<noteq> None" if "k = 1" "cm \<in> set (senders a)" for cm
  proof -
    have "0 < length (senders a)" using that(2) by (rule length_pos_if_in_set)
    then have "length (buf (chPending a)) < cap (chPending a)" using I that(1) by linarith
    then show ?thesis using I by (simp add: sendPending_send_def chan_send_def)
  qed
  then show ?thesis using I by auto
qed

text \<open>
  C30: A client can take a worker goroutine out of service. Two goroutines that offer to the
  same connection suffice, with the backlog as it was: behind a writer that waits for itself,
  both pass the check for the last place of the queue, and the one that comes second to the
  send waits there, whatever happens later at this connection, \<open>Close\<close> included.
\<close>

theorem offer_waits_forever:
  assumes "settings_ok (aset E)" and "pack_frame E cm = Some (Inr bs)"
  shows "\<exists>a. offer_reach worker_goroutines E a \<and>
    (\<forall>b. (agent_step E)\<^sup>*\<^sup>* a b \<longrightarrow> cm \<in> set (senders b) \<and> sendPending_send cm b = None \<and> conn_open b)"
proof -
  let ?n = "nat (writeBacklog (aset E))"
  have ok: "0 < writeBacklog (aset E)" using assms(1) by (simp add: settings_ok_def)
  obtain j where j: "?n = Suc j" using ok by (metis gr0_implies_Suc zero_less_nat_eq)
  let ?a = "filled E cm bs j"
  let ?b = "?a\<lparr>senders := senders ?a @ [cm]\<rparr>" and ?c = "?a\<lparr>senders := (senders ?a @ [cm]) @ [cm]\<rparr>"
  let ?d = "(?c\<lparr>chPending := (chPending ?a)\<lparr>buf := buf (chPending ?a) @ [cm]\<rparr>, offered := offered ?a @ [cm]\<rparr>)
    \<lparr>senders := [] @ [cm]\<rparr>"
  have check: "sendPending_check (writeBacklog (aset E)) ?a"
    using j ok by (simp add: sendPending_check_def filled_fields AgentInit_def AgentClosed_def)
  have a: "offer_reach worker_goroutines E ?a"
    using filled_reach [OF assms(1) _ assms(2)] j by (simp add: worker_goroutines_def)
  have b: "offer_reach worker_goroutines E ?b"
    by (rule offer_reach_step [OF a Check [OF ok check]]) (simp_all add: check filled_fields worker_goroutines_def)
  have c: "offer_reach worker_goroutines E ?c"
    by (rule offer_reach_step [OF b])
      (use Check [OF ok, of ?b E cm] check in \<open>simp_all add: sendPending_check_def filled_fields worker_goroutines_def\<close>)
  have d: "offer_reach worker_goroutines E ?d"
    by (rule offer_reach_step [OF c Offer [where xs = "[]" and cm = cm and ys = "[cm]"]])
      (simp_all add: sendPending_send_def chan_send_def filled_fields j worker_goroutines_def)
  have "stuck bs ?d" using blocked_stuck(2) [OF assms(1) zero_less_one assms(2)]
    by (simp add: filled_def Let_def stuck_def)
  then have jam: "jammed cm bs ?d" by (simp add: jammed_def filled_fields j)
  have "cm \<in> set (senders b) \<and> sendPending_send cm b = None \<and> conn_open b" if "jammed cm bs b" for b
    using that by (auto simp: jammed_def stuck_def sendPending_send_def chan_send_def)
  then show ?thesis using d jammed_forever [OF _ jam] by blast
qed

text \<open>
  A backlog that is raised after the connection was made lets even a single goroutine past the
  check when the queue is full.
\<close>

lemma raised_backlog_waits:
  assumes "state a \<noteq> AgentClosed" and "length (buf (chPending a)) = cap (chPending a)" and "int (cap (chPending a)) < limit"
    and "\<not> isclosed (chPending a)"
  shows "sendPending limit c m a = None"
  using assms by (simp add: sendPending_defs chan_send_def)

section \<open>Samples\<close>

theorem offers_wait_at_most_witness:
  "\<exists>bs. let a = filled sample_agent_env (MsgCommon_Reset, sample_req) bs 64
     in offer_reach 1 sample_agent_env a \<and> length (buf (chPending a)) = cap (chPending a) \<and> senders a = []"
proof -
  obtain bs where bs: "pack_frame sample_agent_env (MsgCommon_Reset, sample_req) = Some (Inr bs)" by (rule sample_pack)
  let ?a = "filled sample_agent_env (MsgCommon_Reset, sample_req) bs 64"
  have n: "nat (writeBacklog (aset sample_agent_env)) = 64" by (simp add: sample_agent_env_def default_settings_def)
  have r: "offer_reach 1 sample_agent_env ?a" by (rule filled_reach [OF sample_settings zero_less_one bs]) (simp add: n)
  have full: "length (buf (chPending ?a)) = cap (chPending ?a)" by (simp add: filled_fields n)
  from offers_wait_at_most [OF r sample_settings] full have "senders ?a = []" by simp
  with r full show ?thesis unfolding Let_def by blast
qed

theorem offer_waits_forever_witness:
  "\<exists>a. offer_reach 2 sample_agent_env a \<and>
    (\<forall>b. (agent_step sample_agent_env)\<^sup>*\<^sup>* a b \<longrightarrow>
       (MsgCommon_Reset, sample_req) \<in> set (senders b) \<and> sendPending_send (MsgCommon_Reset, sample_req) b = None)"
proof -
  obtain bs where bs: "pack_frame sample_agent_env (MsgCommon_Reset, sample_req) = Some (Inr bs)" by (rule sample_pack)
  from offer_waits_forever [OF sample_settings bs] show ?thesis unfolding worker_goroutines_def by blast
qed

end
