(* ===== verification/Progress.thy ===== *)
theory Progress
  imports Network
begin

text \<open>
  Progress of the network: from every state it reaches, a node can work off what its worker
  goroutines are at, what is queued and what has arrived, and a call between two serving nodes can be made and return.
\<close>

section \<open>What work leaves alone\<close>

text \<open>
  A node that serves: it runs, is subscribed, and neither its subscription's channel nor its
  worker's queue is closed. Both may hold any number of messages and tasks.
\<close>

definition serving :: "('t, 'm, 'h, 'c, 'l) node \<Rightarrow> bool" where
  "serving n \<longleftrightarrow>
     running n \<and> subscription (natsSub n) \<and> \<not> queue_closed n \<and>
     0 < cap (ch (natsSub n)) \<and> \<not> isclosed (ch (natsSub n)) \<and>
     0 < cap (queue n) \<and> \<not> isclosed (queue n)"

text \<open>
  Serving changes buffers, callbacks, the registry, which only grows, and what is published.
\<close>

definition works_on ::
    "('t, 'm, 'h, 'c, 'l) cluster_env \<Rightarrow> ('t, 'm, 'h, 'c, 'l) node \<Rightarrow> ('t, 'm, 'h, 'c, 'l) node \<Rightarrow> bool" where
  "works_on E n n' \<longleftrightarrow>
     reg_wf (lib E) (types n') \<and>
     (\<forall>t i. type2id (types n) t = Some i \<longrightarrow> type2id (types n') t = Some i) \<and>
     mid (requester n') = mid (requester n) \<and>
     (\<exists>g b q r out. n' = n\<lparr>types := g, natsSub := (natsSub n)\<lparr>ch := (ch (natsSub n))\<lparr>buf := b\<rparr>\<rparr>,
        queue := (queue n)\<lparr>buf := q\<rparr>, requester := r, published := out\<rparr>)"

lemma works_onI:
  assumes "reg_wf (lib E) (types n')"
    and "\<And>t i. type2id (types n) t = Some i \<Longrightarrow> type2id (types n') t = Some i"
    and "mid (requester n') = mid (requester n)"
    and "n' = n\<lparr>types := g, natsSub := (natsSub n)\<lparr>ch := (ch (natsSub n))\<lparr>buf := b\<rparr>\<rparr>,
      queue := (queue n)\<lparr>buf := q\<rparr>, requester := r, published := out\<rparr>"
  shows "works_on E n n'"
  unfolding works_on_def using assms by blast

lemma works_on_refl: "reg_wf (lib E) (types n) \<Longrightarrow> works_on E n n"
  by (rule works_onI [where g = "types n" and b = "buf (ch (natsSub n))" and q = "buf (queue n)"
        and r = "requester n" and out = "published n"]) simp_all

lemma works_on_trans:
  assumes "works_on E n n1" and "works_on E n1 n2"
  shows "works_on E n n2"
proof -
  obtain g b q r out where n1: "n1 = n\<lparr>types := g, natsSub := (natsSub n)\<lparr>ch := (ch (natsSub n))\<lparr>buf := b\<rparr>\<rparr>,
      queue := (queue n)\<lparr>buf := q\<rparr>, requester := r, published := out\<rparr>"
    using assms(1) unfolding works_on_def by blast
  obtain g2 b2 q2 r2 out2 where n2: "n2 = n1\<lparr>types := g2, natsSub := (natsSub n1)\<lparr>ch := (ch (natsSub n1))\<lparr>buf := b2\<rparr>\<rparr>,
      queue := (queue n1)\<lparr>buf := q2\<rparr>, requester := r2, published := out2\<rparr>"
    using assms(2) unfolding works_on_def by blast
  show ?thesis
    by (rule works_onI [where g = g2 and b = b2 and q = q2 and r = r2 and out = out2])
      (use assms in \<open>auto simp: works_on_def n1 n2\<close>)
qed

lemma works_on_same:
  assumes "works_on E n n'"
  shows "serving n' = serving n" and "self_id n' = self_id n" and "self_type n' = self_type n"
    and "members n' = members n" and "prefix n' = prefix n" and "reqHandlers n' = reqHandlers n"
    and "subject (natsSub n') = subject (natsSub n)" and "mid (requester n') = mid (requester n)"
    and "reg_wf (lib E) (types n')"
    and "type2id (types n) t = Some i \<Longrightarrow> type2id (types n') t = Some i"
  using assms by (auto simp: works_on_def serving_def)

section \<open>Working off\<close>

lemma works_on_Resp:
  assumes "reg_wf (lib E) (types n)"
  shows "works_on E n (fst (Resp E c m n))" and "queue (fst (Resp E c m n)) = queue n"
    and "natsSub (fst (Resp E c m n)) = natsSub n"
proof -
  let ?c = "\<lparr>SourceId = TargetId c, TargetId = SourceId c, Mid = Mid c, McSid = McSid c,
    McUid = McUid c, Route = Route c\<rparr>"
  let ?g = "fst (PackMessage (lib E) ?c m (types n))"
  obtain n1 r where pk: "pack_in E ?c m n = (n1, r)" by (cases "pack_in E ?c m n")
  have n1: "n1 = n\<lparr>types := ?g\<rparr>" using pack_in_fst [of E ?c m n] pk by simp
  have "\<exists>out. fst (Resp E c m n) = n1\<lparr>published := out\<rparr>"
  proof (cases "\<exists>d. r = Ret (Inr d)")
    case True
    then obtain d where "fst (Resp E c m n) = fst (SendBytes E (SourceId c) d n1)"
      using pk by (auto simp: Resp_def)
    then show ?thesis using SendBytes_fst by metis
  next
    case False
    then have "fst (Resp E c m n) = n1"
      using pk by (auto simp: Resp_def split: outcome.splits sum.splits)
    then show ?thesis by (intro exI [of _ "published n1"]) simp
  qed
  then obtain out where r: "fst (Resp E c m n) = n\<lparr>types := ?g, published := out\<rparr>" using n1 by auto
  show "works_on E n (fst (Resp E c m n))"
    by (rule works_onI [where g = ?g and b = "buf (ch (natsSub n))" and q = "buf (queue n)"
          and r = "requester n" and out = out])
      (use PackMessage_wf [OF assms] PackMessage_keeps [OF assms] r in simp_all)
  show "queue (fst (Resp E c m n)) = queue n" "natsSub (fst (Resp E c m n)) = natsSub n"
    using r by simp_all
qed

lemma works_on_start:
  assumes "answering E ans" and "reg_wf (lib E) (types n)"
  shows "works_on E n (fst (start_job E t n)) \<and> queue (fst (start_job E t n)) = queue n \<and>
    natsSub (fst (start_job E t n)) = natsSub n"
proof -
  have P: "\<And>u. run_handler E u = (\<lambda>c m. Resp E c (ans u m))" using assms(1) by (simp add: answering_def)
  note R = works_on_Resp [OF assms(2)] works_on_refl [OF assms(2)]
  obtain h c m where t: "t = Task h c m" by (cases t)
  have "works_on E n (fst (call_handler E h c m n)) \<and> queue (fst (call_handler E h c m n)) = queue n \<and>
      natsSub (fst (call_handler E h c m n)) = natsSub n" if "h \<noteq> Some RespHandler"
    using R that by (cases "(E, h, c, m, n)" rule: call_handler.cases) (auto simp: P)
  then show ?thesis using R(4) by (auto simp: start_job_def t)
qed

text \<open>
  A run in which only node \<open>i\<close> works, from \<open>s\<close>, where it is \<open>n\<close>, to \<open>s'\<close>, where it is \<open>n'\<close>. Callbacks
  that have begun return in it.
\<close>

definition works_off where
  "works_off E ans is_req i n s n' s' \<longleftrightarrow>
     (net_step E ans is_req)\<^sup>*\<^sup>* s s' \<and> net_nodes s i = Some n \<and> net_nodes s' i = Some n' \<and> works_on E n n' \<and>
     (\<forall>j. j \<noteq> i \<longrightarrow> net_nodes s' j = net_nodes s j \<and> jobs s' j = jobs s j) \<and>
     asked s' = asked s \<and> (\<exists>xs. answered s' = answered s @ xs)"

lemma works_off_refl:
  "net_nodes s i = Some n \<Longrightarrow> reg_wf (lib E) (types n) \<Longrightarrow> works_off E ans is_req i n s n s"
  by (simp add: works_off_def works_on_refl)

lemma works_off_trans:
  assumes "works_off E ans is_req i n s n1 s1" and "works_off E ans is_req i n1 s1 n2 s2"
  shows "works_off E ans is_req i n s n2 s2"
  using assms works_on_trans [of E n n1 n2] unfolding works_off_def by (auto intro: rtranclp_trans)

lemma works_off_step:
  assumes "net_step E ans is_req s s'" and "net_nodes s i = Some n" and "net_nodes s' = (net_nodes s)(i \<mapsto> n')"
    and "works_on E n n'" and "jobs s' = (jobs s)(i := js)" and "asked s' = asked s" and "answered s' = answered s @ xs"
  shows "works_off E ans is_req i n s n' s'"
  using assms by (auto simp: works_off_def)

text \<open>The worker goroutines of node \<open>i\<close> can finish what they are at.\<close>

lemma job_ends:
  assumes "net_nodes s i = Some n" and "reg_wf (lib E) (types n)" and "jobs s i = Calling x # js"
  shows "\<exists>n' s'. works_off E ans is_req i n s n' s' \<and> jobs s' i = js \<and> queue n' = queue n \<and> natsSub n' = natsSub n"
proof -
  let ?n = "n\<lparr>requester := unregisterCallback x (requester n)\<rparr>"
  let ?s = "s\<lparr>net_nodes := (net_nodes s)(i \<mapsto> ?n), jobs := (jobs s)(i := [] @ js)\<rparr>"
  have w: "works_on E n ?n"
    by (rule works_onI [where g = "types n" and b = "buf (ch (natsSub n))" and q = "buf (queue n)"
          and r = "unregisterCallback x (requester n)" and out = "published n"])
      (use assms(2) in \<open>simp_all add: unregisterCallback_def\<close>)
  have "net_step E ans is_req s ?s" by (rule Ends [OF assms(1)]) (simp add: assms(3))
  then have "works_off E ans is_req i n s ?n ?s"
    by (rule works_off_step [OF _ assms(1) _ w, where xs = "[]"]) simp_all
  then show ?thesis by (intro exI [of _ ?n] exI [of _ ?s]) simp
qed

lemma job_done:
  assumes A: "answering E ans" and n: "net_nodes s i = Some n" and wf: "reg_wf (lib E) (types n)"
    and js: "jobs s i = j # js"
  shows "\<exists>n' s'. works_off E ans is_req i n s n' s' \<and> jobs s' i = js \<and> queue n' = queue n \<and> natsSub n' = natsSub n"
proof (cases j)
  case (Calling x)
  then show ?thesis using job_ends [OF n wf] js by blast
next
  case (Holding t)
  obtain n1 new where st: "start_job E t n = (n1, new)" by (cases "start_job E t n")
  let ?s = "s\<lparr>net_nodes := (net_nodes s)(i \<mapsto> n1), jobs := (jobs s)(i := [] @ new @ js),
    transit := transit s @ emitted n n1, answered := answered s @ callback_run i t n\<rparr>"
  have w: "works_on E n n1" "queue n1 = queue n" "natsSub n1 = natsSub n"
    using works_on_start [OF A wf, of t] st by simp_all
  have "net_step E ans is_req s ?s" by (rule Begins [OF n _ st]) (simp add: js Holding)
  then have off: "works_off E ans is_req i n s n1 ?s"
    by (rule works_off_step [OF _ n _ w(1), where xs = "callback_run i t n"]) simp_all
  have "new = [] \<or> (\<exists>x. new = [Calling x])" using st by (auto simp: start_job_def split: task.splits if_splits)
  then show ?thesis
  proof (elim disjE exE)
    assume "new = []"
    then show ?thesis using off w by (intro exI [of _ n1] exI [of _ ?s]) simp
  next
    fix x
    assume "new = [Calling x]"
    then have "jobs ?s i = Calling x # js" by simp
    from job_ends [of ?s i n1 E x js ans is_req, OF _ works_on_same(9) [OF w(1)] this]
    show ?thesis using works_off_trans [OF off] w by auto
  qed
qed

lemma jobs_empty:
  assumes "answering E ans" and "net_nodes s i = Some n" and "reg_wf (lib E) (types n)"
  shows "\<exists>n' s'. works_off E ans is_req i n s n' s' \<and> jobs s' i = [] \<and> queue n' = queue n \<and> natsSub n' = natsSub n"
  using assms(2,3)
proof (induction "jobs s i" arbitrary: n s)
  case Nil
  then show ?case using works_off_refl by metis
next
  case (Cons j js)
  obtain n1 s1 where 1: "works_off E ans is_req i n s n1 s1" "jobs s1 i = js" "queue n1 = queue n" "natsSub n1 = natsSub n"
    using job_done [OF assms(1) Cons.prems, of j js is_req] Cons.hyps(2) by metis
  then have "net_nodes s1 i = Some n1" "reg_wf (lib E) (types n1)"
    using works_on_same(9) by (auto simp: works_off_def)
  from Cons.hyps(1) [OF 1(2) [symmetric] this] show ?case
    using works_off_trans [OF 1(1)] 1(3,4) by metis
qed

text \<open>They can empty its queue.\<close>

lemma queue_empties:
  assumes "answering E ans" and "net_nodes s i = Some n" and "reg_wf (lib E) (types n)"
  shows "\<exists>n' s'. works_off E ans is_req i n s n' s' \<and> jobs s' i = [] \<and> buf (queue n') = [] \<and> natsSub n' = natsSub n"
  using assms(2,3)
proof (induction "buf (queue n)" arbitrary: n s)
  case Nil
  then show ?case using jobs_empty [OF assms(1) Nil.prems, of is_req] by metis
next
  case (Cons t ts)
  obtain n1 s1 where 1: "works_off E ans is_req i n s n1 s1" "jobs s1 i = []" "queue n1 = queue n" "natsSub n1 = natsSub n"
    using jobs_empty [OF assms(1) Cons.prems, of is_req] by metis
  then have n1: "net_nodes s1 i = Some n1" "reg_wf (lib E) (types n1)"
    using works_on_same(9) by (auto simp: works_off_def)
  let ?n = "n1\<lparr>queue := (queue n1)\<lparr>buf := ts\<rparr>\<rparr>"
  let ?s = "s1\<lparr>net_nodes := (net_nodes s1)(i \<mapsto> ?n), jobs := (jobs s1)(i := jobs s1 i @ [Holding t])\<rparr>"
  have w: "works_on E n1 ?n"
    by (rule works_onI [where g = "types n1" and b = "buf (ch (natsSub n1))" and q = ts
          and r = "requester n1" and out = "published n1"]) (use n1(2) in simp_all)
  have "take_task n1 = Some (t, ?n)" unfolding take_task_def chan_recv_def 1(3) Cons.hyps(2) [symmetric] by simp
  then have "net_step E ans is_req s1 ?s" by (rule Takes [OF n1(1), rotated]) (simp add: 1(2) worker_goroutines_def)
  then have 2: "works_off E ans is_req i n1 s1 ?n ?s"
    by (rule works_off_step [OF _ n1(1) _ w, where xs = "[]"]) simp_all
  have "ts = buf (queue ?n)" "net_nodes ?s i = Some ?n" "reg_wf (lib E) (types ?n)" using n1(2) by simp_all
  from Cons.hyps(1) [OF this] show ?case
    using works_off_trans [OF works_off_trans [OF 1(1) 2]] 1(4) by auto
qed

text \<open>
  With an empty queue the receiving goroutine never waits: it throws a message away or
  posts its task.
\<close>

lemma receive_works:
  assumes "serving n" and "reg_wf (lib E) (types n)" and "buf (queue n) = []" and "buf (ch (natsSub n)) = d # ds"
  shows "\<exists>n1. receive_turn E n = Some n1 \<and> works_on E n n1 \<and> buf (ch (natsSub n1)) = ds"
proof -
  let ?n = "n\<lparr>natsSub := (natsSub n)\<lparr>ch := (ch (natsSub n))\<lparr>buf := ds\<rparr>\<rparr>\<rparr>"
  have w: "works_on E n (?n\<lparr>queue := (queue n)\<lparr>buf := q\<rparr>\<rparr>)" for q
    by (rule works_onI [where g = "types n" and b = ds and q = q and r = "requester n" and out = "published n"])
      (use assms(2) in simp_all)
  have e: "?n\<lparr>queue := (queue n)\<lparr>buf := []\<rparr>\<rparr> = ?n" using empty_chan [OF assms(3)] by simp
  have "receive_turn E n = process_msg E d ?n"
    using assms(4) by (simp add: receive_turn_def chan_recv_def)
  moreover have "post t ?n = Some (?n\<lparr>queue := (queue n)\<lparr>buf := [t]\<rparr>\<rparr>)" for t
    using assms(1,3) by (simp add: post_def serving_def chan_send_def)
  ultimately have "receive_turn E n = Some ?n \<or> (\<exists>t. receive_turn E n = Some (?n\<lparr>queue := (queue n)\<lparr>buf := [t]\<rparr>\<rparr>))"
    by (auto simp: process_msg_at split: sum.split)
  then show ?thesis using w w [of "[]", unfolded e] by auto
qed

lemma node_empties:
  assumes "answering E ans" and "net_nodes s i = Some n" and "reg_wf (lib E) (types n)" and "serving n"
  shows "\<exists>n' s'. works_off E ans is_req i n s n' s' \<and> jobs s' i = [] \<and> buf (queue n') = [] \<and> buf (ch (natsSub n')) = []"
  using assms(2-4)
proof (induction "buf (ch (natsSub n))" arbitrary: n s)
  case Nil
  then show ?case using queue_empties [OF assms(1) Nil.prems(1,2), of is_req] by metis
next
  case (Cons d ds)
  obtain n1 s1 where q: "works_off E ans is_req i n s n1 s1" "jobs s1 i = []" "buf (queue n1) = []" "natsSub n1 = natsSub n"
    using queue_empties [OF assms(1) Cons.prems(1,2), of is_req] by metis
  then have w1: "net_nodes s1 i = Some n1" "works_on E n n1" by (simp_all add: works_off_def)
  obtain n2 where r: "receive_turn E n1 = Some n2" "works_on E n1 n2" "buf (ch (natsSub n2)) = ds"
    using receive_works [of n1 E d ds] q(3,4) works_on_same(1,9) [OF w1(2)] Cons.prems(3) Cons.hyps(2) by metis
  let ?s = "s1\<lparr>net_nodes := (net_nodes s1)(i \<mapsto> n2)\<rparr>"
  have "net_step E ans is_req s1 ?s" by (rule Receive [OF w1(1) r(1)])
  then have 2: "works_off E ans is_req i n1 s1 n2 ?s"
    by (rule works_off_step [OF _ w1(1) _ r(2), where xs = "[]" and js = "jobs s1 i"]) simp_all
  have w: "works_on E n n2" by (rule works_on_trans [OF w1(2) r(2)])
  have "net_nodes ?s i = Some n2" "reg_wf (lib E) (types n2)" "serving n2"
    using works_on_same(1,9) [OF w] Cons.prems(3) by simp_all
  from Cons.hyps(1) [OF r(3) [symmetric] this] show ?case
    using works_off_trans [OF works_off_trans [OF q(1) 2]] by metis
qed

section \<open>A call from any state\<close>

text \<open>What a node has registered for a type of message.\<close>

definition registered ::
    "('t, 'm, 'h, 'c, 'l) cluster_env \<Rightarrow> ('t, 'm, 'h, 'c, 'l) node \<Rightarrow> 'm \<Rightarrow> ('t, 'h) handler \<Rightarrow> bool" where
  "registered E n m f \<longleftrightarrow>
     type2id (types n) (mtype (lib E) m) = Some (route_of E m) \<and> reqHandlers n (route_of E m) = Some f"

lemma works_on_registered: "works_on E n n' \<Longrightarrow> registered E n m f \<Longrightarrow> registered E n' m f"
  using works_on_same(6,10) [of E n n'] by (auto simp: registered_def)

lemma ready_when_empty:
  assumes "serving n" and "site E is_req p i n" and "works_on E n n'"
    and "buf (queue n') = []" and "buf (ch (natsSub n')) = []"
  shows "node_ready n'" and "self_id n' = i"
  using assms(1,2,4,5) works_on_same(1-7) [OF assms(3)]
  by (auto simp: node_ready_def serving_def site_def)

lemma type_free_inj:
  assumes "answering E ans" and "reg_wf (lib E) (types n)"
  shows "type_free E m n"
proof (cases "id2type (types n) (route_of E m)")
  case (Some t)
  then have "name_id (fname (lib E) t) = route_of E m"
    using reg_wfD(1,2) [OF assms(2)] by metis
  then have "t = mtype (lib E) m" using assms(1) by (auto simp: answering_def inj_def)
  then show ?thesis using Some by (simp add: type_free_def)
qed (simp add: type_free_def)

section \<open>Properties\<close>

text \<open>
  C5: A call can always return. In every state that a network reaches, whatever is on its way
  and however much both nodes still have in their channels and queues, a serving node can
  call another serving node that it knows and that knows it: there is a run from there in
  which the request is issued, the handler of the other node answers it, and the callback
  runs with that answer, after the callbacks that were due before. In that run the callbacks
  return, as those of \<open>requestAsync\<close> can; the select of \<open>requestWait\<close> is no step here.
\<close>

theorem calls_can_return:
  assumes "fresh_net E is_req p s0" and "answering E ans" and "(net_step E ans is_req)\<^sup>*\<^sup>* s0 s"
    and "length (asked s) < 2 ^ 32" and "publish_error E = (\<lambda>_ _. None)"
    and "net_nodes s i = Some A" and "net_nodes s j = Some B" and "i \<noteq> j" and "serving A" and "serving B"
    and "knows A B" and "knows B A"
    and "registered E B req (UserHandler (mtype (lib E) req) h)" and "registered E A (ans h req) RespHandler"
    and "call_ok E ans is_req (i, mid (requester A) + 1, j, req, cb)"
  shows "\<exists>s' xs. (net_step E ans is_req)\<^sup>*\<^sup>* s s' \<and>
    asked s' = asked s @ [(i, mid (requester A) + 1, j, req, cb)] \<and>
    answered s' = answered s @ xs @ [((i, mid (requester A) + 1), cb, ans h req)]"
proof -
  have inv: "net_inv E ans is_req p s" using net_run [OF assms(1-4)] ..
  note siteA = node_okD(1) [OF net_invD(1) [OF inv assms(6)]] and siteB = node_okD(1) [OF net_invD(1) [OF inv assms(7)]]
  have wf: "reg_wf (lib E) (types A)" "reg_wf (lib E) (types B)" using siteA siteB by (simp_all add: site_def)
  obtain A' s1 where 1: "works_off E ans is_req i A s A' s1" "jobs s1 i = []" "buf (queue A') = []" "buf (ch (natsSub A')) = []"
    using node_empties [OF assms(2,6) wf(1) assms(9), of is_req] by blast
  have A': "(net_step E ans is_req)\<^sup>*\<^sup>* s s1" "works_on E A A'" "buf (queue A') = []" "buf (ch (natsSub A')) = []"
    using 1 by (simp_all add: works_off_def)
  have "net_nodes s1 j = Some B" using 1(1) assms(7,8) by (simp add: works_off_def)
  then obtain B' s2 where 2: "works_off E ans is_req j B s1 B' s2" "jobs s2 j = []" "buf (queue B') = []" "buf (ch (natsSub B')) = []"
    using node_empties [OF assms(2) _ wf(2) assms(10), of _ _ is_req] by blast
  have B': "(net_step E ans is_req)\<^sup>*\<^sup>* s1 s2" "works_on E B B'" "buf (queue B') = []" "buf (ch (natsSub B')) = []"
    using 2 by (simp_all add: works_off_def)
  have idle: "jobs s2 i = []" "jobs s2 j = []" using 1 2 assms(8) by (auto simp: works_off_def)
  obtain xs where log: "asked s2 = asked s" "answered s2 = answered s @ xs"
    using 1(1) 2(1) by (auto simp: works_off_def)
  note rA = ready_when_empty [OF assms(9) siteA A'(2-4)] and rB = ready_when_empty [OF assms(10) siteB B'(2-4)]
  have nodes: "net_nodes s2 i = Some A'" "net_nodes s2 j = Some B'" using 1(1) 2(1) assms(8) by (auto simp: works_off_def)
  have knows: "knows A' B'" "knows B' A'"
    using assms(11,12) works_on_same(2-5) [OF A'(2)] works_on_same(2-5) [OF B'(2)] by (simp_all add: knows_def)
  note regB = works_on_registered [OF B'(2) assms(13), unfolded registered_def]
    and regA = works_on_registered [OF A'(2) assms(14), unfolded registered_def]
  have "call_ok E ans is_req (i, mid (requester A') + 1, j, req, cb)"
    using assms(15) works_on_same(8) [OF A'(2)] by simp
  from idle_call_returns [OF assms(2,5) nodes assms(8) rA(2) rB(2) idle rA(1) rB(1) knows
      works_on_same(9) [OF A'(2)] works_on_same(9) [OF B'(2)]
      type_free_inj [OF assms(2) works_on_same(9) [OF A'(2)]] type_free_inj [OF assms(2) works_on_same(9) [OF B'(2)]]
      regB [THEN conjunct1] regB [THEN conjunct2] regA [THEN conjunct1] regA [THEN conjunct2] this]
  obtain s' where s': "(net_step E ans is_req)\<^sup>*\<^sup>* s2 s'"
    "asked s' = asked s2 @ [(i, mid (requester A') + 1, j, req, cb)]"
    "answered s' = answered s2 @ [((i, mid (requester A') + 1), cb, ans h req)]" by blast
  show ?thesis
    using rtranclp_trans [OF rtranclp_trans [OF A'(1) B'(1)] s'(1)] s'(2,3) works_on_same(8) [OF A'(2)] log
    by (intro exI [of _ s'] exI [of _ xs]) simp
qed

text \<open>In the sample network the gate can call the auth node.\<close>

theorem calls_can_return_witness:
  "\<exists>s' xs. (net_step sample_env (\<lambda>_. sum_answer) asks_sum)\<^sup>*\<^sup>* sample_net s' \<and>
     asked s' = [(''g'', 1, ''a'', sample_req, ''cb'')] \<and>
     answered s' = xs @ [((''g'', 1), ''cb'', sum_answer sample_req)]"
proof -
  have ready: "serving sample_gate" "serving sample_auth"
    using sample_ready(1,2) by (simp_all add: serving_def node_ready_def)
  have reg: "registered sample_env sample_auth sample_req (UserHandler (mtype (lib sample_env) sample_req) ())"
    "registered sample_env sample_gate (sum_answer sample_req) RespHandler"
    using sample_routes by (simp_all add: registered_def)
  have k: "net_nodes sample_net ''g'' = Some sample_gate" "net_nodes sample_net ''a'' = Some sample_auth"
    "mid (requester sample_gate) = 0" "asked sample_net = []" "answered sample_net = []"
    by (simp_all add: sample_net_def sample_node_defs)
  have "''g'' \<noteq> ''a''" by simp
  from calls_can_return [OF sample_fresh sample_answering rtranclp.rtrancl_refl _ sample_env_simps(2) k(1,2) this
      ready sample_ready(3,4) reg sample_call_ok] k(3-5)
  show ?thesis by simp
qed

end
