(* ===== verification/Shutdown.thy ===== *)
theory Shutdown
  imports Nodes
begin

text \<open>
  \<open>Shutdown\<close> of \<^verbatim>\<open>framework/application.go\<close> on a node as it is put together in Nodes: its worker,
  the select of \<open>Startup\<close>, and the goroutine of the discovery that receives on the same channel.
\<close>

lemma Shutdown_stop_node:
  assumes "app_worker a = Some c" and "result WorkerStop = Ret ()"
  obtains b where "Shutdown_stop (node_env result fns) a = (b, Ret ())" "closed (wk (world b))"
    "app_running b = app_running a"
  using assms that by (cases "closed (wk (world a))") (auto simp: Shutdown_stop_def stop_wk_def make_call_def upd_def)

text \<open>
  C38: \<open>Shutdown\<close> can leave a node half stopped. On a node that runs, a call can stop the worker
  and come back, its value taken by the keepalive goroutine of the discovery, while \<open>Startup\<close>
  stays in its select: the node counts as running, no component is stopped, and every function
  posted to the worker is ignored. A call at its send can always hand its value to
  \<open>Startup\<close> while that is in its select; and in every run at most two calls come back, the second of them only
  after \<open>Startup\<close> has left the select.
\<close>

theorem Shutdown_can_be_stolen:
  assumes "Running a" and "app_worker a = Some c" and "result WorkerStop = Ret ()"
  shows "(\<exists>d b. Shutdown_stop (node_env result fns) a = (b, Ret ()) \<and> die_reach (node_env result fns) a d \<and>
      dapp d = b \<and> returned d = 1 \<and> sending d = 0 \<and> \<not> signalled d \<and> main_pc d = MainSelect \<and> Running (dapp d) \<and>
      (\<forall>f. Post_load f (wk (world (dapp d))) = wk (world (dapp d)))) \<and>
    (\<forall>d n. die_reach (node_env result fns) a d \<and> main_pc d = MainSelect \<and> sending d = Suc n \<longrightarrow>
      (\<exists>d'. die_step (node_env result fns) d d' \<and> main_pc d' = MainStopping \<and> returned d' = Suc (returned d))) \<and>
    (\<forall>d. die_reach (node_env result fns) a d \<longrightarrow> returned d \<le> (if main_pc d = MainStopping then 2 else 1))"
proof (intro conjI allI impI)
  obtain b where b: "Shutdown_stop (node_env result fns) a = (b, Ret ())" "closed (wk (world b))"
    "app_running b = app_running a"
    using Shutdown_stop_node [of a c result fns] assms(2,3) by blast
  let ?d = "\<lparr>dapp = b, main_pc = MainSelect, keepalive = False, sending = 0, returned = 1, signalled = False\<rparr>"
  have "die_reach (node_env result fns) a ?d" by (rule stolen_call [OF b(1)])
  moreover have "Running (dapp ?d)" using assms(1) b(3) by (simp add: Running_def)
  moreover have "Post_load f (wk (world (dapp ?d))) = wk (world (dapp ?d))" for f
    using b(2) by (simp add: Post_load_def)
  ultimately show "\<exists>d b. Shutdown_stop (node_env result fns) a = (b, Ret ()) \<and> die_reach (node_env result fns) a d \<and>
      dapp d = b \<and> returned d = 1 \<and> sending d = 0 \<and> \<not> signalled d \<and> main_pc d = MainSelect \<and> Running (dapp d) \<and>
      (\<forall>f. Post_load f (wk (world (dapp d))) = wk (world (dapp d)))"
    using b(1) by (intro exI [of _ ?d] exI [of _ b]) simp
next
  fix d n
  assume "die_reach (node_env result fns) a d \<and> main_pc d = MainSelect \<and> sending d = Suc n"
  then show "\<exists>d'. die_step (node_env result fns) d d' \<and> main_pc d' = MainStopping \<and> returned d' = Suc (returned d)"
    using To_main [of d n "node_env result fns"] by fastforce
qed (rule returned_le)

text \<open>The gate of the repository's profile.\<close>

theorem Shutdown_can_be_stolen_witness:
  "\<exists>a d. gate_Run (\<lambda>_. Ret ()) no_fns repo_worker repo_profile ''gate1'' = Inr (a, Ret True) \<and>
     die_reach (node_env (\<lambda>_. Ret ()) no_fns) a d \<and> returned d = 1 \<and> main_pc d = MainSelect \<and> Running (dapp d) \<and>
     Post_load 7 (wk (world (dapp d))) = wk (world (dapp d))"
proof -
  obtain a where a: "gate_Run (\<lambda>_. Ret ()) no_fns repo_worker repo_profile ''gate1'' = Inr (a, Ret True)"
    "app_running a = 1" "app_worker a = Some WorkerComp"
    using gate_Run_gate [OF repo_nodes(1,3)] by blast
  have "Running a" using a(2) by (simp add: Running_def)
  from Shutdown_can_be_stolen [OF this a(3), of "\<lambda>_. Ret ()" no_fns] a(1) show ?thesis by blast
qed

end
