(* ===== verification/Spec2Isabelle.thy ===== *)
theory Spec2Isabelle
  imports Clients Collision Offers Progress Sample_Codec Shutdown
begin

text \<open>
  Verification library for the xgame server framework: nodes of a cluster that talk over
  NATS, find each other through etcd and serve game clients over TCP and websockets.

  \<^bold>\<open>How the program works.\<close> A node (\<^verbatim>\<open>framework/application.go\<close>) is a list of components
  that \<open>Startup\<close> initialises in order and stops in reverse order: a worker that runs the
  handlers, the cluster that publishes and receives messages, the discovery with the table of
  the nodes, and on a gate the network parser with its connectors and the directory of the
  client agents. A client's bytes come through a connector into an agent, whose read loop
  decodes frames and forwards each to a node of the kind that the route table names. There
  the cluster's receive loop posts it to the worker, whose handler answers through the
  cluster; the answer comes back to the gate and is queued for the agent's write loop.

  \<^bold>\<open>What a Go program becomes.\<close> A struct is a record, an error is a value of \<open>error\<close>,
  \<open>(v, err)\<close> is \<open>Inl err\<close> or \<open>Inr v\<close>. A function with effects takes and returns the
  state; \<open>outcome\<close> says whether it returned, panicked or ended the process with
  \<open>log.Fatal\<close>. Machine integers keep their width. Maps are functions to options, buffered
  channels the records of Channel. Goroutines that share state are an inductive step
  relation whose steps are the accesses to what they share; a lock held for a whole operation
  makes that operation one step, and so does a function that shares nothing on its way.

  \<^bold>\<open>The theories, and the code they model\<close>, in the order of their dependencies:

    \<^item> Prelude, Crc32, Channel: words, byte strings, outcomes, \<open>fmt.Sprintf\<close>, the checksum
      and the channels of the Go library and language, and shared lemmas. The locale
      \<open>fifo\<close> is the contract of a queue, interpreted on the channels.
    \<^item> Errors (\<^verbatim>\<open>error/error.go\<close>), Util (\<^verbatim>\<open>util/util.go\<close>), Logger (\<^verbatim>\<open>logger/\<close>),
      Profile (\<^verbatim>\<open>profile/profile.go\<close>).
    \<^item> Pb: the messages of \<^verbatim>\<open>pb/\<close> as records, their names and routes. Sample_Codec: one
      concrete codec, on which the examples run.
    \<^item> Registry (\<^verbatim>\<open>packet/hash.go\<close>): the types a process can decode. The locale
      \<open>type_ids\<close> states what its clients rely on: an id once given stays.
    \<^item> Packet (\<^verbatim>\<open>packet/packet.go\<close>): \<open>ReadMessage\<close>, \<open>parseHead\<close>, \<open>PackMessage\<close> on a
      stream of bytes. The locale \<open>framing\<close> gives streams of frames. Streams: the same
      \<open>ReadMessage\<close> over any \<open>io.Reader\<close>; the locale \<open>io_reader\<close> is the reader's
      contract, interpreted on TCP and NATS bytes and on the websocket connection.
    \<^item> Discovery (\<^verbatim>\<open>discovery/discovery.go\<close>, \<^verbatim>\<open>load_balance.go\<close>): the table, its listeners
      and \<open>Random\<close>; the locale \<open>membership\<close> is the abstract set of members. Etcd
      (\<^verbatim>\<open>discovery_etcd.go\<close>, \<^verbatim>\<open>component.go\<close>): the requests to etcd, its events.
    \<^item> Requester (\<^verbatim>\<open>cluster/requester.go\<close>): callbacks by request id, locale
      \<open>callback_table\<close>, and the interleavings of \<open>requestWait\<close>.
    \<^item> Worker (\<^verbatim>\<open>worker/\<close>): all goroutines of a worker. Executor: the specification of
      \<open>IWorker\<close>, functions taken over and run one at a time, and the simulation by
      which a worker started once refines it (locale \<open>implements\<close>).
    \<^item> Nats (\<^verbatim>\<open>cluster/nats_*.go\<close>), Cluster (\<^verbatim>\<open>cluster.go\<close>, \<^verbatim>\<open>msg_handler.go\<close>,
      \<^verbatim>\<open>facade/cluster.go\<close>): connecting, publishing, requests, answers, the receive loop and
      the steps of the two worker goroutines on the state \<open>node\<close> of one process: one takes a
      function, begins it, runs its callback and unregisters that, each a step of its own.
    \<^item> Agents (\<^verbatim>\<open>xagent/agentManager.go\<close>, \<^verbatim>\<open>route.go\<close>, \<^verbatim>\<open>define.go\<close>): sessions, users,
      routes; locale \<open>session_directory\<close>. Agent (\<^verbatim>\<open>xagent/agent.go\<close>): reader, writer,
      any number of goroutines in \<open>sendPending\<close>, whose check and send are apart, and callers of
      \<open>Close\<close> of one connection, and \<open>processPacket\<close>. Offers: how many of the worker
      goroutines can wait in that send, and for how long.
    \<^item> Connector (\<^verbatim>\<open>connector/\<close>): options, accept loops, the websocket connection.
    \<^item> Application (\<^verbatim>\<open>application.go\<close>, \<^verbatim>\<open>facade/component.go\<close>): components, \<open>Startup\<close>,
      \<open>Shutdown\<close>; locale \<open>component_directory\<close>. Nodes (\<^verbatim>\<open>xagent/net_parser.go\<close>, the
      components' lifecycle methods, \<^verbatim>\<open>gate/gate.go\<close>, \<^verbatim>\<open>auth/auth.go\<close>, \<^verbatim>\<open>cmd/\<close>): the nodes
      of the repository, their start and stop as the list of calls they make. Shutdown:
      \<open>Shutdown\<close> on such a node, against \<open>Startup\<close> and the keepalive goroutine.
    \<^item> Login (\<^verbatim>\<open>gate/listen_message.go\<close>): a log-in from the gate to the answer. Gateway:
      the agent's read loop over its reader and its cluster. Client
      (\<^verbatim>\<open>demo/client/main.go\<close>): the demo client and its log-ins at a gate. Demo: the whole way
      of its log-ins and back, through the queues and the writer of its agent.
    \<^item> Network: any number of nodes whose requests, frames in flight, receive loops and two
      worker goroutines each interleave; a frame is delivered at most once, as NATS does, and
      a callback may return, panic or never end. They refine a machine that knows calls and
      their results only (locale \<open>implements\<close> of Executor). Progress: from every state a call
      can return. Clients: the same steps with the gates' clients and directories, where a
      frame may even come any number of times. Collision: one run in which a client's request
      id meets the gate's own.

  \<^bold>\<open>What the lemmas show.\<close> Each theory has the invariant of its state with the preservation
  by every operation or step, the results of each operation, errors included, and then its
  properties. The main chains are these. Bytes: frames are written and read back without
  loss, over any cutting into websocket messages (Packet, Streams), so that what a client
  sends is published in order (Gateway, Client). Calls: a callback runs at most once,
  with the answer to its own request, however the nodes interleave, and in every state there
  is a run that brings a call back (Requester, Cluster, Network, Progress). Clients: a log-in comes back to the client that
  sent it when its messages are delivered, and no client is handed what another one's request led to (Login, Demo, Clients). Types: handlers get messages of
  their type only (Registry, Cluster). Tables: the member table follows etcd, the directory the sessions
  (Etcd, Agents). Goroutines: the worker runs what it accepted, one at a time; an
  agent delivers in order, ends clean, and keeps at most one of two worker goroutines waiting
  as long as its writer empties the queue (Worker, Executor, Agent, Offers). Life cycle: what is
  called at start and stop, in which order, whatever panics (Application, Nodes, Shutdown).
  Where the code does not keep a promise, a theorem shows the run that breaks it.

  \<^bold>\<open>Parameters.\<close> Code outside the repository is an argument: the protobuf runtime is
  \<open>protolib\<close> with the law \<open>proto_ok\<close> (unmarshalling inverts marshalling), etcd's replies
  are \<open>etcd_replies\<close>, the NATS client is \<open>publish_error\<close> and the results of dialling, JSON
  and files are functions, zap is \<open>zap\<close>, random numbers and the iteration order of Go maps
  are lists and functions, the reader of one websocket message is a function that obeys
  \<open>ws_reader_ok\<close>, the session ids of \<open>nuid\<close> are unique and not empty (\<open>own_sessions\<close>). How a
  call of a component ends is the argument \<open>result\<close> of Nodes.

  \<^bold>\<open>Loops and bounds.\<close> \<open>Connect\<close> may dial for ever: it is a \<open>partial_function\<close> and returns
  exactly if a dial succeeds. \<open>ws_ReadAll\<close> has fuel; \<open>Suc (ws_work c)\<close> is enough, by
  \<open>ws_ReadAll_spec\<close>, since every read that delivers nothing opens a message. Loops that
  serve for ever (\<open>readChan\<close>, \<open>client_loop\<close>, \<open>tcp_accept\<close>, the goroutines of Etcd) recurse
  over the list of what their turns meet, of any length. Every other loop is structural.
  Network bounds a run by \<open>2 ^ 32\<close> calls, since the request ids have 32 bits and wrap.

  \<^bold>\<open>Not modelled.\<close> The generated code under \<^verbatim>\<open>pb/\<close> beyond its records; sockets, TLS and
  the HTTP upgrade; what zap's encoders write, rotation and synchronisation of log files; getters that only
  return a field, and the interfaces of \<^verbatim>\<open>facade/\<close>, which have no code. Data races on
  fields that no lock guards (\<open>lastAt\<close>, \<open>running\<close> of a connector, the map \<open>handlers\<close> of the requester when a callback is
  looked up, the backlog setting) are taken as atomic accesses, each a step of its own. What a
  handler does, its \<open>Resp\<close> included, and a whole \<open>requestAsync\<close> are one step each in Network
  and Clients. Components that are removed while \<open>Startup\<close> runs over the list are excluded, as
  Go would move the array under its loop. A server whose \<open>Connect\<close> never succeeds does not
  come out of \<open>Init\<close>; Nodes takes the calls of a start as returning, panicking or ending
  the process, and Nats has the loop.
\<close>

end
